(* ===== verification/Ort_Prelude.thy ===== *)
theory Ort_Prelude
  imports Main "HOL-Library.Word" "HOL-Library.AList" "HOL-Library.Sublist"
begin

text \<open>
  Shared vocabulary of the ORT development: machine integers and byte strings, the outcome
  type of Rust functions (a value, an error, or a panic), the state-passing form of
  \<open>&mut self\<close> methods, and the pieces of the Rust standard library the sources use
  (big-endian conversions, slices, saturating arithmetic), with the lemmas every component
  proof relies on; simulations between step relations.
\<close>

section \<open>Machine integers and byte strings\<close>

type_synonym u8 = "8 word"
type_synonym u16 = "16 word"
type_synonym u32 = "32 word"
type_synonym u64 = "64 word"
type_synonym bytes = "u8 list"

text \<open>
  \<open>usize\<close> values are natural numbers below \<open>2 ^ 64\<close>. The arithmetic is that of a release
  build (the workspace sets no \<open>overflow-checks\<close>): it wraps.
\<close>

definition usize_add :: "nat \<Rightarrow> nat \<Rightarrow> nat" where
  "usize_add a b = (a + b) mod 2 ^ 64"

definition usize_sub :: "nat \<Rightarrow> nat \<Rightarrow> nat" where
  "usize_sub a b = (if b \<le> a then a - b else 2 ^ 64 + a - b)"

lemma unat_bound: "unat (w :: 'a::len word) < 2 ^ LENGTH('a)"
  by (rule unsigned_less)

text \<open>No Rust allocation is larger than \<open>isize::MAX\<close> bytes.\<close>

definition isize_max :: nat where
  "isize_max = 2 ^ 63 - 1"

lemma usize_add_small [simp]: "a + b \<le> isize_max \<Longrightarrow> usize_add a b = a + b"
  by (simp add: usize_add_def isize_max_def)

lemma usize_sub_le [simp]: "b \<le> a \<Longrightarrow> usize_sub a b = a - b"
  by (simp add: usize_sub_def)

definition saturating_add :: "u64 \<Rightarrow> u64 \<Rightarrow> u64" where
  "saturating_add a b = (if unat a + unat b < 2 ^ 64 then a + b else - 1)"

definition saturating_sub :: "u64 \<Rightarrow> u64 \<Rightarrow> u64" where
  "saturating_sub a b = (if b \<le> a then a - b else 0)"

lemma unat_saturating_add: "unat (saturating_add a b) = min (unat a + unat b) (2 ^ 64 - 1)"
proof (cases "unat a + unat b < 2 ^ 64")
  case True
  then have "unat (a + b) = unat a + unat b"
    by (simp add: unat_word_ariths)
  with True show ?thesis
    by (simp add: saturating_add_def)
next
  case False
  then show ?thesis
    by (simp add: saturating_add_def unsigned_minus_1_eq_mask mask_eq_exp_minus_1)
qed

lemma unat_saturating_sub: "unat (saturating_sub a b) = unat a - unat b"
  by (auto simp: saturating_sub_def unat_sub word_le_nat_alt)


section \<open>Outcomes of Rust functions\<close>

text \<open>
  A call returns a value, returns an error of the function's error type, or panics.
  Functions without a \<open>Result\<close> type use the same outcome with an unused error type, so
  that their panics stay visible.
\<close>

datatype ('a, 'e) result = Ok 'a | Err 'e | Panic

fun bind_result :: "('a, 'e) result \<Rightarrow> ('a \<Rightarrow> ('b, 'e) result) \<Rightarrow> ('b, 'e) result" where
  "bind_result (Ok x) f = f x"
| "bind_result (Err e) f = Err e"
| "bind_result Panic f = Panic"

text \<open>\<open>map_err\<close>, \<open>ok_or\<close> and \<open>expect\<close> of the standard library.\<close>

fun map_err :: "('e \<Rightarrow> 'f) \<Rightarrow> ('a, 'e) result \<Rightarrow> ('a, 'f) result" where
  "map_err f (Ok x) = Ok x"
| "map_err f (Err e) = Err (f e)"
| "map_err f Panic = Panic"

fun ok_or :: "'e \<Rightarrow> 'a option \<Rightarrow> ('a, 'e) result" where
  "ok_or e (Some x) = Ok x"
| "ok_or e None = Err e"

fun expect :: "'a option \<Rightarrow> ('a, 'e) result" where
  "expect (Some x) = Ok x"
| "expect None = Panic"

named_theorems outcome_iff \<open>inversion of the outcome combinators\<close>

lemma bind_result_cases: "bind_result m f = (case m of Ok x \<Rightarrow> f x | Err e \<Rightarrow> Err e | Panic \<Rightarrow> Panic)"
  by (cases m) simp_all

lemma bind_result_Ok_iff [outcome_iff]:
  "bind_result m f = Ok y \<longleftrightarrow> (\<exists>x. m = Ok x \<and> f x = Ok y)"
  by (cases m) auto

lemma bind_result_Err_iff [outcome_iff]:
  "bind_result m f = Err e \<longleftrightarrow> m = Err e \<or> (\<exists>x. m = Ok x \<and> f x = Err e)"
  by (cases m) auto

lemma bind_result_Panic_iff [outcome_iff]:
  "bind_result m f = Panic \<longleftrightarrow> m = Panic \<or> (\<exists>x. m = Ok x \<and> f x = Panic)"
  by (cases m) auto

lemma map_err_Ok_iff [outcome_iff]: "map_err f m = Ok x \<longleftrightarrow> m = Ok x"
  by (cases m) auto

lemma map_err_Err_iff [outcome_iff]: "map_err f m = Err e \<longleftrightarrow> (\<exists>e'. m = Err e' \<and> e = f e')"
  by (cases m) auto

lemma map_err_Panic_iff [outcome_iff]: "map_err f m = Panic \<longleftrightarrow> m = Panic"
  by (cases m) auto

lemma ok_or_Ok_iff [outcome_iff]: "ok_or e m = Ok x \<longleftrightarrow> m = Some x"
  by (cases m) auto

lemma expect_Ok_iff [outcome_iff]: "expect m = Ok x \<longleftrightarrow> m = Some x"
  by (cases m) auto


section \<open>Methods with mutable state\<close>

text \<open>
  A \<open>&mut self\<close> method takes the state and returns its outcome with the state it leaves
  behind, on an error too. \<open>sbind\<close> is the sequencing of the \<open>?\<close> operator.
\<close>

type_synonym ('a, 'e, 's) sm = "'s \<Rightarrow> ('a, 'e) result \<times> 's"

definition sreturn :: "'a \<Rightarrow> ('a, 'e, 's) sm" where
  "sreturn x s = (Ok x, s)"

definition sbind :: "('a, 'e, 's) sm \<Rightarrow> ('a \<Rightarrow> ('b, 'e, 's) sm) \<Rightarrow> ('b, 'e, 's) sm" where
  "sbind m f s = (case m s of
     (Ok x, s') \<Rightarrow> f x s'
   | (Err e, s') \<Rightarrow> (Err e, s')
   | (Panic, s') \<Rightarrow> (Panic, s'))"

definition slift :: "('a, 'e) result \<Rightarrow> ('a, 'e, 's) sm" where
  "slift m s = (m, s)"

lemma slift_simp [simp]: "slift m s = (m, s)"
  by (simp add: slift_def)

lemma sreturn_simp [simp]: "sreturn x s = (Ok x, s)"
  by (simp add: sreturn_def)

lemma sbind_step:
  "m s = (Ok x, s') \<Longrightarrow> sbind m f s = f x s'"
  "m s = (Err e, s') \<Longrightarrow> sbind m f s = (Err e, s')"
  "m s = (Panic, s') \<Longrightarrow> sbind m f s = (Panic, s')"
  by (simp_all add: sbind_def)

lemma sbind_slift [simp]:
  "sbind (slift (Ok x)) f s = f x s"
  "sbind (slift (Err e)) f s = (Err e, s)"
  "sbind (slift Panic) f s = (Panic, s)"
  by (simp_all add: sbind_def)

lemma sbind_slift_cases: "sbind (slift m) f s = (case m of Ok x \<Rightarrow> f x s | Err e \<Rightarrow> (Err e, s) | Panic \<Rightarrow> (Panic, s))"
  by (simp add: sbind_def split: result.split)

lemma fst_eqE:
  assumes "fst p = x"
  obtains s where "p = (x, s)"
  using assms by (cases p) auto

lemma sbind_Ok_iff [outcome_iff]:
  "sbind m f s = (Ok y, s'') \<longleftrightarrow> (\<exists>x s'. m s = (Ok x, s') \<and> f x s' = (Ok y, s''))"
  by (auto simp: sbind_def split: prod.splits result.splits)

lemma sbind_Err_iff [outcome_iff]:
  "sbind m f s = (Err e, s'') \<longleftrightarrow>
     m s = (Err e, s'') \<or> (\<exists>x s'. m s = (Ok x, s') \<and> f x s' = (Err e, s''))"
  by (auto simp: sbind_def split: prod.splits result.splits)

lemma sbind_Panic_iff [outcome_iff]:
  "sbind m f s = (Panic, s'') \<longleftrightarrow>
     m s = (Panic, s'') \<or> (\<exists>x s'. m s = (Ok x, s') \<and> f x s' = (Panic, s''))"
  by (auto simp: sbind_def split: prod.splits result.splits)


section \<open>Slices and arrays\<close>

text \<open>
  \<open>&xs[a..b]\<close>, \<open>xs[i]\<close> and \<open>dst.copy_from_slice(src)\<close> panic when the range, the index or
  the lengths do not fit. Fixed-size arrays \<open>[u8; N]\<close> are lists whose length is stated by
  the well-formedness predicates.
\<close>

definition slice :: "'a list \<Rightarrow> nat \<Rightarrow> nat \<Rightarrow> ('a list, 'e) result" where
  "slice xs a b = (if a \<le> b \<and> b \<le> length xs then Ok (take (b - a) (drop a xs)) else Panic)"

definition index :: "'a list \<Rightarrow> nat \<Rightarrow> ('a, 'e) result" where
  "index xs i = (if i < length xs then Ok (xs ! i) else Panic)"

definition copy_from_slice :: "'a list \<Rightarrow> 'a list \<Rightarrow> ('a list, 'e) result" where
  "copy_from_slice dst src = (if length dst = length src then Ok src else Panic)"

text \<open>Copying into a sub-range of an array, \<open>dst[a..b].copy_from_slice(src)\<close>.\<close>

definition copy_into :: "'a list \<Rightarrow> nat \<Rightarrow> nat \<Rightarrow> 'a list \<Rightarrow> ('a list, 'e) result" where
  "copy_into dst a b src =
     (if a \<le> b \<and> b \<le> length dst \<and> length src = b - a
      then Ok (take a dst @ src @ drop b dst) else Panic)"


lemma take_append_prefix: "\<exists>k. xs = take k ys \<Longrightarrow> \<exists>k. xs = take k (ys @ zs)"
  by (metis append_take_drop_id append_assoc append_eq_conv_conj)

lemma append_suffix_eq: "xs @ us = ys @ vs \<Longrightarrow> length us = length vs \<Longrightarrow> us = vs"
  by simp

lemma append_prefix_eq: "xs @ us = ys @ vs \<Longrightarrow> length xs = length ys \<Longrightarrow> xs = ys \<and> us = vs"
  by simp


lemma map_of_filter_value:
  "distinct (map fst xs) \<Longrightarrow> map_of (filter (\<lambda>(_, v). P v) xs) k =
    (case map_of xs k of Some v \<Rightarrow> if P v then Some v else None | None \<Rightarrow> None)"
proof (induction xs)
  case (Cons x xs)
  then show ?case
    by (cases x) (auto split: option.splits simp: map_of_eq_None_iff dest: map_of_SomeD)
qed simp


section \<open>Big-endian integers\<close>

text \<open>
  \<open>to_be_bytes\<close> and \<open>from_be_bytes\<close>, over the value of the integer: the \<open>n\<close> low bytes of
  \<open>x\<close>, most significant first, and the value such bytes denote.
\<close>

fun be_bytes :: "nat \<Rightarrow> nat \<Rightarrow> bytes" where
  "be_bytes 0 x = []"
| "be_bytes (Suc n) x = be_bytes n (x div 256) @ [word_of_nat x]"

lemma be_bytes_numeral:
  "be_bytes (numeral k) x = be_bytes (pred_numeral k) (x div 256) @ [word_of_nat x]"
  by (simp only: numeral_eq_Suc [of k] be_bytes.simps)

definition be_value :: "bytes \<Rightarrow> nat" where
  "be_value bs = foldl (\<lambda>acc b. acc * 256 + unat b) 0 bs"

lemma be_value_Nil [simp]: "be_value [] = 0"
  by (simp add: be_value_def)

lemma be_value_snoc [simp]: "be_value (bs @ [b]) = be_value bs * 256 + unat b"
  by (simp add: be_value_def)

lemma length_be_bytes [simp]: "length (be_bytes n x) = n"
  by (induction n arbitrary: x) auto

lemma unat_byte [simp]: "unat (word_of_nat x :: u8) = x mod 256"
  by (simp add: unsigned_of_nat take_bit_eq_mod)

lemma be_value_be_bytes: "be_value (be_bytes n x) = x mod 256 ^ n"
proof (induction n arbitrary: x)
  case 0
  then show ?case by simp
next
  case (Suc n)
  have "x mod (256 * 256 ^ n) = 256 * (x div 256 mod 256 ^ n) + x mod 256"
    by (rule mod_mult2_eq)
  with Suc show ?case by simp
qed

lemma be_value_bound: "be_value bs < 256 ^ length bs"
proof (induction bs rule: rev_induct)
  case Nil
  then show ?case by simp
next
  case (snoc b bs)
  have "unat b < 256"
    using unat_bound [of b] by simp
  with snoc have "be_value bs * 256 + unat b < (be_value bs + 1) * 256"
    by simp
  also have "\<dots> \<le> 256 ^ length bs * 256"
    using snoc by (intro mult_right_mono) auto
  finally show ?case by simp
qed

lemma be_bytes_be_value: "be_bytes (length bs) (be_value bs) = bs"
proof (induction bs rule: rev_induct)
  case Nil
  then show ?case by simp
next
  case (snoc b bs)
  have "unat b < 256"
    using unat_bound [of b] by simp
  then have "unat (word_of_nat (be_value bs * 256 + unat b) :: u8) = unat b"
    by (simp only: unat_byte) simp
  then have "(word_of_nat (be_value bs * 256 + unat b) :: u8) = b"
    by (simp only: word_unat_eq_iff)
  with \<open>unat b < 256\<close> show ?case
    using snoc by simp
qed

text \<open>The widths the wire format uses.\<close>

definition u16_to_be_bytes :: "u16 \<Rightarrow> bytes" where
  "u16_to_be_bytes v = be_bytes 2 (unat v)"

definition u32_to_be_bytes :: "u32 \<Rightarrow> bytes" where
  "u32_to_be_bytes v = be_bytes 4 (unat v)"

definition u64_to_be_bytes :: "u64 \<Rightarrow> bytes" where
  "u64_to_be_bytes v = be_bytes 8 (unat v)"

definition u16_from_be_bytes :: "bytes \<Rightarrow> u16" where
  "u16_from_be_bytes bs = word_of_nat (be_value bs)"

definition u32_from_be_bytes :: "bytes \<Rightarrow> u32" where
  "u32_from_be_bytes bs = word_of_nat (be_value bs)"

definition u64_from_be_bytes :: "bytes \<Rightarrow> u64" where
  "u64_from_be_bytes bs = word_of_nat (be_value bs)"

lemma length_to_be_bytes [simp]:
  "length (u16_to_be_bytes a) = 2" "length (u32_to_be_bytes b) = 4" "length (u64_to_be_bytes c) = 8"
  by (simp_all add: u16_to_be_bytes_def u32_to_be_bytes_def u64_to_be_bytes_def)

lemma u16_from_to_be [simp]: "u16_from_be_bytes (u16_to_be_bytes v) = v"
  using unat_bound [of v]
  by (simp add: u16_from_be_bytes_def u16_to_be_bytes_def be_value_be_bytes)

lemma u32_from_to_be [simp]: "u32_from_be_bytes (u32_to_be_bytes v) = v"
  using unat_bound [of v]
  by (simp add: u32_from_be_bytes_def u32_to_be_bytes_def be_value_be_bytes)

lemma u64_from_to_be [simp]: "u64_from_be_bytes (u64_to_be_bytes v) = v"
  using unat_bound [of v]
  by (simp add: u64_from_be_bytes_def u64_to_be_bytes_def be_value_be_bytes)

lemma u16_to_from_be: "length bs = 2 \<Longrightarrow> u16_to_be_bytes (u16_from_be_bytes bs) = bs"
  using be_value_bound [of bs] be_bytes_be_value [of bs]
  by (simp add: u16_from_be_bytes_def u16_to_be_bytes_def unsigned_of_nat take_bit_eq_mod)

lemma u32_to_from_be: "length bs = 4 \<Longrightarrow> u32_to_be_bytes (u32_from_be_bytes bs) = bs"
  using be_value_bound [of bs] be_bytes_be_value [of bs]
  by (simp add: u32_from_be_bytes_def u32_to_be_bytes_def unsigned_of_nat take_bit_eq_mod)

lemma u64_to_from_be: "length bs = 8 \<Longrightarrow> u64_to_be_bytes (u64_from_be_bytes bs) = bs"
  using be_value_bound [of bs] be_bytes_be_value [of bs]
  by (simp add: u64_from_be_bytes_def u64_to_be_bytes_def unsigned_of_nat take_bit_eq_mod)

lemma u64_to_be_bytes_inject [simp]: "u64_to_be_bytes a = u64_to_be_bytes b \<longleftrightarrow> a = b"
  by (metis u64_from_to_be)

text \<open>The ASCII byte string literals \<open>b"..."\<close> of the sources.\<close>

definition ascii :: "string \<Rightarrow> bytes" where
  "ascii s = map (\<lambda>c. word_of_nat (of_char c)) s"

lemma length_ascii [simp]: "length (ascii s) = length s"
  by (simp add: ascii_def)


section \<open>Simulations\<close>

text \<open>
  A relation between the states of two systems that the steps of the first keep, the second
  taking any number of its own. Then every run of the first is matched by one of the second, and
  what holds of all states that the second reaches carries over along the relation.
\<close>

locale forward_simulation =
  fixes cstep :: "'s \<Rightarrow> 's \<Rightarrow> bool" and astep :: "'a \<Rightarrow> 'a \<Rightarrow> bool" and R :: "'s \<Rightarrow> 'a \<Rightarrow> bool"
  assumes simulated: "R s a \<Longrightarrow> cstep s t \<Longrightarrow> \<exists>b. astep\<^sup>*\<^sup>* a b \<and> R t b"
begin

lemma run_simulated:
  assumes "cstep\<^sup>*\<^sup>* s t" "R s a"
  shows "\<exists>b. astep\<^sup>*\<^sup>* a b \<and> R t b"
  using assms(1)
proof (induction rule: rtranclp_induct)
  case base
  then show ?case using assms(2) by blast
next
  case (step t u)
  then obtain b c where "astep\<^sup>*\<^sup>* a b" "astep\<^sup>*\<^sup>* b c" "R u c" using simulated by blast
  then show ?case by (meson rtranclp_trans)
qed

end

end
