(* ===== verification/Codec.thy ===== *)
theory Codec
  imports Ort_Prelude
begin

text \<open>
  The binary codec primitives of \<open>ort-proto/src/codec.rs\<close>: the append-only \<open>Writer\<close> and the
  bounds-checked \<open>Reader\<close>, with every slice and index operation that could panic kept as a
  panic of the model. The locale \<open>field_codec\<close> states what a pair of write and read methods
  promises its callers; it is interpreted here on every pair of methods of the two types.
\<close>

section \<open>Errors of the wire format\<close>

datatype proto_error =
    Truncated
  | TrailingBytes nat
  | UnknownFrameType u8
  | FrameTooLarge nat


section \<open>Writer\<close>

record writer =
  wbuf :: bytes

definition w_new :: writer where
  "w_new = \<lparr>wbuf = []\<rparr>"

text \<open>The capacity is a hint to the allocator; the writer starts empty.\<close>

definition w_with_capacity :: "nat \<Rightarrow> writer" where
  "w_with_capacity cap = \<lparr>wbuf = []\<rparr>"

definition into_bytes :: "writer \<Rightarrow> bytes" where
  "into_bytes w = wbuf w"

definition w_u8 :: "u8 \<Rightarrow> writer \<Rightarrow> writer" where
  "w_u8 v w = w\<lparr>wbuf := wbuf w @ [v]\<rparr>"

definition w_u16 :: "u16 \<Rightarrow> writer \<Rightarrow> writer" where
  "w_u16 v w = w\<lparr>wbuf := wbuf w @ u16_to_be_bytes v\<rparr>"

definition w_u32 :: "u32 \<Rightarrow> writer \<Rightarrow> writer" where
  "w_u32 v w = w\<lparr>wbuf := wbuf w @ u32_to_be_bytes v\<rparr>"

definition w_u64 :: "u64 \<Rightarrow> writer \<Rightarrow> writer" where
  "w_u64 v w = w\<lparr>wbuf := wbuf w @ u64_to_be_bytes v\<rparr>"

definition w_raw :: "bytes \<Rightarrow> writer \<Rightarrow> writer" where
  "w_raw b w = w\<lparr>wbuf := wbuf w @ b\<rparr>"

text \<open>
  \<open>b.len() as u16\<close> keeps the low 16 bits; the \<open>debug_assert!\<close> is not part of a release
  build.
\<close>

definition w_bytes16 :: "bytes \<Rightarrow> writer \<Rightarrow> writer" where
  "w_bytes16 b w = (let w = w_u16 (word_of_nat (length b)) w in w\<lparr>wbuf := wbuf w @ b\<rparr>)"

definition w_bytes32 :: "bytes \<Rightarrow> writer \<Rightarrow> writer" where
  "w_bytes32 b w = (let w = w_u32 (word_of_nat (length b)) w in w\<lparr>wbuf := wbuf w @ b\<rparr>)"


section \<open>Reader\<close>

record reader =
  rbuf :: bytes
  rpos :: nat

definition r_new :: "bytes \<Rightarrow> reader" where
  "r_new buf = \<lparr>rbuf = buf, rpos = 0\<rparr>"

definition remaining :: "reader \<Rightarrow> nat" where
  "remaining r = usize_sub (length (rbuf r)) (rpos r)"

definition r_take :: "nat \<Rightarrow> (bytes, proto_error, reader) sm" where
  "r_take n r =
     (if remaining r < n then (Err Truncated, r)
      else (case slice (rbuf r) (rpos r) (usize_add (rpos r) n) of
              Ok s \<Rightarrow> (Ok s, r\<lparr>rpos := usize_add (rpos r) n\<rparr>)
            | Err e \<Rightarrow> (Err e, r)
            | Panic \<Rightarrow> (Panic, r)))"

definition r_u8 :: "(u8, proto_error, reader) sm" where
  "r_u8 = sbind (r_take 1) (\<lambda>b. slift (index b 0))"

definition r_u16 :: "(u16, proto_error, reader) sm" where
  "r_u16 = sbind (r_take 2) (\<lambda>b.
     slift (bind_result (index b 0) (\<lambda>b0. bind_result (index b 1) (\<lambda>b1.
       Ok (u16_from_be_bytes [b0, b1])))))"

definition r_u32 :: "(u32, proto_error, reader) sm" where
  "r_u32 = sbind (r_take 4) (\<lambda>b.
     slift (bind_result (index b 0) (\<lambda>b0. bind_result (index b 1) (\<lambda>b1.
       bind_result (index b 2) (\<lambda>b2. bind_result (index b 3) (\<lambda>b3.
         Ok (u32_from_be_bytes [b0, b1, b2, b3])))))))"

definition r_u64 :: "(u64, proto_error, reader) sm" where
  "r_u64 = sbind (r_take 8) (\<lambda>b.
     sbind (slift (copy_from_slice (replicate 8 0) b)) (\<lambda>a. sreturn (u64_from_be_bytes a)))"

definition r_raw :: "nat \<Rightarrow> (bytes, proto_error, reader) sm" where
  "r_raw n = r_take n"

definition r_array :: "nat \<Rightarrow> (bytes, proto_error, reader) sm" where
  "r_array n = sbind (r_take n) (\<lambda>s. slift (copy_from_slice (replicate n 0) s))"

definition r_bytes16 :: "(bytes, proto_error, reader) sm" where
  "r_bytes16 = sbind r_u16 (\<lambda>n. r_take (unat n))"

definition r_bytes32 :: "(bytes, proto_error, reader) sm" where
  "r_bytes32 = sbind r_u32 (\<lambda>n. r_take (unat n))"

definition expect_end :: "(unit, proto_error, reader) sm" where
  "expect_end r =
     (if remaining r = 0 then (Ok (), r) else (Err (TrailingBytes (remaining r)), r))"


section \<open>The reader invariant\<close>

text \<open>
  The cursor stays inside the buffer, and the buffer is one that Rust can allocate. Under
  this invariant no subtraction, slice or index of the reader can go wrong.
\<close>

definition reader_ok :: "reader \<Rightarrow> bool" where
  "reader_ok r \<longleftrightarrow> rpos r \<le> length (rbuf r) \<and> length (rbuf r) \<le> isize_max"

text \<open>What is still to be read, and the reader after \<open>n\<close> more bytes.\<close>

definition rest :: "reader \<Rightarrow> bytes" where
  "rest r = drop (rpos r) (rbuf r)"

definition advance :: "nat \<Rightarrow> reader \<Rightarrow> reader" where
  "advance n r = r\<lparr>rpos := rpos r + n\<rparr>"

lemma reader_ok_new [simp]: "reader_ok (r_new buf) \<longleftrightarrow> length buf \<le> isize_max"
  by (simp add: reader_ok_def r_new_def)

lemma rest_new [simp]: "rest (r_new buf) = buf"
  by (simp add: rest_def r_new_def)

lemma rbuf_advance [simp]: "rbuf (advance n r) = rbuf r"
  by (simp add: advance_def)

lemma advance_0 [simp]: "advance 0 r = r"
  by (simp add: advance_def)

lemma advance_advance [simp]: "advance m (advance n r) = advance (n + m) r"
  by (simp add: advance_def)

lemma rest_advance [simp]: "rest (advance n r) = drop n (rest r)"
  by (simp add: rest_def advance_def add.commute)

lemma reader_ok_advance [simp]:
  "reader_ok r \<Longrightarrow> n \<le> length (rest r) \<Longrightarrow> reader_ok (advance n r)"
  by (auto simp: reader_ok_def advance_def rest_def)

lemma remaining_rest [simp]: "reader_ok r \<Longrightarrow> remaining r = length (rest r)"
  by (simp add: remaining_def reader_ok_def rest_def)

lemma length_rest_bound: "reader_ok r \<Longrightarrow> length (rest r) \<le> isize_max"
  by (auto simp: reader_ok_def rest_def)

lemma r_take_spec:
  assumes "reader_ok r"
  shows "r_take n r =
    (if n \<le> length (rest r) then (Ok (take n (rest r)), advance n r) else (Err Truncated, r))"
proof (cases "n \<le> length (rest r)")
  case True
  with assms have "rpos r + n \<le> length (rbuf r)" and "rpos r + n \<le> isize_max"
    by (auto simp: reader_ok_def rest_def)
  with True assms show ?thesis
    by (simp add: r_take_def slice_def advance_def rest_def)
next
  case False
  with assms show ?thesis by (simp add: r_take_def)
qed

lemma expect_end_spec:
  "reader_ok r \<Longrightarrow> expect_end r =
    (if rest r = [] then Ok () else Err (TrailingBytes (length (rest r))), r)"
  by (simp add: expect_end_def)


section \<open>What a field codec promises\<close>

text \<open>
  The contract of a read method: at the start of a field's encoding it returns the field and
  moves past exactly that encoding; any read either finds a well-formed field or reports
  \<open>Truncated\<close>.
\<close>

locale field_get =
  fixes get :: "('a, proto_error, reader) sm"
    and enc :: "'a \<Rightarrow> bytes"
    and ok :: "'a \<Rightarrow> bool"
  assumes get_enc: "reader_ok r \<Longrightarrow> ok a \<Longrightarrow> rest r = enc a @ suf \<Longrightarrow>
      get r = (Ok a, advance (length (enc a)) r)"
    and get_total: "reader_ok r \<Longrightarrow>
      (\<exists>a suf. ok a \<and> rest r = enc a @ suf) \<or>
      (\<exists>r'. get r = (Err Truncated, r') \<and> reader_ok r' \<and> rbuf r' = rbuf r)"
begin

lemma get_bind:
  "reader_ok r \<Longrightarrow> ok a \<Longrightarrow> rest r = enc a @ suf \<Longrightarrow>
    sbind get f r = f a (advance (length (enc a)) r)"
  by (rule sbind_step) (rule get_enc)

lemma get_cases:
  assumes "reader_ok r"
  obtains (found) a suf where "ok a" "rest r = enc a @ suf"
      "get r = (Ok a, advance (length (enc a)) r)" "reader_ok (advance (length (enc a)) r)"
  | (truncated) r' where "get r = (Err Truncated, r')" "reader_ok r'" "rbuf r' = rbuf r"
proof -
  from get_total [OF assms] show thesis
  proof (elim disjE exE conjE)
    fix a suf
    assume a: "ok a" "rest r = enc a @ suf"
    then show thesis
      using found get_enc [OF assms a] reader_ok_advance [OF assms, of "length (enc a)"] by simp
  next
    fix r'
    assume "get r = (Err Truncated, r')" "reader_ok r'" "rbuf r' = rbuf r"
    then show thesis by (rule truncated)
  qed
qed

lemma get_OkD:
  assumes "reader_ok r" and "get r = (Ok a, r')"
  shows "ok a \<and> rest r = enc a @ rest r' \<and> r' = advance (length (enc a)) r \<and> reader_ok r'"
  using assms(1) by (cases rule: get_cases) (use assms(2) in auto)

lemma get_ErrD:
  assumes "reader_ok r" and "get r = (Err e, r')"
  shows "e = Truncated \<and> reader_ok r'"
  using assms(1) by (cases rule: get_cases) (use assms(2) in auto)

lemma get_no_panic: "reader_ok r \<Longrightarrow> get r \<noteq> (Panic, r')"
  by (erule get_cases) auto

text \<open>Distinct fields have encodings neither of which is a prefix of the other.\<close>

lemma enc_prefix_free:
  assumes "ok a" "ok b" "enc a @ s = enc b @ t" "length (enc a @ s) \<le> isize_max"
  shows "a = b"
proof -
  let ?r = "r_new (enc a @ s)"
  have "get ?r = (Ok a, advance (length (enc a)) ?r)"
    using assms by (intro get_enc [where suf = s]) auto
  moreover have "get ?r = (Ok b, advance (length (enc b)) ?r)"
    using assms by (intro get_enc [where suf = t]) auto
  ultimately show ?thesis by simp
qed

text \<open>A reader that stands before a proper prefix of an encoding reports \<open>Truncated\<close>.\<close>

lemma get_truncated:
  assumes "reader_ok r" "ok a" "strict_prefix (rest r) (enc a)" "length (enc a) \<le> isize_max"
  shows "\<exists>r'. get r = (Err Truncated, r')"
  using assms(1)
proof (cases rule: get_cases)
  case (found b suf)
  from assms(3) obtain t where t: "enc a = rest r @ t" "t \<noteq> []"
    by (auto simp: strict_prefix_def prefix_def)
  with found have "enc a @ [] = enc b @ suf @ t" by simp
  with found(1) assms have "a = b"
    using enc_prefix_free [of a b "[]" "suf @ t"] by simp
  with t found(2) show ?thesis by simp
next
  case (truncated r')
  then show ?thesis by blast
qed

end


text \<open>A write method that goes with it: writing appends the field's encoding.\<close>

locale field_codec = field_get get enc ok
  for get :: "('a, proto_error, reader) sm" and enc ok +
  fixes put :: "'a \<Rightarrow> writer \<Rightarrow> writer"
  assumes put_enc: "put a w = w\<lparr>wbuf := wbuf w @ enc a\<rparr>"
begin

lemma wbuf_put: "wbuf (put a w) = wbuf w @ enc a"
  by (simp add: put_enc)

end

text \<open>
  Reading one field after another: if the first read method meets its contract, and for every
  first field \<open>x\<close> the rest of the method meets the contract of the records whose first field is
  \<open>x\<close>, then the sequence meets the contract of all records.
\<close>

lemma field_get_return:
  assumes "\<And>c. okc c \<longleftrightarrow> c = c0"
  shows "field_get (sreturn c0) (\<lambda>c. []) okc"
  by unfold_locales (auto simp: assms)

lemma field_get_seq:
  assumes first: "field_get geta enca oka"
    and second: "\<And>x. oka x \<Longrightarrow> field_get (getb x) encb (\<lambda>c. okc c \<and> prj c = x)"
    and oka: "\<And>c. okc c \<Longrightarrow> oka (prj c)"
  shows "field_get (sbind geta getb) (\<lambda>c. enca (prj c) @ encb c) okc"
proof unfold_locales
  fix r c suf
  assume r: "reader_ok r" and c: "okc c" and "rest r = (enca (prj c) @ encb c) @ suf"
  then have rest: "rest r = enca (prj c) @ encb c @ suf" by simp
  with r have "reader_ok (advance (length (enca (prj c))) r)" by simp
  from field_get.get_enc [OF second [OF oka [OF c]] this, of c suf] c rest
  show "sbind geta getb r = (Ok c, advance (length (enca (prj c) @ encb c)) r)"
    by (simp add: field_get.get_bind [OF first r oka [OF c] rest])
next
  fix r :: reader
  assume r: "reader_ok r"
  show "(\<exists>c suf. okc c \<and> rest r = (enca (prj c) @ encb c) @ suf) \<or>
      (\<exists>r'. sbind geta getb r = (Err Truncated, r') \<and> reader_ok r' \<and> rbuf r' = rbuf r)"
  proof (rule field_get.get_cases [OF first r])
    fix x suf
    assume x: "oka x" "rest r = enca x @ suf" "geta r = (Ok x, advance (length (enca x)) r)"
      and r': "reader_ok (advance (length (enca x)) r)"
    from field_get.get_total [OF second [OF x(1)] r'] x(2,3) show ?thesis
      by (auto simp: sbind_def)
  qed (auto simp: sbind_def)
qed


section \<open>Fixed-width and length-prefixed fields\<close>

text \<open>A field of fixed width, whose bytes and values correspond one to one.\<close>

locale fixed_width =
  fixes put :: "'a \<Rightarrow> writer \<Rightarrow> writer"
    and get :: "('a, proto_error, reader) sm"
    and enc :: "'a \<Rightarrow> bytes"
    and ok :: "'a \<Rightarrow> bool"
    and dec :: "bytes \<Rightarrow> 'a"
    and n :: nat
  assumes put_eq: "put a w = w\<lparr>wbuf := wbuf w @ enc a\<rparr>"
    and get_eq: "reader_ok r \<Longrightarrow> get r =
      (if n \<le> length (rest r) then (Ok (dec (take n (rest r))), advance n r)
       else (Err Truncated, r))"
    and dec_enc: "ok a \<Longrightarrow> dec (enc a) = a"
    and length_enc: "ok a \<Longrightarrow> length (enc a) = n"
    and enc_dec: "length bs = n \<Longrightarrow> ok (dec bs) \<and> enc (dec bs) = bs"

sublocale fixed_width \<subseteq> field_codec get enc ok put
proof unfold_locales
  fix r :: reader
  assume ok: "reader_ok r"
  show "(\<exists>a suf. ok a \<and> rest r = enc a @ suf) \<or>
      (\<exists>r'. get r = (Err Truncated, r') \<and> reader_ok r' \<and> rbuf r' = rbuf r)"
  proof (cases "n \<le> length (rest r)")
    case True
    then have "ok (dec (take n (rest r)))" "rest r = enc (dec (take n (rest r))) @ drop n (rest r)"
      by (simp_all add: enc_dec)
    then show ?thesis by blast
  next
    case False
    with ok show ?thesis by (simp add: get_eq)
  qed
qed (simp_all add: put_eq get_eq length_enc dec_enc)

text \<open>A byte string behind a length written by another codec.\<close>

locale length_prefixed = len: field_codec getn encn "\<lambda>_. True" putn
  for getn :: "('w::len word, proto_error, reader) sm" and encn putn +
  fixes putb :: "bytes \<Rightarrow> writer \<Rightarrow> writer"
    and getb :: "(bytes, proto_error, reader) sm"
  assumes putb_eq:
      "putb b w = (let w = putn (word_of_nat (length b)) w in w\<lparr>wbuf := wbuf w @ b\<rparr>)"
    and getb_eq: "getb = sbind getn (\<lambda>n. r_take (unat n))"

sublocale length_prefixed \<subseteq>
  field_codec getb "\<lambda>b. encn (word_of_nat (length b)) @ b" "\<lambda>b. length b < 2 ^ LENGTH('w)" putb
proof unfold_locales
  fix a w
  show "putb a w = w\<lparr>wbuf := wbuf w @ encn (word_of_nat (length a)) @ a\<rparr>"
    by (simp add: putb_eq len.put_enc)
next
  fix r :: reader and a suf
  assume ok: "reader_ok r" and len: "length a < 2 ^ LENGTH('w)"
    and "rest r = (encn (word_of_nat (length a)) @ a) @ suf"
  then have rest: "rest r = encn (word_of_nat (length a)) @ a @ suf" by simp
  with ok have "reader_ok (advance (length (encn (word_of_nat (length a)))) r)" by simp
  with ok len rest show
    "getb r = (Ok a, advance (length (encn (word_of_nat (length a)) @ a)) r)"
    by (simp add: getb_eq len.get_bind [OF ok _ rest] r_take_spec unsigned_of_nat take_bit_eq_mod)
next
  fix r :: reader
  assume ok: "reader_ok r"
  then show "(\<exists>a suf. length a < 2 ^ LENGTH('w) \<and> rest r = (encn (word_of_nat (length a)) @ a) @ suf) \<or>
      (\<exists>r'. getb r = (Err Truncated, r') \<and> reader_ok r' \<and> rbuf r' = rbuf r)"
  proof (cases rule: len.get_cases)
    case (found n suf)
    show ?thesis
    proof (cases "unat n \<le> length suf")
      case True
      then have "length (take (unat n) suf) = unat n" by simp
      then have "length (take (unat n) suf) < 2 ^ LENGTH('w) \<and>
          rest r = (encn (word_of_nat (length (take (unat n) suf))) @ take (unat n) suf) @ drop (unat n) suf"
        using found(2) unat_bound [of n] by simp
      then show ?thesis by blast
    next
      case False
      with found show ?thesis by (simp add: getb_eq sbind_def r_take_spec)
    qed
  next
    case (truncated r')
    then show ?thesis by (auto simp: getb_eq sbind_def)
  qed
qed


section \<open>The codecs of the two types\<close>

lemma list_of_length:
  "length b = 2 \<Longrightarrow> b = [b ! 0, b ! 1]"
  "length b = 4 \<Longrightarrow> b = [b ! 0, b ! 1, b ! 2, b ! 3]"
  by (auto simp: numeral_eq_Suc length_Suc_conv)

interpretation u8: fixed_width w_u8 r_u8 "\<lambda>v. [v]" "\<lambda>_. True" hd 1
  by unfold_locales
    (auto simp: w_u8_def r_u8_def sbind_def r_take_spec index_def hd_conv_nth length_Suc_conv)

interpretation u16: fixed_width w_u16 r_u16 u16_to_be_bytes "\<lambda>_. True" u16_from_be_bytes 2
proof unfold_locales
  fix r :: reader
  assume "reader_ok r"
  then show "r_u16 r =
      (if 2 \<le> length (rest r) then (Ok (u16_from_be_bytes (take 2 (rest r))), advance 2 r)
       else (Err Truncated, r))"
    using list_of_length(1) [of "take 2 (rest r)"]
    by (simp add: r_u16_def sbind_def r_take_spec index_def)
qed (simp_all add: w_u16_def u16_to_from_be)

interpretation u32: fixed_width w_u32 r_u32 u32_to_be_bytes "\<lambda>_. True" u32_from_be_bytes 4
proof unfold_locales
  fix r :: reader
  assume "reader_ok r"
  then show "r_u32 r =
      (if 4 \<le> length (rest r) then (Ok (u32_from_be_bytes (take 4 (rest r))), advance 4 r)
       else (Err Truncated, r))"
    using list_of_length(2) [of "take 4 (rest r)"]
    by (simp add: r_u32_def sbind_def r_take_spec index_def)
qed (simp_all add: w_u32_def u32_to_from_be)

interpretation u64: fixed_width w_u64 r_u64 u64_to_be_bytes "\<lambda>_. True" u64_from_be_bytes 8
  by unfold_locales
    (simp_all add: w_u64_def r_u64_def sbind_def r_take_spec copy_from_slice_def u64_to_from_be)

interpretation arr: fixed_width w_raw "r_array n" "\<lambda>b. b" "\<lambda>b. length b = n" "\<lambda>b. b" n for n
  by unfold_locales (simp_all add: w_raw_def r_array_def sbind_def r_take_spec copy_from_slice_def)

interpretation b16: length_prefixed r_u16 u16_to_be_bytes w_u16 w_bytes16 r_bytes16
  by unfold_locales (simp_all add: w_bytes16_def r_bytes16_def)

interpretation b32: length_prefixed r_u32 u32_to_be_bytes w_u32 w_bytes32 r_bytes32
  by unfold_locales (simp_all add: w_bytes32_def r_bytes32_def)

end
