(* ===== verification/Messages.thy ===== *)
theory Messages
  imports Codec
begin

text \<open>
  The frames of \<open>ort-proto/src/messages.rs\<close> with their binary encoding, and the outer
  length-prefix framing of \<open>ort-proto/src/frame.rs\<close>.
\<close>

section \<open>Frame types\<close>

datatype frame_type =
    FT_ClientHelloOneRtt
  | FT_ClientHelloZeroRtt
  | FT_ClientData
  | FT_ServerHello
  | FT_ServerAck
  | FT_DataRecord
  | FT_Close

text \<open>The discriminants, as the cast \<open>FrameType::X as u8\<close> gives them.\<close>

fun frame_type_code :: "frame_type \<Rightarrow> u8" where
  "frame_type_code FT_ClientHelloOneRtt = 0x01"
| "frame_type_code FT_ClientHelloZeroRtt = 0x02"
| "frame_type_code FT_ClientData = 0x03"
| "frame_type_code FT_ServerHello = 0x04"
| "frame_type_code FT_ServerAck = 0x05"
| "frame_type_code FT_DataRecord = 0x06"
| "frame_type_code FT_Close = 0x07"

definition from_u8 :: "u8 \<Rightarrow> (frame_type, proto_error) result" where
  "from_u8 v =
     (if v = 0x01 then Ok FT_ClientHelloOneRtt
      else if v = 0x02 then Ok FT_ClientHelloZeroRtt
      else if v = 0x03 then Ok FT_ClientData
      else if v = 0x04 then Ok FT_ServerHello
      else if v = 0x05 then Ok FT_ServerAck
      else if v = 0x06 then Ok FT_DataRecord
      else if v = 0x07 then Ok FT_Close
      else Err (UnknownFrameType v))"

lemma from_u8_code [simp]: "from_u8 (frame_type_code t) = Ok t"
  by (cases t) (simp_all add: from_u8_def)

lemma from_u8_Ok: "from_u8 v = Ok t \<Longrightarrow> frame_type_code t = v"
  by (auto simp: from_u8_def split: if_splits)

lemma from_u8_no_panic [simp]: "from_u8 v \<noteq> Panic"
  by (simp add: from_u8_def)

lemma from_u8_Err: "from_u8 v = Err e \<Longrightarrow> e = UnknownFrameType v"
  by (auto simp: from_u8_def split: if_splits)

lemma from_u8_unknown: "from_u8 v = Err (UnknownFrameType v) \<longleftrightarrow> v \<notin> range frame_type_code"
proof
  assume "v \<notin> range frame_type_code"
  then have "from_u8 v \<noteq> Ok t" for t
    using from_u8_Ok by blast
  then show "from_u8 v = Err (UnknownFrameType v)"
    by (cases "from_u8 v") (auto dest: from_u8_Err)
qed auto


section \<open>The KEM payload\<close>

record kem_payload =
  kp_ciphertext :: bytes
  kp_src_ip :: bytes
  kp_ts_millis :: u64
  kp_nonce :: bytes
  kp_client_sig :: bytes
  kp_enc_data :: bytes

definition kp_write :: "kem_payload \<Rightarrow> writer \<Rightarrow> writer" where
  "kp_write p w =
     w_bytes32 (kp_enc_data p)
      (w_bytes16 (kp_client_sig p)
       (w_raw (kp_nonce p)
        (w_u64 (kp_ts_millis p)
         (w_raw (kp_src_ip p)
          (w_bytes16 (kp_ciphertext p) w)))))"

definition kp_read :: "(kem_payload, proto_error, reader) sm" where
  "kp_read =
     sbind r_bytes16 (\<lambda>ciphertext.
     sbind (r_array 16) (\<lambda>src_ip.
     sbind r_u64 (\<lambda>ts_millis.
     sbind (r_array 32) (\<lambda>nonce.
     sbind r_bytes16 (\<lambda>client_sig.
     sbind r_bytes32 (\<lambda>enc_data.
     sreturn \<lparr>kp_ciphertext = ciphertext, kp_src_ip = src_ip, kp_ts_millis = ts_millis,
              kp_nonce = nonce, kp_client_sig = client_sig, kp_enc_data = enc_data\<rparr>))))))"

text \<open>
  A payload that its field types allow and whose variable parts fit their length prefixes.
\<close>

definition kp_ok :: "kem_payload \<Rightarrow> bool" where
  "kp_ok p \<longleftrightarrow> length (kp_ciphertext p) < 2 ^ 16 \<and> length (kp_src_ip p) = 16 \<and>
     length (kp_nonce p) = 32 \<and> length (kp_client_sig p) < 2 ^ 16 \<and> length (kp_enc_data p) < 2 ^ 32"

abbreviation enc16 :: "bytes \<Rightarrow> bytes" where
  "enc16 b \<equiv> u16_to_be_bytes (word_of_nat (length b)) @ b"

abbreviation enc32 :: "bytes \<Rightarrow> bytes" where
  "enc32 b \<equiv> u32_to_be_bytes (word_of_nat (length b)) @ b"

definition kp_enc :: "kem_payload \<Rightarrow> bytes" where
  "kp_enc p = enc16 (kp_ciphertext p) @ kp_src_ip p @ u64_to_be_bytes (kp_ts_millis p) @
     kp_nonce p @ enc16 (kp_client_sig p) @ enc32 (kp_enc_data p)"

lemmas get_seqs = field_get_seq [OF u8.field_get_axioms] field_get_seq [OF u16.field_get_axioms]
  field_get_seq [OF u64.field_get_axioms] field_get_seq [OF arr.field_get_axioms]
  field_get_seq [OF b16.field_get_axioms] field_get_seq [OF b32.field_get_axioms]

lemmas put_encs = u8.put_enc u16.put_enc u64.put_enc arr.put_enc b16.put_enc b32.put_enc

interpretation kp: field_codec kp_read kp_enc kp_ok kp_write
proof (unfold field_codec_def field_codec_axioms_def, intro conjI allI)
  have "field_get kp_read
     (\<lambda>p. enc16 (kp_ciphertext p) @ kp_src_ip p @ u64_to_be_bytes (kp_ts_millis p) @
       kp_nonce p @ enc16 (kp_client_sig p) @ enc32 (kp_enc_data p) @ []) kp_ok"
    unfolding kp_read_def
    by (rule get_seqs field_get_return | force simp: kp_ok_def)+
  then show "field_get kp_read kp_enc kp_ok"
    by (simp add: kp_enc_def [abs_def])
next
  fix a w
  show "kp_write a w = w\<lparr>wbuf := wbuf w @ kp_enc a\<rparr>"
    by (simp add: kp_write_def kp_enc_def put_encs)
qed


section \<open>Frames\<close>

datatype frame =
    ClientHelloOneRtt (f_suite_id: u16) (f_client_pk: bytes)
  | ClientHelloZeroRtt (f_suite_id: u16) (f_client_pk: bytes) (f_payload: kem_payload)
  | ClientData (f_client_pk: bytes) (f_payload: kem_payload)
  | ServerHello (f_suite_id: u16) (f_server_pk: bytes) (f_certificate: bytes) (f_server_ts: u64)
  | ServerAck (f_ek_hash: bytes)
  | DataRecord (f_dir: u8) (f_ciphertext: bytes)
  | Close

fun encode_into :: "frame \<Rightarrow> writer \<Rightarrow> writer" where
  "encode_into (ClientHelloOneRtt suite_id client_pk) w =
     w_bytes16 client_pk (w_u16 suite_id (w_u8 (frame_type_code FT_ClientHelloOneRtt) w))"
| "encode_into (ClientHelloZeroRtt suite_id client_pk payload) w =
     kp_write payload
       (w_bytes16 client_pk (w_u16 suite_id (w_u8 (frame_type_code FT_ClientHelloZeroRtt) w)))"
| "encode_into (ClientData client_pk payload) w =
     kp_write payload (w_bytes16 client_pk (w_u8 (frame_type_code FT_ClientData) w))"
| "encode_into (ServerHello suite_id server_pk certificate server_ts) w =
     w_u64 server_ts (w_bytes32 certificate (w_bytes16 server_pk (w_u16 suite_id
       (w_u8 (frame_type_code FT_ServerHello) w))))"
| "encode_into (ServerAck ek_hash) w =
     w_bytes16 ek_hash (w_u8 (frame_type_code FT_ServerAck) w)"
| "encode_into (DataRecord dir ciphertext) w =
     w_bytes32 ciphertext (w_u8 dir (w_u8 (frame_type_code FT_DataRecord) w))"
| "encode_into Close w = w_u8 (frame_type_code FT_Close) w"

definition encode :: "frame \<Rightarrow> bytes" where
  "encode f = into_bytes (encode_into f (w_with_capacity 64))"

fun decode_fields :: "frame_type \<Rightarrow> (frame, proto_error, reader) sm" where
  "decode_fields FT_ClientHelloOneRtt =
     sbind r_u16 (\<lambda>suite_id. sbind r_bytes16 (\<lambda>client_pk.
       sreturn (ClientHelloOneRtt suite_id client_pk)))"
| "decode_fields FT_ClientHelloZeroRtt =
     sbind r_u16 (\<lambda>suite_id. sbind r_bytes16 (\<lambda>client_pk. sbind kp_read (\<lambda>payload.
       sreturn (ClientHelloZeroRtt suite_id client_pk payload))))"
| "decode_fields FT_ClientData =
     sbind r_bytes16 (\<lambda>client_pk. sbind kp_read (\<lambda>payload.
       sreturn (ClientData client_pk payload)))"
| "decode_fields FT_ServerHello =
     sbind r_u16 (\<lambda>suite_id. sbind r_bytes16 (\<lambda>server_pk. sbind r_bytes32 (\<lambda>certificate.
       sbind r_u64 (\<lambda>server_ts.
         sreturn (ServerHello suite_id server_pk certificate server_ts)))))"
| "decode_fields FT_ServerAck = sbind r_bytes16 (\<lambda>ek_hash. sreturn (ServerAck ek_hash))"
| "decode_fields FT_DataRecord =
     sbind r_u8 (\<lambda>dir. sbind r_bytes32 (\<lambda>ciphertext. sreturn (DataRecord dir ciphertext)))"
| "decode_fields FT_Close = sreturn Close"

definition decode :: "bytes \<Rightarrow> (frame, proto_error) result" where
  "decode buf = fst
     (sbind r_u8 (\<lambda>v. sbind (slift (from_u8 v)) (\<lambda>ty.
      sbind (decode_fields ty) (\<lambda>frame. sbind expect_end (\<lambda>_. sreturn frame))))
      (r_new buf))"


section \<open>Outer framing\<close>

definition MAX_FRAME :: nat where
  "MAX_FRAME = 2 ^ 20"

definition encode_framed :: "bytes \<Rightarrow> bytes" where
  "encode_framed body = u32_to_be_bytes (word_of_nat (length body)) @ body"

definition parse_len :: "bytes \<Rightarrow> (nat, proto_error) result" where
  "parse_len pre =
     (let n = unat (u32_from_be_bytes pre)
      in if n > MAX_FRAME then Err (FrameTooLarge n) else Ok n)"


section \<open>Correctness of the frame codec\<close>

text \<open>
  The frames the type system and the length prefixes admit, and the bytes that follow the
  type tag.
\<close>

fun frame_type_of :: "frame \<Rightarrow> frame_type" where
  "frame_type_of (ClientHelloOneRtt _ _) = FT_ClientHelloOneRtt"
| "frame_type_of (ClientHelloZeroRtt _ _ _) = FT_ClientHelloZeroRtt"
| "frame_type_of (ClientData _ _) = FT_ClientData"
| "frame_type_of (ServerHello _ _ _ _) = FT_ServerHello"
| "frame_type_of (ServerAck _) = FT_ServerAck"
| "frame_type_of (DataRecord _ _) = FT_DataRecord"
| "frame_type_of Close = FT_Close"

fun frame_ok :: "frame \<Rightarrow> bool" where
  "frame_ok (ClientHelloOneRtt _ client_pk) \<longleftrightarrow> length client_pk < 2 ^ 16"
| "frame_ok (ClientHelloZeroRtt _ client_pk payload) \<longleftrightarrow> length client_pk < 2 ^ 16 \<and> kp_ok payload"
| "frame_ok (ClientData client_pk payload) \<longleftrightarrow> length client_pk < 2 ^ 16 \<and> kp_ok payload"
| "frame_ok (ServerHello _ server_pk certificate _) \<longleftrightarrow>
     length server_pk < 2 ^ 16 \<and> length certificate < 2 ^ 32"
| "frame_ok (ServerAck ek_hash) \<longleftrightarrow> length ek_hash < 2 ^ 16"
| "frame_ok (DataRecord _ ciphertext) \<longleftrightarrow> length ciphertext < 2 ^ 32"
| "frame_ok Close \<longleftrightarrow> True"

fun fields_enc :: "frame \<Rightarrow> bytes" where
  "fields_enc (ClientHelloOneRtt suite_id client_pk) = u16_to_be_bytes suite_id @ enc16 client_pk"
| "fields_enc (ClientHelloZeroRtt suite_id client_pk payload) =
     u16_to_be_bytes suite_id @ enc16 client_pk @ kp_enc payload"
| "fields_enc (ClientData client_pk payload) = enc16 client_pk @ kp_enc payload"
| "fields_enc (ServerHello suite_id server_pk certificate server_ts) =
     u16_to_be_bytes suite_id @ enc16 server_pk @ enc32 certificate @ u64_to_be_bytes server_ts"
| "fields_enc (ServerAck ek_hash) = enc16 ek_hash"
| "fields_enc (DataRecord dir ciphertext) = [dir] @ enc32 ciphertext"
| "fields_enc Close = []"

lemma encode_eq: "encode f = frame_type_code (frame_type_of f) # fields_enc f"
  by (cases f) (simp_all add: encode_def into_bytes_def w_with_capacity_def put_encs kp.put_enc)

lemma field_get_cong:
  "field_get get enc ok \<Longrightarrow> (\<And>a. ok a \<Longrightarrow> enc' a = enc a) \<Longrightarrow> (\<And>a. ok' a \<longleftrightarrow> ok a) \<Longrightarrow>
    field_get get enc' ok'"
  unfolding field_get_def by (metis (full_types))

lemmas frame_seqs = get_seqs field_get_seq [OF kp.field_get_axioms] field_get_return

text \<open>For each type tag, the field decoder is the codec of the frames with that tag.\<close>

fun fields_by :: "frame_type \<Rightarrow> frame \<Rightarrow> bytes" where
  "fields_by FT_ClientHelloOneRtt = (\<lambda>f. u16_to_be_bytes (f_suite_id f) @ enc16 (f_client_pk f) @ [])"
| "fields_by FT_ClientHelloZeroRtt =
     (\<lambda>f. u16_to_be_bytes (f_suite_id f) @ enc16 (f_client_pk f) @ kp_enc (f_payload f) @ [])"
| "fields_by FT_ClientData = (\<lambda>f. enc16 (f_client_pk f) @ kp_enc (f_payload f) @ [])"
| "fields_by FT_ServerHello =
     (\<lambda>f. u16_to_be_bytes (f_suite_id f) @ enc16 (f_server_pk f) @ enc32 (f_certificate f) @
       u64_to_be_bytes (f_server_ts f) @ [])"
| "fields_by FT_ServerAck = (\<lambda>f. enc16 (f_ek_hash f) @ [])"
| "fields_by FT_DataRecord = (\<lambda>f. [f_dir f] @ enc32 (f_ciphertext f) @ [])"
| "fields_by FT_Close = (\<lambda>f. [])"

lemma fields_by_type: "fields_by (frame_type_of f) f = fields_enc f"
  by (cases f) simp_all

lemma decode_fields_by:
  "field_get (decode_fields ty) (fields_by ty) (\<lambda>f. frame_ok f \<and> frame_type_of f = ty)"
  by (cases ty; simp only: decode_fields.simps fields_by.simps;
      (rule frame_seqs | (fastforce elim: frame_type_of.elims))+)

lemma decode_fields_contract:
  "field_get (decode_fields ty) fields_enc (\<lambda>f. frame_ok f \<and> frame_type_of f = ty)"
  by (rule field_get_cong [OF decode_fields_by]) (use fields_by_type in auto)

interpretation fields: field_get "decode_fields ty" fields_enc
    "\<lambda>f. frame_ok f \<and> frame_type_of f = ty" for ty
  by (rule decode_fields_contract)

text \<open>The decoder on an encoding followed by anything.\<close>

lemma decode_encode_append:
  assumes "frame_ok f" and "length (encode f @ t) \<le> isize_max"
  shows "decode (encode f @ t) = (if t = [] then Ok f else Err (TrailingBytes (length t)))"
proof -
  let ?r = "r_new (encode f @ t)"
  have r: "reader_ok ?r" using assms(2) by simp
  have rest: "rest ?r = [frame_type_code (frame_type_of f)] @ fields_enc f @ t"
    by (simp add: encode_eq)
  then have rest1: "rest (advance (Suc 0) ?r) = fields_enc f @ t"
    and r1: "reader_ok (advance (Suc 0) ?r)"
    using r by (simp_all add: encode_eq)
  have r2: "reader_ok (advance (1 + length (fields_enc f)) ?r)"
    using r assms(2) by (simp add: encode_eq)
  have "decode (encode f @ t) =
      fst (sbind expect_end (\<lambda>_. sreturn f) (advance (1 + length (fields_enc f)) ?r))"
    using assms(1) by (simp add: decode_def u8.get_bind [OF r _ rest] fields.get_bind [OF r1 _ rest1])
  with r2 rest show ?thesis
    by (simp add: sbind_def expect_end_spec)
qed

text \<open>What a decoder run that does not fail has read.\<close>

lemma decode_run:
  assumes "decode buf = Ok f"
  shows "\<exists>v ty r1 r2 u r3. r_u8 (r_new buf) = (Ok v, r1) \<and> from_u8 v = Ok ty \<and>
    decode_fields ty r1 = (Ok f, r2) \<and> expect_end r2 = (Ok u, r3)"
proof -
  from assms obtain s where "sbind r_u8 (\<lambda>v. sbind (slift (from_u8 v)) (\<lambda>ty.
      sbind (decode_fields ty) (\<lambda>frame. sbind expect_end (\<lambda>_. sreturn frame))))
      (r_new buf) = (Ok f, s)"
    unfolding decode_def by (rule fst_eqE)
  then show ?thesis
    by (simp only: outcome_iff slift_simp sreturn_simp prod.inject result.inject) blast
qed

lemma decode_OkD:
  assumes "decode buf = Ok f" and "length buf \<le> isize_max"
  shows "frame_ok f \<and> buf = encode f"
proof -
  have r: "reader_ok (r_new buf)" using assms(2) by simp
  from decode_run [OF assms(1)] obtain v ty r1 r2 u r3 where
      v: "r_u8 (r_new buf) = (Ok v, r1)" and ty: "from_u8 v = Ok ty"
    and f: "decode_fields ty r1 = (Ok f, r2)" and e: "expect_end r2 = (Ok u, r3)"
    by (elim exE conjE)
  from u8.get_OkD [OF r v] have r1: "reader_ok r1" "rest (r_new buf) = [v] @ rest r1"
    by blast+
  from fields.get_OkD [OF r1(1) f] have r2: "reader_ok r2" "rest r1 = fields_enc f @ rest r2"
    and ok: "frame_ok f" "frame_type_of f = ty"
    by blast+
  from e r2(1) have "rest r2 = []"
    by (simp add: expect_end_spec split: if_splits)
  with r1 r2 ok from_u8_Ok [OF ty] show ?thesis
    by (simp add: encode_eq)
qed

text \<open>The errors of the decoder.\<close>

lemma decode_fields_cases:
  assumes "reader_ok r"
  obtains f r' where "decode_fields ty r = (Ok f, r')" "reader_ok r'"
      "length (rest r') \<le> length (rest r)"
  | r' where "decode_fields ty r = (Err Truncated, r')"
  using assms by (cases rule: fields.get_cases [where ty = ty]) (auto simp: that)

lemma decode_not_Ok:
  assumes "length buf \<le> isize_max" and "\<forall>f. decode buf \<noteq> Ok f"
  obtains "decode buf = Err Truncated"
  | n where "decode buf = Err (TrailingBytes n)" "0 < n" "n < length buf"
  | v bs where "buf = v # bs" "decode buf = Err (UnknownFrameType v)"
proof -
  have r: "reader_ok (r_new buf)" using assms(1) by simp
  show thesis
  proof (cases buf)
    case Nil
    then show thesis
      using that(1) r by (simp add: decode_def sbind_def u8.get_eq)
  next
    case (Cons v bs)
    then have v: "r_u8 (r_new buf) = (Ok v, advance 1 (r_new buf))"
      and r1: "reader_ok (advance 1 (r_new buf))"
      using r by (simp_all add: u8.get_eq)
    show thesis
    proof (cases "from_u8 v")
      case (Ok ty)
      from r1 show thesis
      proof (cases rule: decode_fields_cases [where ty = ty])
        case (1 f r')
        then have "decode buf = fst (sbind expect_end (\<lambda>_. sreturn f) r')"
          using v Ok by (simp add: decode_def sbind_def)
        with 1 that(2) [of "length (rest r')"] assms(2) show thesis
          by (auto simp: expect_end_spec sbind_def Cons split: if_splits)
      next
        case (2 r')
        then show thesis
          using that(1) v Ok by (simp add: decode_def sbind_def)
      qed
    next
      case (Err e)
      then show thesis
        using that(3) [OF Cons] v from_u8_Err [OF Err] by (simp add: decode_def sbind_def)
    qed simp
  qed
qed


section \<open>Properties\<close>

text \<open>
  C8. \<open>Frame::decode\<close> accepts exactly the encodings of well-formed frames: a buffer decodes to
  a frame if and only if it is that frame's encoding. So decoding inverts encoding, and no
  frame has a second encoding that the decoder would accept.
\<close>

theorem decode_iff_encode:
  assumes "length buf \<le> isize_max"
  shows "decode buf = Ok f \<longleftrightarrow> frame_ok f \<and> buf = encode f"
proof
  assume "decode buf = Ok f"
  then show "frame_ok f \<and> buf = encode f"
    using assms by (rule decode_OkD)
next
  assume "frame_ok f \<and> buf = encode f"
  with assms show "decode buf = Ok f"
    using decode_encode_append [of f "[]"] by simp
qed

theorem decode_iff_encode_witness:
  "decode (encode (DataRecord 1 [0xAB, 0xCD])) = Ok (DataRecord 1 [0xAB, 0xCD])"
  using decode_iff_encode [of "encode (DataRecord 1 [0xAB, 0xCD])" "DataRecord 1 [0xAB, 0xCD]"]
  by (simp add: encode_eq isize_max_def)

text \<open>
  Whatever bytes arrive, \<open>Frame::decode\<close> does not panic: none of the slice, index and copy
  operations of the reader is ever applied out of range.
\<close>

theorem decode_never_panics:
  assumes "length buf \<le> isize_max"
  shows "decode buf \<noteq> Panic"
proof
  assume p: "decode buf = Panic"
  then have "\<forall>f. decode buf \<noteq> Ok f" by simp
  with assms show False
    by (rule decode_not_Ok) (use p in auto)
qed

theorem decode_never_panics_witness: "decode [0x06, 0x00, 0xFF, 0xFF, 0xFF, 0xFF, 0x01] \<noteq> Panic"
  using decode_never_panics [of "[0x06, 0x00, 0xFF, 0xFF, 0xFF, 0xFF, 0x01]"]
  by (simp add: isize_max_def)

text \<open>
  Every proper prefix of a valid frame is rejected as \<open>Truncated\<close>, and a valid frame
  followed by \<open>t\<close> is rejected with exactly the number of trailing bytes.
\<close>

theorem decode_rejects_cut_and_padded:
  assumes "frame_ok f" and "length (encode f) + length t \<le> isize_max"
  shows "(strict_prefix buf (encode f) \<longrightarrow> decode buf = Err Truncated) \<and>
    (t \<noteq> [] \<longrightarrow> decode (encode f @ t) = Err (TrailingBytes (length t)))"
proof (intro conjI impI)
  assume buf: "strict_prefix buf (encode f)"
  show "decode buf = Err Truncated"
  proof (cases buf)
    case Nil
    then show ?thesis by (simp add: decode_def sbind_def u8.get_eq)
  next
    case (Cons v bs)
    from buf have "length buf < length (encode f)"
      by (rule prefix_length_less)
    with assms(2) have r: "reader_ok (r_new buf)" by simp
    from buf Cons have v: "v = frame_type_code (frame_type_of f)"
      and bs: "strict_prefix bs (fields_enc f)"
      by (auto simp: encode_eq)
    have r1: "reader_ok (advance 1 (r_new buf))" "rest (advance 1 (r_new buf)) = bs"
      using r Cons by simp_all
    obtain r' where "decode_fields (frame_type_of f) (advance 1 (r_new buf)) = (Err Truncated, r')"
      using fields.get_truncated [OF r1(1), of f "frame_type_of f"] assms bs r1(2)
      by (auto simp: encode_eq)
    then show ?thesis
      using Cons v r by (simp add: decode_def sbind_def u8.get_eq)
  qed
next
  assume "t \<noteq> []"
  then show "decode (encode f @ t) = Err (TrailingBytes (length t))"
    using decode_encode_append [of f t] assms by simp
qed

theorem decode_rejects_cut_and_padded_witness:
  "decode [0x05, 0x00, 0x02, 0x61] = Err Truncated \<and> decode [0x07, 0xFF] = Err (TrailingBytes 1)"
proof
  have "frame_ok (ServerAck [0x61, 0x62])" by simp
  moreover have e: "encode (ServerAck [0x61, 0x62]) = [0x05, 0x00, 0x02, 0x61, 0x62]"
    by (simp add: encode_eq u16_to_be_bytes_def be_bytes_numeral)
  moreover have "strict_prefix [0x05, 0x00, 0x02, 0x61] (encode (ServerAck [0x61, 0x62]))"
    unfolding e by simp
  ultimately show "decode [0x05, 0x00, 0x02, 0x61] = Err Truncated"
    using decode_rejects_cut_and_padded [of "ServerAck [0x61, 0x62]" "[]" "[0x05, 0x00, 0x02, 0x61]"]
    by (simp add: isize_max_def)
  show "decode [0x07, 0xFF] = Err (TrailingBytes 1)"
    using decode_rejects_cut_and_padded [of Close "[0xFF]"]
    by (simp add: encode_eq isize_max_def)
qed

text \<open>
  The outer framing: the length prefix that \<open>encode_framed\<close> writes is read back by
  \<open>parse_len\<close> as the body's length when the body is at most \<open>MAX_FRAME\<close> bytes, and as
  \<open>FrameTooLarge\<close> with that length when it is larger; the rest of the output is the body.
\<close>

theorem parse_len_encode_framed:
  assumes "length body < 2 ^ 32"
  shows "parse_len (take 4 (encode_framed body)) =
      (if length body \<le> MAX_FRAME then Ok (length body) else Err (FrameTooLarge (length body))) \<and>
    drop 4 (encode_framed body) = body"
  using assms
  by (simp add: parse_len_def encode_framed_def unsigned_of_nat take_bit_eq_mod)

theorem parse_len_encode_framed_witness:
  "parse_len (take 4 (encode_framed [0x07])) = Ok 1 \<and> drop 4 (encode_framed [0x07]) = [0x07]"
  using parse_len_encode_framed [of "[0x07]"] by (simp add: MAX_FRAME_def)

text \<open>Framed bodies are self-delimiting.\<close>

lemma encode_framed_inject:
  assumes "encode_framed a @ x = encode_framed b @ y" "length a \<le> MAX_FRAME" "length b \<le> MAX_FRAME"
  shows "a = b" "x = y"
proof -
  have len: "length c \<le> MAX_FRAME \<Longrightarrow> parse_len (take 4 (encode_framed c)) = Ok (length c)" for c
    using parse_len_encode_framed [of c] by (simp add: MAX_FRAME_def)
  have "take 4 (encode_framed a) = take 4 (encode_framed b)" "drop 4 (encode_framed a) @ x = drop 4 (encode_framed b) @ y"
    using arg_cong [OF assms(1), of "take 4"] arg_cong [OF assms(1), of "drop 4"] by (simp_all add: encode_framed_def)
  then have "length a = length b" "a @ x = b @ y"
    using len [OF assms(2)] len [OF assms(3)] by (simp_all add: encode_framed_def)
  then show "a = b" "x = y" by simp_all
qed

end
