(* ===== verification/Suite.thy ===== *)
theory Suite
  imports Ort_Prelude
begin

text \<open>
  The error type of \<open>ort-core/src/error.rs\<close> and the cipher-suite seam of
  \<open>ort-core/src/suite/\<close>: the \<open>CipherSuite\<close> trait as a record of operations, the suite
  identifiers, the operating system's random source, and the v1 suite. The cryptographic
  crates behind v1 (ml-kem, ml-dsa, aes-gcm, hkdf, blake3) are not part of the repository:
  they are the record \<open>crates\<close>, a parameter, and \<open>crates_ok\<close> states the documented
  behaviour the code relies on. The locale \<open>suite_contract\<close> states what the protocol code
  relies on from a suite; it is interpreted here on \<open>V1\<close>.
\<close>

section \<open>Errors\<close>

datatype core_error =
    InvalidLength string nat nat
  | Malformed string
  | BadSignature
  | AeadFailure
  | UnsupportedSuite u16
  | StaleTimestamp
  | SourceIpMismatch
  | Replayed
  | KeyConfirmationMismatch
  | UnexpectedMessage string


section \<open>Suite identifiers and sizes\<close>

datatype suite_id = V1MlKem768MlDsa65

fun suite_code :: "suite_id \<Rightarrow> u16" where
  "suite_code V1MlKem768MlDsa65 = 0x0001"

definition from_code :: "u16 \<Rightarrow> suite_id option" where
  "from_code code = (if code = 0x0001 then Some V1MlKem768MlDsa65 else None)"

definition SHARED_LEN :: nat where "SHARED_LEN = 32"
definition NONCE_LEN :: nat where "NONCE_LEN = 12"
definition TAG_LEN :: nat where "TAG_LEN = 16"
definition R_LEN :: nat where "R_LEN = 32"

lemma from_code_suite_code [simp]: "from_code (suite_code s) = Some s"
  by (cases s) (simp add: from_code_def)

lemma from_code_Some: "from_code c = Some s \<longleftrightarrow> c = suite_code s"
  by (cases s) (auto simp: from_code_def)


section \<open>Operating-system randomness\<close>

text \<open>
  \<open>getrandom::fill\<close> is outside the repository. \<open>rng_out g i n\<close> is what the \<open>i\<close>-th call
  delivers for a buffer of \<open>n\<close> bytes, \<open>None\<close> when the call fails.
\<close>

record os_rng =
  rng_calls :: nat
  rng_out :: "nat \<Rightarrow> nat \<Rightarrow> bytes option"

definition rng_ok :: "os_rng \<Rightarrow> bool" where
  "rng_ok g \<longleftrightarrow> (\<forall>i n. \<exists>bs. rng_out g i n = Some bs \<and> length bs = n)"

definition fill_random :: "bytes \<Rightarrow> (bytes, 'e, os_rng) sm" where
  "fill_random buf g =
     (expect (rng_out g (rng_calls g) (length buf)), g\<lparr>rng_calls := Suc (rng_calls g)\<rparr>)"

definition fresh_r :: "(bytes, 'e, os_rng) sm" where
  "fresh_r = fill_random (replicate R_LEN 0)"

lemma rng_ok_calls [simp]: "rng_ok (g\<lparr>rng_calls := n\<rparr>) \<longleftrightarrow> rng_ok g"
  by (simp add: rng_ok_def)

lemma fill_random_ok:
  assumes "rng_ok g"
  obtains bs where "fill_random buf g = (Ok bs, g\<lparr>rng_calls := Suc (rng_calls g)\<rparr>)"
    and "length bs = length buf"
  using assms by (auto simp: rng_ok_def fill_random_def) (metis expect.simps(1))


section \<open>The suite trait\<close>

text \<open>
  The associated constants and functions of \<open>trait CipherSuite\<close>, over its associated types
  \<open>KemSecret\<close> (\<open>'ks\<close>) and \<open>SigSecret\<close> (\<open>'ss\<close>). Fixed-size array arguments are byte
  lists. Functions that can panic although they have no \<open>Result\<close> type return an outcome.
\<close>

record ('ks, 'ss) cipher_suite =
  ID :: suite_id
  KEM_EK_LEN :: nat
  KEM_CT_LEN :: nat
  SIG_VK_LEN :: nat
  SIG_LEN :: nat
  kem_generate :: "('ks, core_error, os_rng) sm"
  kem_secret_from_bytes :: "bytes \<Rightarrow> ('ks, core_error) result"
  kem_secret_to_bytes :: "'ks \<Rightarrow> bytes"
  kem_public :: "'ks \<Rightarrow> bytes"
  kem_decapsulate :: "'ks \<Rightarrow> bytes \<Rightarrow> (bytes, core_error) result"
  kem_encapsulate :: "bytes \<Rightarrow> bytes \<Rightarrow> (bytes \<times> bytes, core_error) result"
  sig_generate :: "('ss, core_error, os_rng) sm"
  sig_secret_from_bytes :: "bytes \<Rightarrow> ('ss, core_error) result"
  sig_secret_to_bytes :: "'ss \<Rightarrow> bytes"
  sig_public :: "'ss \<Rightarrow> bytes"
  sig_sign :: "'ss \<Rightarrow> bytes \<Rightarrow> bytes"
  sig_verify :: "bytes \<Rightarrow> bytes \<Rightarrow> bytes \<Rightarrow> (unit, core_error) result"
  aead_seal :: "bytes \<Rightarrow> bytes \<Rightarrow> bytes \<Rightarrow> bytes \<Rightarrow> (bytes, core_error) result"
  aead_open :: "bytes \<Rightarrow> bytes \<Rightarrow> bytes \<Rightarrow> bytes \<Rightarrow> (bytes, core_error) result"
  hkdf :: "bytes \<Rightarrow> bytes \<Rightarrow> bytes \<Rightarrow> bytes \<Rightarrow> (bytes, core_error) result"
  hash256 :: "bytes \<Rightarrow> bytes"
  hash512 :: "bytes \<Rightarrow> bytes"


section \<open>The cryptographic crates\<close>

record ('dk, 'ek, 'sk, 'vk, 'sg, 'h) crates =
  dk_seed_size :: nat
  ek_size :: nat
  vk_size :: nat
  sig_size :: nat
  dk_new :: "bytes \<Rightarrow> 'dk"
  dk_to_bytes :: "'dk \<Rightarrow> bytes"
  dk_encapsulation_key :: "'dk \<Rightarrow> 'ek"
  dk_decapsulate_slice :: "'dk \<Rightarrow> bytes \<Rightarrow> bytes option"
  ek_new :: "bytes \<Rightarrow> 'ek option"
  ek_to_bytes :: "'ek \<Rightarrow> bytes"
  ek_encapsulate_deterministic :: "'ek \<Rightarrow> bytes \<Rightarrow> bytes \<times> bytes"
  sk_from_seed :: "bytes \<Rightarrow> 'sk"
  sk_to_seed :: "'sk \<Rightarrow> bytes"
  sk_verifying_key :: "'sk \<Rightarrow> 'vk"
  sk_sign :: "'sk \<Rightarrow> bytes \<Rightarrow> 'sg"
  vk_encode :: "'vk \<Rightarrow> bytes"
  vk_decode :: "bytes \<Rightarrow> 'vk"
  vk_verify :: "'vk \<Rightarrow> bytes \<Rightarrow> 'sg \<Rightarrow> bool"
  sig_encode :: "'sg \<Rightarrow> bytes"
  sig_decode :: "bytes \<Rightarrow> 'sg option"
  aes_encrypt :: "bytes \<Rightarrow> bytes \<Rightarrow> bytes \<Rightarrow> bytes \<Rightarrow> bytes option"
  aes_decrypt :: "bytes \<Rightarrow> bytes \<Rightarrow> bytes \<Rightarrow> bytes \<Rightarrow> bytes option"
  hkdf_expand :: "bytes \<Rightarrow> bytes \<Rightarrow> bytes \<Rightarrow> nat \<Rightarrow> bytes option"
  b3_hash :: "bytes \<Rightarrow> bytes"
  b3_new :: "'h"
  b3_new_keyed :: "bytes \<Rightarrow> 'h"
  b3_update :: "'h \<Rightarrow> bytes \<Rightarrow> 'h"
  b3_finalize_xof :: "'h \<Rightarrow> nat \<Rightarrow> bytes"

text \<open>\<open>TryFrom<&[u8]>\<close> of the crates' fixed-size arrays: the slice must have that size.\<close>

definition array_try_from :: "nat \<Rightarrow> bytes \<Rightarrow> bytes option" where
  "array_try_from n s = (if length s = n then Some s else None)"


section \<open>The v1 suite\<close>

definition ML_KEM_768_EK :: nat where "ML_KEM_768_EK = 1184"
definition ML_KEM_768_CT :: nat where "ML_KEM_768_CT = 1088"
definition ML_DSA_65_VK :: nat where "ML_DSA_65_VK = 1952"
definition ML_DSA_65_SIG :: nat where "ML_DSA_65_SIG = 3309"

lemmas v1_sizes = ML_KEM_768_EK_def ML_KEM_768_CT_def ML_DSA_65_VK_def ML_DSA_65_SIG_def
  SHARED_LEN_def NONCE_LEN_def TAG_LEN_def R_LEN_def

definition v1_kem_secret_from_bytes ::
    "('dk, 'ek, 'sk, 'vk, 'sg, 'h) crates \<Rightarrow> bytes \<Rightarrow> ('dk, core_error) result" where
  "v1_kem_secret_from_bytes C seed =
     bind_result (ok_or (InvalidLength ''ml-kem decapsulation seed'' 64 (length seed))
       (array_try_from (dk_seed_size C) seed))
     (\<lambda>key. Ok (dk_new C key))"

text \<open>The \<open>expect\<close> turns an error of \<open>kem_secret_from_bytes\<close> into a panic.\<close>

fun expect_ok :: "('a, 'e) result \<Rightarrow> ('a, 'f) result" where
  "expect_ok (Ok x) = Ok x"
| "expect_ok (Err e) = Panic"
| "expect_ok Panic = Panic"

definition v1_kem_generate ::
    "('dk, 'ek, 'sk, 'vk, 'sg, 'h) crates \<Rightarrow> ('dk, core_error, os_rng) sm" where
  "v1_kem_generate C =
     sbind (fill_random (replicate 64 0)) (\<lambda>seed.
       slift (expect_ok (v1_kem_secret_from_bytes C seed)))"

definition v1_kem_secret_to_bytes ::
    "('dk, 'ek, 'sk, 'vk, 'sg, 'h) crates \<Rightarrow> 'dk \<Rightarrow> bytes" where
  "v1_kem_secret_to_bytes C secret = dk_to_bytes C secret"

definition v1_kem_public :: "('dk, 'ek, 'sk, 'vk, 'sg, 'h) crates \<Rightarrow> 'dk \<Rightarrow> bytes" where
  "v1_kem_public C secret = ek_to_bytes C (dk_encapsulation_key C secret)"

definition v1_kem_decapsulate ::
    "('dk, 'ek, 'sk, 'vk, 'sg, 'h) crates \<Rightarrow> 'dk \<Rightarrow> bytes \<Rightarrow> (bytes, core_error) result" where
  "v1_kem_decapsulate C secret ct =
     (if length ct \<noteq> ML_KEM_768_CT
      then Err (InvalidLength ''ml-kem ciphertext'' ML_KEM_768_CT (length ct))
      else bind_result (ok_or (Malformed ''ml-kem ciphertext'') (dk_decapsulate_slice C secret ct))
        (\<lambda>shared. copy_from_slice (replicate SHARED_LEN 0) shared))"

definition v1_kem_encapsulate ::
    "('dk, 'ek, 'sk, 'vk, 'sg, 'h) crates \<Rightarrow> bytes \<Rightarrow> bytes \<Rightarrow> (bytes \<times> bytes, core_error) result"
  where
  "v1_kem_encapsulate C ek r =
     bind_result (ok_or (InvalidLength ''ml-kem encapsulation key'' ML_KEM_768_EK (length ek))
       (array_try_from (ek_size C) ek)) (\<lambda>key.
     bind_result (ok_or (Malformed ''ml-kem encapsulation key'') (ek_new C key)) (\<lambda>ek.
       let (ct, shared) = ek_encapsulate_deterministic C ek r
       in bind_result (copy_from_slice (replicate SHARED_LEN 0) shared) (\<lambda>out. Ok (ct, out))))"

definition v1_sig_generate ::
    "('dk, 'ek, 'sk, 'vk, 'sg, 'h) crates \<Rightarrow> ('sk, core_error, os_rng) sm" where
  "v1_sig_generate C =
     sbind (fill_random (replicate 32 0)) (\<lambda>seed. sreturn (sk_from_seed C seed))"

definition v1_sig_secret_from_bytes ::
    "('dk, 'ek, 'sk, 'vk, 'sg, 'h) crates \<Rightarrow> bytes \<Rightarrow> ('sk, core_error) result" where
  "v1_sig_secret_from_bytes C seed =
     (if length seed \<noteq> 32 then Err (InvalidLength ''ml-dsa signing seed'' 32 (length seed))
      else bind_result (copy_from_slice (replicate 32 0) seed) (\<lambda>s. Ok (sk_from_seed C s)))"

definition v1_sig_secret_to_bytes ::
    "('dk, 'ek, 'sk, 'vk, 'sg, 'h) crates \<Rightarrow> 'sk \<Rightarrow> bytes" where
  "v1_sig_secret_to_bytes C secret = sk_to_seed C secret"

definition v1_sig_public :: "('dk, 'ek, 'sk, 'vk, 'sg, 'h) crates \<Rightarrow> 'sk \<Rightarrow> bytes" where
  "v1_sig_public C secret = vk_encode C (sk_verifying_key C secret)"

definition v1_sig_sign :: "('dk, 'ek, 'sk, 'vk, 'sg, 'h) crates \<Rightarrow> 'sk \<Rightarrow> bytes \<Rightarrow> bytes" where
  "v1_sig_sign C secret msg = sig_encode C (sk_sign C secret msg)"

definition v1_sig_verify ::
    "('dk, 'ek, 'sk, 'vk, 'sg, 'h) crates \<Rightarrow> bytes \<Rightarrow> bytes \<Rightarrow> bytes \<Rightarrow> (unit, core_error) result"
  where
  "v1_sig_verify C vk msg sig =
     bind_result (ok_or (InvalidLength ''ml-dsa verifying key'' ML_DSA_65_VK (length vk))
       (array_try_from (vk_size C) vk)) (\<lambda>enc_vk.
     let vk = vk_decode C enc_vk in
     bind_result (ok_or (InvalidLength ''ml-dsa signature'' ML_DSA_65_SIG (length sig))
       (array_try_from (sig_size C) sig)) (\<lambda>enc_sig.
     bind_result (ok_or BadSignature (sig_decode C enc_sig)) (\<lambda>sig.
       if vk_verify C vk msg sig then Ok () else Err BadSignature)))"

definition v1_aead_seal ::
    "('dk, 'ek, 'sk, 'vk, 'sg, 'h) crates \<Rightarrow> bytes \<Rightarrow> bytes \<Rightarrow> bytes \<Rightarrow> bytes \<Rightarrow>
      (bytes, core_error) result" where
  "v1_aead_seal C key nonce aad pt = expect (aes_encrypt C key nonce pt aad)"

definition v1_aead_open ::
    "('dk, 'ek, 'sk, 'vk, 'sg, 'h) crates \<Rightarrow> bytes \<Rightarrow> bytes \<Rightarrow> bytes \<Rightarrow> bytes \<Rightarrow>
      (bytes, core_error) result" where
  "v1_aead_open C key nonce aad ct = ok_or AeadFailure (aes_decrypt C key nonce ct aad)"

definition v1_hkdf ::
    "('dk, 'ek, 'sk, 'vk, 'sg, 'h) crates \<Rightarrow> bytes \<Rightarrow> bytes \<Rightarrow> bytes \<Rightarrow> bytes \<Rightarrow>
      (bytes, core_error) result" where
  "v1_hkdf C ikm salt info out = expect (hkdf_expand C salt ikm info (length out))"

definition v1_hash256 :: "('dk, 'ek, 'sk, 'vk, 'sg, 'h) crates \<Rightarrow> bytes \<Rightarrow> bytes" where
  "v1_hash256 C data = b3_hash C data"

definition v1_hash512 :: "('dk, 'ek, 'sk, 'vk, 'sg, 'h) crates \<Rightarrow> bytes \<Rightarrow> bytes" where
  "v1_hash512 C data = b3_finalize_xof C (b3_update C (b3_new C) data) 64"

definition V1 :: "('dk, 'ek, 'sk, 'vk, 'sg, 'h) crates \<Rightarrow> ('dk, 'sk) cipher_suite" where
  "V1 C = \<lparr>
     ID = V1MlKem768MlDsa65,
     KEM_EK_LEN = ML_KEM_768_EK,
     KEM_CT_LEN = ML_KEM_768_CT,
     SIG_VK_LEN = ML_DSA_65_VK,
     SIG_LEN = ML_DSA_65_SIG,
     kem_generate = v1_kem_generate C,
     kem_secret_from_bytes = v1_kem_secret_from_bytes C,
     kem_secret_to_bytes = v1_kem_secret_to_bytes C,
     kem_public = v1_kem_public C,
     kem_decapsulate = v1_kem_decapsulate C,
     kem_encapsulate = v1_kem_encapsulate C,
     sig_generate = v1_sig_generate C,
     sig_secret_from_bytes = v1_sig_secret_from_bytes C,
     sig_secret_to_bytes = v1_sig_secret_to_bytes C,
     sig_public = v1_sig_public C,
     sig_sign = v1_sig_sign C,
     sig_verify = v1_sig_verify C,
     aead_seal = v1_aead_seal C,
     aead_open = v1_aead_open C,
     hkdf = v1_hkdf C,
     hash256 = v1_hash256 C,
     hash512 = v1_hash512 C\<rparr>"


section \<open>What the crates document\<close>

text \<open>
  ML-KEM-768 (FIPS 203): key and ciphertext sizes, export and import of an encapsulation key,
  and decapsulation of an honest encapsulation (its failure probability of about
  \<open>2 ^ (- 164)\<close> is taken as zero).
\<close>

definition ml_kem_ok :: "('dk, 'ek, 'sk, 'vk, 'sg, 'h) crates \<Rightarrow> bool" where
  "ml_kem_ok C \<longleftrightarrow> dk_seed_size C = 64 \<and> ek_size C = 1184 \<and>
     (\<forall>dk. length (ek_to_bytes C (dk_encapsulation_key C dk)) = 1184 \<and>
       ek_new C (ek_to_bytes C (dk_encapsulation_key C dk)) = Some (dk_encapsulation_key C dk)) \<and>
     (\<forall>dk m ct shared. length m = 32 \<longrightarrow>
       ek_encapsulate_deterministic C (dk_encapsulation_key C dk) m = (ct, shared) \<longrightarrow>
       length ct = 1088 \<and> length shared = 32 \<and> dk_decapsulate_slice C dk ct = Some shared) \<and>
     (\<forall>seed. length seed = 64 \<longrightarrow> dk_to_bytes C (dk_new C seed) = seed)"

text \<open>ML-DSA-65 (FIPS 204): sizes, encodings, and verification of an honest signature.\<close>

definition ml_dsa_ok :: "('dk, 'ek, 'sk, 'vk, 'sg, 'h) crates \<Rightarrow> bool" where
  "ml_dsa_ok C \<longleftrightarrow> vk_size C = 1952 \<and> sig_size C = 3309 \<and>
     (\<forall>vk. length (vk_encode C vk) = 1952 \<and> vk_decode C (vk_encode C vk) = vk) \<and>
     (\<forall>sg. length (sig_encode C sg) = 3309 \<and> sig_decode C (sig_encode C sg) = Some sg) \<and>
     (\<forall>sk msg. vk_verify C (sk_verifying_key C sk) msg (sk_sign C sk msg)) \<and>
     (\<forall>seed. length seed = 32 \<longrightarrow> sk_to_seed C (sk_from_seed C seed) = seed)"

text \<open>AES-256-GCM: encryption succeeds up to the crate's limit of \<open>2 ^ 36\<close> bytes and inverts.\<close>

definition aes_gcm_ok :: "('dk, 'ek, 'sk, 'vk, 'sg, 'h) crates \<Rightarrow> bool" where
  "aes_gcm_ok C \<longleftrightarrow>
     (\<forall>key nonce pt aad. length key = 32 \<longrightarrow> length nonce = 12 \<longrightarrow>
       length pt \<le> 2 ^ 36 \<longrightarrow> length aad \<le> 2 ^ 36 \<longrightarrow>
       (\<exists>ct. aes_encrypt C key nonce pt aad = Some ct \<and> length ct = length pt + 16 \<and>
         aes_decrypt C key nonce ct aad = Some pt))"

text \<open>HKDF-SHA256 expands to at most 255 blocks of 32 bytes; BLAKE3 sizes.\<close>

definition hashes_ok :: "('dk, 'ek, 'sk, 'vk, 'sg, 'h) crates \<Rightarrow> bool" where
  "hashes_ok C \<longleftrightarrow>
     (\<forall>salt ikm info n. n \<le> 255 * 32 \<longrightarrow>
       (\<exists>out. hkdf_expand C salt ikm info n = Some out \<and> length out = n)) \<and>
     (\<forall>d. length (b3_hash C d) = 32) \<and> (\<forall>h n. length (b3_finalize_xof C h n) = n)"

text \<open>
  The incremental BLAKE3 hasher: \<open>view\<close> reads off the key and the bytes absorbed so far;
  \<open>update\<close> appends to them.
\<close>

definition hasher_ok ::
    "('dk, 'ek, 'sk, 'vk, 'sg, 'h) crates \<Rightarrow> ('h \<Rightarrow> bytes option \<times> bytes) \<Rightarrow> bool" where
  "hasher_ok C view \<longleftrightarrow> view (b3_new C) = (None, []) \<and>
     (\<forall>key. view (b3_new_keyed C key) = (Some key, [])) \<and>
     (\<forall>h d. view (b3_update C h d) = (fst (view h), snd (view h) @ d))"

definition crates_ok :: "('dk, 'ek, 'sk, 'vk, 'sg, 'h) crates \<Rightarrow> bool" where
  "crates_ok C \<longleftrightarrow> ml_kem_ok C \<and> ml_dsa_ok C \<and> aes_gcm_ok C \<and> hashes_ok C"


section \<open>What the protocol relies on from a suite\<close>

locale suite_contract =
  fixes S :: "('ks, 'ss) cipher_suite" and lawful :: bool
  assumes kem_roundtrip: "lawful \<Longrightarrow> length r = 32 \<Longrightarrow>
      \<exists>ct shared. kem_encapsulate S (kem_public S sk) r = Ok (ct, shared) \<and>
        length ct = KEM_CT_LEN S \<and> length shared = 32 \<and> kem_decapsulate S sk ct = Ok shared"
    and kem_public_length: "lawful \<Longrightarrow> length (kem_public S sk) = KEM_EK_LEN S"
    and sig_roundtrip: "lawful \<Longrightarrow> sig_verify S (sig_public S ss) msg (sig_sign S ss msg) = Ok ()"
    and sig_lengths: "lawful \<Longrightarrow>
      length (sig_public S ss) = SIG_VK_LEN S \<and> length (sig_sign S ss msg) = SIG_LEN S"
    and aead_roundtrip: "lawful \<Longrightarrow> length key = 32 \<Longrightarrow> length nonce = 12 \<Longrightarrow>
      length aad \<le> 2 ^ 36 \<Longrightarrow> length pt \<le> 2 ^ 36 \<Longrightarrow>
      \<exists>ct. aead_seal S key nonce aad pt = Ok ct \<and> length ct = length pt + 16 \<and>
        aead_open S key nonce aad ct = Ok pt"
    and hkdf_total: "lawful \<Longrightarrow> length out \<le> 255 * 32 \<Longrightarrow>
      \<exists>okm. hkdf S ikm salt info out = Ok okm \<and> length okm = length out"
    and hash_lengths: "lawful \<Longrightarrow> length (hash256 S d) = 32 \<and> length (hash512 S d) = 64"

lemma v1_kem_roundtrip:
  assumes "ml_kem_ok C" and "length r = 32"
  obtains ct shared where "v1_kem_encapsulate C (v1_kem_public C sk) r = Ok (ct, shared)"
    "length ct = 1088" "length shared = 32" "v1_kem_decapsulate C sk ct = Ok shared"
proof -
  obtain ct shared where e:
      "ek_encapsulate_deterministic C (dk_encapsulation_key C sk) r = (ct, shared)"
    by fastforce
  with assms have "length ct = 1088" "length shared = 32" "dk_decapsulate_slice C sk ct = Some shared"
    unfolding ml_kem_ok_def by blast+
  moreover from assms(1) have "ek_size C = 1184"
      "length (ek_to_bytes C (dk_encapsulation_key C sk)) = 1184"
      "ek_new C (ek_to_bytes C (dk_encapsulation_key C sk)) = Some (dk_encapsulation_key C sk)"
    unfolding ml_kem_ok_def by blast+
  ultimately show thesis
    using e by (intro that [of ct shared])
      (simp_all add: v1_kem_encapsulate_def v1_kem_public_def v1_kem_decapsulate_def
        array_try_from_def copy_from_slice_def v1_sizes)
qed

lemma v1_aead_roundtrip:
  assumes "aes_gcm_ok C" "length key = 32" "length nonce = 12" "length aad \<le> 2 ^ 36"
    "length pt \<le> 2 ^ 36"
  shows "\<exists>ct. v1_aead_seal C key nonce aad pt = Ok ct \<and> length ct = length pt + 16 \<and>
    v1_aead_open C key nonce aad ct = Ok pt"
proof -
  from assms obtain ct where "aes_encrypt C key nonce pt aad = Some ct"
      "length ct = length pt + 16" "aes_decrypt C key nonce ct aad = Some pt"
    unfolding aes_gcm_ok_def by blast
  then show ?thesis
    by (simp add: v1_aead_seal_def v1_aead_open_def)
qed

interpretation v1: suite_contract "V1 C" "crates_ok C" for C
proof unfold_locales
  fix r :: bytes and sk
  assume "crates_ok C" "length r = 32"
  then show "\<exists>ct shared. kem_encapsulate (V1 C) (kem_public (V1 C) sk) r = Ok (ct, shared) \<and>
      length ct = KEM_CT_LEN (V1 C) \<and> length shared = 32 \<and> kem_decapsulate (V1 C) sk ct = Ok shared"
    unfolding crates_ok_def by (auto simp: V1_def v1_sizes elim: v1_kem_roundtrip [where sk = sk])
next
  fix key nonce aad pt :: bytes
  assume "crates_ok C" "length key = 32" "length nonce = 12" "length aad \<le> 2 ^ 36"
    "length pt \<le> 2 ^ 36"
  then show "\<exists>ct. aead_seal (V1 C) key nonce aad pt = Ok ct \<and> length ct = length pt + 16 \<and>
      aead_open (V1 C) key nonce aad ct = Ok pt"
    using v1_aead_roundtrip [of C key nonce aad pt] by (simp add: crates_ok_def V1_def)
next
  fix out ikm salt info :: bytes
  assume "crates_ok C" and n: "length out \<le> 255 * 32"
  then obtain okm where "hkdf_expand C salt ikm info (length out) = Some okm" "length okm = length out"
    unfolding crates_ok_def hashes_ok_def by blast
  then show "\<exists>okm. hkdf (V1 C) ikm salt info out = Ok okm \<and> length okm = length out"
    by (simp add: V1_def v1_hkdf_def)
qed (simp_all add: crates_ok_def hashes_ok_def ml_kem_ok_def ml_dsa_ok_def V1_def v1_sig_verify_def
    array_try_from_def v1_kem_public_def v1_sig_public_def v1_sig_sign_def v1_hash256_def
    v1_hash512_def v1_sizes)

end
