(* ===== verification/Sample_Crates.thy ===== *)
theory Sample_Crates
  imports Suite
begin

text \<open>
  A concrete stand-in for the cryptographic crates, used only by the witnesses: it shows that
  the documented behaviour collected in \<open>crates_ok\<close> can be met, and gives the witnesses a
  suite to run on. It has the sizes and the round-trip laws of the real primitives and none of
  their security.
\<close>

definition toy_tag :: "bytes \<Rightarrow> bytes \<Rightarrow> bytes \<Rightarrow> bytes \<Rightarrow> bytes" where
  "toy_tag key nonce aad pt = be_bytes 16 (be_value key + be_value nonce + be_value aad + be_value pt)"

definition sample_crates :: "(512 word, 512 word, 256 word, 256 word, 256 word, bytes option \<times> bytes) crates" where
  "sample_crates = \<lparr>
     dk_seed_size = 64, ek_size = 1184, vk_size = 1952, sig_size = 3309,
     dk_new = (\<lambda>seed. word_of_nat (be_value seed)),
     dk_to_bytes = (\<lambda>dk. be_bytes 64 (unat dk)),
     dk_encapsulation_key = (\<lambda>dk. dk),
     dk_decapsulate_slice = (\<lambda>dk ct. Some (drop 1056 ct)),
     ek_new = (\<lambda>bs. Some (word_of_nat (be_value bs))),
     ek_to_bytes = (\<lambda>ek. be_bytes 1184 (unat ek)),
     ek_encapsulate_deterministic = (\<lambda>ek m. (replicate 1056 0 @ m, m)),
     sk_from_seed = (\<lambda>seed. word_of_nat (be_value seed)),
     sk_to_seed = (\<lambda>sk. be_bytes 32 (unat sk)),
     sk_verifying_key = (\<lambda>sk. sk),
     sk_sign = (\<lambda>sk msg. sk + word_of_nat (be_value msg)),
     vk_encode = (\<lambda>vk. be_bytes 1952 (unat vk)),
     vk_decode = (\<lambda>bs. word_of_nat (be_value bs)),
     vk_verify = (\<lambda>vk msg sg. sg = vk + word_of_nat (be_value msg)),
     sig_encode = (\<lambda>sg. be_bytes 3309 (unat sg)),
     sig_decode = (\<lambda>bs. Some (word_of_nat (be_value bs))),
     aes_encrypt = (\<lambda>key nonce pt aad. Some (pt @ toy_tag key nonce aad pt)),
     aes_decrypt = (\<lambda>key nonce ct aad.
       let pt = take (length ct - 16) ct
       in if drop (length ct - 16) ct = toy_tag key nonce aad pt then Some pt else None),
     hkdf_expand = (\<lambda>salt ikm info n. Some (be_bytes n (be_value salt + be_value ikm + be_value info))),
     b3_hash = (\<lambda>d. be_bytes 32 (be_value d)),
     b3_new = (None, []),
     b3_new_keyed = (\<lambda>key. (Some key, [])),
     b3_update = (\<lambda>h d. (fst h, snd h @ d)),
     b3_finalize_xof = (\<lambda>h n.
       be_bytes n (be_value (case fst h of None \<Rightarrow> [] | Some key \<Rightarrow> key) + be_value (snd h)))\<rparr>"

lemma pow_256: "(256 :: nat) ^ n = 2 ^ (8 * n)"
  by (simp add: power_mult)

lemma be_value_be_bytes_word:
  assumes "LENGTH('a) \<le> 8 * n"
  shows "word_of_nat (be_value (be_bytes n (unat w))) = (w :: 'a::len word)"
proof -
  have "(2 :: nat) ^ LENGTH('a) \<le> 256 ^ n"
    unfolding pow_256 using assms by (rule power_increasing) simp
  with unat_bound [of w] have "unat w < 256 ^ n"
    by (rule less_le_trans)
  then show ?thesis
    by (simp add: be_value_be_bytes)
qed

lemma seed_roundtrip:
  assumes "length seed = n" "LENGTH('a) = 8 * n"
  shows "be_bytes n (unat (word_of_nat (be_value seed) :: 'a::len word)) = seed"
  using be_value_bound [of seed] be_bytes_be_value [of seed] assms
  by (simp add: unsigned_of_nat take_bit_eq_mod pow_256)

lemma sample_crates_ok: "crates_ok sample_crates"
proof -
  have "ml_kem_ok sample_crates"
    unfolding ml_kem_ok_def sample_crates_def
    by (auto simp: be_value_be_bytes_word seed_roundtrip)
  moreover have "ml_dsa_ok sample_crates"
    unfolding ml_dsa_ok_def sample_crates_def
    by (auto simp: be_value_be_bytes_word seed_roundtrip)
  moreover have "aes_gcm_ok sample_crates"
    by (simp add: aes_gcm_ok_def sample_crates_def toy_tag_def)
  moreover have "hashes_ok sample_crates"
    by (simp add: hashes_ok_def sample_crates_def)
  ultimately show ?thesis
    by (simp add: crates_ok_def)
qed

lemma sample_decrypt_short: "length ct < 16 \<Longrightarrow> aes_decrypt sample_crates key nonce ct aad = None"
proof -
  assume "length ct < 16"
  then have "drop (length ct - 16) ct \<noteq> toy_tag key nonce aad (take (length ct - 16) ct)"
    by (metis length_be_bytes diff_is_0_eq drop0 less_imp_le_nat nat_neq_iff toy_tag_def)
  then show ?thesis
    by (simp add: sample_crates_def)
qed

lemma sample_hasher_ok: "hasher_ok sample_crates (\<lambda>h. h)"
  by (simp add: hasher_ok_def sample_crates_def)

text \<open>A random source that answers every request with zero bytes.\<close>

definition sample_rng :: os_rng where
  "sample_rng = \<lparr>rng_calls = 0, rng_out = (\<lambda>i n. Some (replicate n 0))\<rparr>"

lemma sample_rng_ok: "rng_ok sample_rng"
  by (simp add: rng_ok_def sample_rng_def)

end
