(* ===== verification/Pool.thy ===== *)
theory Pool
  imports Sample_Crates
begin

text \<open>
  The per-session entropy pool of \<open>ort-core/src/pool.rs\<close>: one keyed BLAKE3 hasher and one
  record counter per direction. The hasher is the crates' parameter.
\<close>

section \<open>Directions\<close>

datatype direction = ClientToServer | ServerToClient

text \<open>The cast \<open>dir as u8\<close>.\<close>

fun dir_code :: "direction \<Rightarrow> u8" where
  "dir_code ClientToServer = 0"
| "dir_code ServerToClient = 1"

fun flip :: "direction \<Rightarrow> direction" where
  "flip ClientToServer = ServerToClient"
| "flip ServerToClient = ClientToServer"

fun dir_label :: "direction \<Rightarrow> bytes" where
  "dir_label ClientToServer = ascii ''ORT-v1 pool c2s''"
| "dir_label ServerToClient = ascii ''ORT-v1 pool s2c''"

lemma flip_flip [simp]: "flip (flip d) = d"
  by (cases d) simp_all

lemma flip_neq [simp]: "flip d \<noteq> d" "d \<noteq> flip d"
  by (cases d; simp)+

lemma dir_code_inject [simp]: "dir_code a = dir_code b \<longleftrightarrow> a = b"
  by (cases a; cases b) simp_all

lemma length_dir_label [simp]: "length (dir_label d) = 15"
  by (cases d) simp_all

lemma dir_label_inject [simp]: "dir_label a = dir_label b \<longleftrightarrow> a = b"
  by (cases a; cases b) (simp_all add: ascii_def of_char_def)


section \<open>One direction\<close>

record 'h dir_pool =
  dp_state :: 'h
  dp_counter :: u64

definition dp_new ::
    "('dk, 'ek, 'sk, 'vk, 'sg, 'h) crates \<Rightarrow> bytes \<Rightarrow> direction \<Rightarrow> bytes \<Rightarrow> 'h dir_pool" where
  "dp_new C pool_key dir seed =
     (let state = b3_new_keyed C pool_key;
          state = b3_update C state (dir_label dir);
          state = b3_update C state seed
      in \<lparr>dp_state = state, dp_counter = 0\<rparr>)"

text \<open>The hasher a nonce is squeezed from: a copy of the state that absorbed the counter.\<close>

definition nonce_hasher ::
    "('dk, 'ek, 'sk, 'vk, 'sg, 'h) crates \<Rightarrow> 'h dir_pool \<Rightarrow> 'h" where
  "nonce_hasher C p = b3_update C (dp_state p) (u64_to_be_bytes (dp_counter p))"

text \<open>\<open>self.counter += 1\<close> wraps in a release build.\<close>

definition dp_next_nonce ::
    "('dk, 'ek, 'sk, 'vk, 'sg, 'h) crates \<Rightarrow> 'h dir_pool \<Rightarrow> bytes \<times> 'h dir_pool" where
  "dp_next_nonce C p =
     (b3_finalize_xof C (nonce_hasher C p) NONCE_LEN, p\<lparr>dp_counter := dp_counter p + 1\<rparr>)"

definition dp_absorb ::
    "('dk, 'ek, 'sk, 'vk, 'sg, 'h) crates \<Rightarrow> bytes \<Rightarrow> 'h dir_pool \<Rightarrow> 'h dir_pool" where
  "dp_absorb C data p =
     p\<lparr>dp_state := b3_update C (b3_update C (dp_state p) (ascii ''ORT-v1 absorb'')) data\<rparr>"


section \<open>The pool of a session\<close>

record 'h entropy_pool =
  ep_c2s :: "'h dir_pool"
  ep_s2c :: "'h dir_pool"

definition ep_new ::
    "('dk, 'ek, 'sk, 'vk, 'sg, 'h) crates \<Rightarrow> bytes \<Rightarrow> bytes \<Rightarrow> 'h entropy_pool" where
  "ep_new C pool_key connmeta_nonce =
     \<lparr>ep_c2s = dp_new C pool_key ClientToServer connmeta_nonce,
      ep_s2c = dp_new C pool_key ServerToClient connmeta_nonce\<rparr>"

text \<open>The mutable reference \<open>self.dir(dir)\<close>: reading it and writing through it.\<close>

fun ep_dir :: "direction \<Rightarrow> 'h entropy_pool \<Rightarrow> 'h dir_pool" where
  "ep_dir ClientToServer pool = ep_c2s pool"
| "ep_dir ServerToClient pool = ep_s2c pool"

fun ep_set_dir :: "direction \<Rightarrow> 'h dir_pool \<Rightarrow> 'h entropy_pool \<Rightarrow> 'h entropy_pool" where
  "ep_set_dir ClientToServer p pool = pool\<lparr>ep_c2s := p\<rparr>"
| "ep_set_dir ServerToClient p pool = pool\<lparr>ep_s2c := p\<rparr>"

definition ep_next_nonce ::
    "('dk, 'ek, 'sk, 'vk, 'sg, 'h) crates \<Rightarrow> direction \<Rightarrow> 'h entropy_pool \<Rightarrow>
      bytes \<times> 'h entropy_pool" where
  "ep_next_nonce C dir pool =
     (let (nonce, p) = dp_next_nonce C (ep_dir dir pool) in (nonce, ep_set_dir dir p pool))"

definition ep_absorb ::
    "('dk, 'ek, 'sk, 'vk, 'sg, 'h) crates \<Rightarrow> direction \<Rightarrow> bytes \<Rightarrow> 'h entropy_pool \<Rightarrow>
      'h entropy_pool" where
  "ep_absorb C dir ciphertext pool = ep_set_dir dir (dp_absorb C ciphertext (ep_dir dir pool)) pool"

fun ep_counter :: "direction \<Rightarrow> 'h entropy_pool \<Rightarrow> u64" where
  "ep_counter ClientToServer pool = dp_counter (ep_c2s pool)"
| "ep_counter ServerToClient pool = dp_counter (ep_s2c pool)"

lemma ep_counter_dir: "ep_counter d pool = dp_counter (ep_dir d pool)"
  by (cases d) simp_all

lemma ep_dir_set [simp]: "ep_dir d (ep_set_dir d' p pool) = (if d = d' then p else ep_dir d pool)"
  by (cases d; cases d') simp_all

lemma ep_set_dir_set [simp]: "ep_set_dir d p (ep_set_dir d q pool) = ep_set_dir d p pool"
  by (cases d) simp_all

lemma ep_dir_new [simp]: "ep_dir d (ep_new C k n) = dp_new C k d n"
  by (cases d) (simp_all add: ep_new_def)

lemma ep_eqI: "(\<And>d. ep_dir d a = ep_dir d b) \<Longrightarrow> a = (b :: 'h entropy_pool)"
  by (metis ep_dir.simps entropy_pool.equality old.unit.exhaust)


section \<open>Sequences of pool operations\<close>

text \<open>
  A session draws nonces and absorbs ciphertexts in some interleaving of its two directions.
  A run yields, in order, the hashers the nonces were squeezed from and the nonces.
\<close>

datatype pool_op = Draw direction | Absorb direction bytes

fun op_dir :: "pool_op \<Rightarrow> direction" where
  "op_dir (Draw d) = d"
| "op_dir (Absorb d _) = d"

fun pool_step ::
    "('dk, 'ek, 'sk, 'vk, 'sg, 'h) crates \<Rightarrow> pool_op \<Rightarrow> 'h entropy_pool \<Rightarrow>
      ('h \<times> bytes) list \<times> 'h entropy_pool" where
  "pool_step C (Draw d) pool =
     (let (nonce, pool') = ep_next_nonce C d pool
      in ([(nonce_hasher C (ep_dir d pool), nonce)], pool'))"
| "pool_step C (Absorb d ct) pool = ([], ep_absorb C d ct pool)"

fun pool_run ::
    "('dk, 'ek, 'sk, 'vk, 'sg, 'h) crates \<Rightarrow> pool_op list \<Rightarrow> 'h entropy_pool \<Rightarrow>
      ('h \<times> bytes) list \<times> 'h entropy_pool" where
  "pool_run C [] pool = ([], pool)"
| "pool_run C (x # xs) pool =
     (let (ns, pool') = pool_step C x pool; (ns', pool'') = pool_run C xs pool' in (ns @ ns', pool''))"

fun is_draw :: "pool_op \<Rightarrow> bool" where
  "is_draw (Draw _) = True"
| "is_draw (Absorb _ _) = False"

lemma pool_step_other_dir: "op_dir x \<noteq> d \<Longrightarrow> ep_dir d (snd (pool_step C x pool)) = ep_dir d pool"
  by (cases x) (auto simp: ep_next_nonce_def ep_absorb_def dp_next_nonce_def Let_def)

lemma pool_step_same_dir:
  "ep_dir (op_dir x) pool = ep_dir (op_dir x) pool' \<Longrightarrow>
    ep_dir (op_dir x) (snd (pool_step C x pool)) = ep_dir (op_dir x) (snd (pool_step C x pool'))"
  by (cases x) (auto simp: ep_next_nonce_def ep_absorb_def dp_next_nonce_def Let_def)

lemma snd_pool_run_Cons:
  "snd (pool_run C (x # xs) pool) = snd (pool_run C xs (snd (pool_step C x pool)))"
  by (simp add: case_prod_beta)

lemma fst_pool_run_Cons:
  "fst (pool_run C (x # xs) pool) =
    fst (pool_step C x pool) @ fst (pool_run C xs (snd (pool_step C x pool)))"
  by (simp add: case_prod_beta)

lemma pool_run_dir_filter:
  "ep_dir d pool = ep_dir d pool' \<Longrightarrow>
    ep_dir d (snd (pool_run C xs pool)) =
    ep_dir d (snd (pool_run C (filter (\<lambda>x. op_dir x = d) xs) pool'))"
proof (induction xs arbitrary: pool pool')
  case Nil
  then show ?case by simp
next
  case (Cons x xs)
  then show ?case
    using pool_step_other_dir [of x d C pool] pool_step_same_dir [of x pool pool' C]
    by (cases "op_dir x = d") (auto simp: snd_pool_run_Cons simp del: pool_run.simps(2))
qed


section \<open>What the nonces are squeezed from\<close>

text \<open>
  With the documented view of the hasher: every draw of direction \<open>d\<close> uses an input that
  starts with the direction's label and the ConnMeta nonce and ends with the counter.
\<close>

definition draw_input :: "direction \<Rightarrow> bytes \<Rightarrow> bytes \<Rightarrow> nat \<Rightarrow> bytes" where
  "draw_input d seed mid n = dir_label d @ seed @ mid @ u64_to_be_bytes (word_of_nat n)"

lemma draw_input_inject:
  assumes "draw_input d seed mid n = draw_input d' seed' mid' n'"
    and "length seed = length seed'" "n < 2 ^ 64" "n' < 2 ^ 64"
  shows "d = d' \<and> seed = seed' \<and> n = n'"
proof -
  from assms(1) have "dir_label d = dir_label d'"
    and rest: "seed @ mid @ u64_to_be_bytes (word_of_nat n) = seed' @ mid' @ u64_to_be_bytes (word_of_nat n')"
    unfolding draw_input_def by (auto dest!: append_prefix_eq)
  moreover from append_prefix_eq [OF rest assms(2)] have "seed = seed'" ..
  moreover from rest have
    "(seed @ mid) @ u64_to_be_bytes (word_of_nat n) = (seed' @ mid') @ u64_to_be_bytes (word_of_nat n')"
    by simp
  then have "u64_to_be_bytes (word_of_nat n) = u64_to_be_bytes (word_of_nat n')"
    by (rule append_suffix_eq) simp
  then have "(word_of_nat n :: u64) = word_of_nat n'" by simp
  then have "n = n'"
    using assms(3,4) by (simp add: word_of_nat_eq_iff take_bit_eq_mod)
  ultimately show ?thesis by simp
qed

definition draws :: "direction \<Rightarrow> pool_op list \<Rightarrow> nat" where
  "draws d xs = length (filter (\<lambda>x. x = Draw d) xs)"

text \<open>
  The state of one direction as the hasher's view shows it: \<open>n\<close> nonces drawn, \<open>mid\<close> absorbed
  after the seed.
\<close>

definition dir_view ::
    "('h \<Rightarrow> bytes option \<times> bytes) \<Rightarrow> bytes \<Rightarrow> direction \<Rightarrow> bytes \<Rightarrow> nat \<Rightarrow> 'h dir_pool \<Rightarrow> bool" where
  "dir_view view key d seed n p \<longleftrightarrow> dp_counter p = word_of_nat n \<and>
     (\<exists>mid. view (dp_state p) = (Some key, dir_label d @ seed @ mid))"

lemma dir_view_new: "hasher_ok C view \<Longrightarrow> dir_view view key d seed 0 (dp_new C key d seed)"
  by (simp add: dir_view_def dp_new_def hasher_ok_def Let_def)

lemma dir_view_step:
  assumes "hasher_ok C view" and "\<forall>d. dir_view view key d seed (n d) (ep_dir d pool)"
  shows "dir_view view key d seed (n d + draws d [x]) (ep_dir d (snd (pool_step C x pool)))"
proof (cases x)
  case (Draw d')
  then show ?thesis
    using assms(2) [rule_format, of d]
    by (auto simp: draws_def ep_next_nonce_def dp_next_nonce_def dir_view_def)
next
  case (Absorb d' ct)
  then show ?thesis
    using assms(1) assms(2) [rule_format, of d]
    by (auto simp: draws_def ep_absorb_def dp_absorb_def dir_view_def hasher_ok_def)
qed

lemma draws_Cons: "draws d (x # xs) = draws d [x] + draws d xs"
  by (simp add: draws_def)

text \<open>
  \<open>h\<close> is the hasher of a draw numbered between \<open>lo\<close> and \<open>hi\<close> in its direction.
\<close>

definition drawn_between ::
    "('h \<Rightarrow> bytes option \<times> bytes) \<Rightarrow> bytes \<Rightarrow> bytes \<Rightarrow> (direction \<Rightarrow> nat) \<Rightarrow> (direction \<Rightarrow> nat) \<Rightarrow>
      'h \<Rightarrow> bool" where
  "drawn_between view key seed lo hi h \<longleftrightarrow>
     (\<exists>d mid k. lo d \<le> k \<and> k < hi d \<and> view h = (Some key, draw_input d seed mid k))"

lemma drawn_between_mono:
  "drawn_between view key seed lo hi h \<Longrightarrow> (\<And>d. lo' d \<le> lo d) \<Longrightarrow> (\<And>d. hi d \<le> hi' d) \<Longrightarrow>
    drawn_between view key seed lo' hi' h"
  unfolding drawn_between_def by (meson le_trans less_le_trans)

lemma nonce_hasher_drawn:
  "hasher_ok C view \<Longrightarrow> dir_view view key d seed k p \<Longrightarrow>
    \<exists>mid. view (nonce_hasher C p) = (Some key, draw_input d seed mid k)"
  by (auto simp: nonce_hasher_def dir_view_def hasher_ok_def draw_input_def)

lemma later_draw_differs:
  assumes "view h = (Some key, draw_input d seed mid k)" and "k < 2 ^ 64"
    and "drawn_between view key seed lo hi h'" and "k < lo d" and "\<forall>d. hi d \<le> 2 ^ 64"
  shows "view h' \<noteq> view h"
proof
  assume eq: "view h' = view h"
  from assms(3) obtain d' mid' k' where k': "lo d' \<le> k'" "k' < hi d'"
      "view h' = (Some key, draw_input d' seed mid' k')"
    by (auto simp: drawn_between_def)
  with assms(5) have "k' < 2 ^ 64"
    by (meson less_le_trans)
  with k'(3) eq assms(1,2) have "d' = d \<and> k' = k"
    using draw_input_inject [of d' seed mid' k' d seed mid k] by simp
  with k'(1) assms(4) show False by simp
qed

lemma pool_run_Draw:
  "fst (pool_run C (Draw d # xs) pool) =
    (let h = nonce_hasher C (ep_dir d pool) in
     (h, b3_finalize_xof C h NONCE_LEN) # fst (pool_run C xs (snd (pool_step C (Draw d) pool))))"
  by (simp add: fst_pool_run_Cons ep_next_nonce_def dp_next_nonce_def Let_def del: pool_run.simps(2))

text \<open>Each nonce of a run comes from an input of that form, numbered by its draw.\<close>

lemma pool_run_inputs:
  assumes "hasher_ok C view" and "\<forall>d. dir_view view key d seed (n d) (ep_dir d pool)"
    and "\<forall>d. n d + draws d xs \<le> 2 ^ 64"
  shows "distinct (map (\<lambda>(h, _). view h) (fst (pool_run C xs pool))) \<and>
    (\<forall>(h, nonce) \<in> set (fst (pool_run C xs pool)). nonce = b3_finalize_xof C h NONCE_LEN \<and>
      drawn_between view key seed n (\<lambda>d. n d + draws d xs) h)"
  using assms(2,3)
proof (induction xs arbitrary: n pool)
  case Nil
  then show ?case by simp
next
  case (Cons x xs)
  let ?pool = "snd (pool_step C x pool)" and ?n = "\<lambda>d. n d + draws d [x]"
  have bound': "\<forall>d. ?n d + draws d xs \<le> 2 ^ 64"
    using Cons.prems(2) by (simp add: draws_Cons [of _ x xs] add.assoc)
  have "\<forall>d. dir_view view key d seed (?n d) (ep_dir d ?pool)"
    using dir_view_step [OF assms(1) Cons.prems(1)] by blast
  from Cons.IH [OF this bound']
  have IH: "distinct (map (\<lambda>(h, _). view h) (fst (pool_run C xs ?pool)))"
    and after: "\<And>h nonce. (h, nonce) \<in> set (fst (pool_run C xs ?pool)) \<Longrightarrow>
      nonce = b3_finalize_xof C h NONCE_LEN \<and>
      drawn_between view key seed ?n (\<lambda>d. ?n d + draws d xs) h"
    by auto
  have later: "nonce = b3_finalize_xof C h NONCE_LEN \<and>
      drawn_between view key seed n (\<lambda>d. n d + draws d (x # xs)) h"
    if "(h, nonce) \<in> set (fst (pool_run C xs ?pool))" for h nonce
    using after [OF that] by (auto elim!: drawn_between_mono simp: draws_Cons [of _ x xs])
  show ?case
  proof (cases x)
    case (Absorb d ct)
    then show ?thesis
      using IH later by (auto simp: fst_pool_run_Cons simp del: pool_run.simps(2))
  next
    case (Draw d)
    let ?h = "nonce_hasher C (ep_dir d pool)"
    have lt: "n d < n d + draws d (x # xs)" "n d < ?n d"
      using Draw by (simp_all add: draws_def)
    obtain mid where h: "view ?h = (Some key, draw_input d seed mid (n d))"
      using nonce_hasher_drawn [OF assms(1)] Cons.prems(1) by blast
    have fresh: "view h \<noteq> view ?h" if "(h, nonce) \<in> set (fst (pool_run C xs ?pool))" for h nonce
      using later_draw_differs [OF h _ after [OF that, THEN conjunct2] lt(2) bound']
        lt(1) Cons.prems(2) by (meson less_le_trans)
    then have "view ?h \<notin> (\<lambda>(h, _). view h) ` set (fst (pool_run C xs ?pool))"
      by (force dest: fresh)
    moreover have "drawn_between view key seed n (\<lambda>d. n d + draws d (x # xs)) ?h"
      using h lt unfolding drawn_between_def by blast
    ultimately show ?thesis
      using IH later by (auto simp: Draw pool_run_Draw Let_def simp del: pool_run.simps(2) pool_step.simps)
  qed
qed


section \<open>Properties\<close>

text \<open>
  C23. In one session no two record nonces, of either direction, are squeezed from the same XOF
  input, however draws and absorbs interleave, as long as no direction draws more than
  \<open>2 ^ 64\<close> nonces; every nonce is the first \<open>NONCE_LEN\<close> bytes of the XOF of its input. So two
  equal nonces under one pool key would be a collision of the keyed XOF.
\<close>

theorem session_nonce_inputs_distinct:
  assumes "hasher_ok C view" and "\<forall>d. draws d xs \<le> 2 ^ 64"
  shows "distinct (map (\<lambda>(h, _). view h) (fst (pool_run C xs (ep_new C key seed)))) \<and>
    (\<forall>(h, nonce) \<in> set (fst (pool_run C xs (ep_new C key seed))).
      nonce = b3_finalize_xof C h NONCE_LEN)"
  using pool_run_inputs [of C view key seed "\<lambda>_. 0" "ep_new C key seed" xs] assms
  by (auto simp: dir_view_new)

theorem session_nonce_inputs_distinct_witness:
  "let xs = [Draw ClientToServer, Absorb ClientToServer [1], Draw ServerToClient, Draw ClientToServer];
       run = fst (pool_run sample_crates xs (ep_new sample_crates (replicate 32 0x42) (replicate 32 0x7F)))
   in distinct (map (\<lambda>(h, _). h) run) \<and> length run = 3"
proof -
  let ?xs = "[Draw ClientToServer, Absorb ClientToServer [1], Draw ServerToClient, Draw ClientToServer]"
  have "\<forall>d. draws d ?xs \<le> 2 ^ 64"
    using length_filter_le [of _ ?xs] unfolding draws_def by (auto intro: order_trans)
  from session_nonce_inputs_distinct [OF sample_hasher_ok this, of "replicate 32 0x42" "replicate 32 0x7F"]
  show ?thesis
    by (simp add: Let_def case_prod_beta)
qed

text \<open>
  C35. Sessions with different pool keys or different ConnMeta nonces never squeeze a record
  nonce from the same XOF key and input.
\<close>

theorem sessions_nonce_inputs_disjoint:
  assumes "hasher_ok C view" and "(key, seed) \<noteq> (key', seed')" and "length seed = length seed'"
    and "\<forall>d. draws d xs \<le> 2 ^ 64" and "\<forall>d. draws d ys \<le> 2 ^ 64"
    and "(h, nonce) \<in> set (fst (pool_run C xs (ep_new C key seed)))"
    and "(h', nonce') \<in> set (fst (pool_run C ys (ep_new C key' seed')))"
  shows "view h \<noteq> view h'"
proof -
  have "drawn_between view key seed (\<lambda>_. 0) (\<lambda>d. draws d xs) h"
    using pool_run_inputs [of C view key seed "\<lambda>_. 0" "ep_new C key seed" xs] assms(1,4,6)
    by (auto simp: dir_view_new)
  moreover have "drawn_between view key' seed' (\<lambda>_. 0) (\<lambda>d. draws d ys) h'"
    using pool_run_inputs [of C view key' seed' "\<lambda>_. 0" "ep_new C key' seed'" ys] assms(1,5,7)
    by (auto simp: dir_view_new)
  ultimately obtain d mid k d' mid' k' where
      "k < draws d xs" "view h = (Some key, draw_input d seed mid k)"
      "k' < draws d' ys" "view h' = (Some key', draw_input d' seed' mid' k')"
    by (auto simp: drawn_between_def)
  moreover from this assms(4,5) have "k < 2 ^ 64" "k' < 2 ^ 64"
    by (meson less_le_trans)+
  ultimately show ?thesis
    using assms(2,3) draw_input_inject [of d seed mid k d' seed' mid' k'] by auto
qed

theorem sessions_nonce_inputs_disjoint_witness:
  "nonce_hasher sample_crates (ep_dir ClientToServer (ep_new sample_crates (replicate 32 0x42) (replicate 32 1)))
   \<noteq> nonce_hasher sample_crates (ep_dir ClientToServer (ep_new sample_crates (replicate 32 0x42) (replicate 32 2)))"
proof -
  have d: "\<forall>d. draws d [Draw ClientToServer] \<le> 2 ^ 64"
    using length_filter_le [of _ "[Draw ClientToServer]"] unfolding draws_def by (auto intro: order_trans)
  have "replicate 32 (1 :: u8) \<noteq> replicate 32 2"
    by (simp add: replicate_eq_replicate)
  from sessions_nonce_inputs_disjoint [OF sample_hasher_ok _ _ d d, of "replicate 32 0x42" "replicate 32 1"
      "replicate 32 0x42" "replicate 32 2"] this
  show ?thesis
    by (simp add: pool_run_Draw Let_def del: pool_run.simps(2))
qed

text \<open>
  The two directions are independent: after any interleaving of operations the state of a
  direction is the one its own operations produce, so two peers whose pools start from the same
  key and nonce agree on a direction whenever they performed the same operations on it, in
  whatever order these were mixed with the other direction's.
\<close>

theorem pool_directions_independent:
  assumes "filter (\<lambda>x. op_dir x = d) xs = filter (\<lambda>x. op_dir x = d) ys"
  shows "ep_dir d (snd (pool_run C xs (ep_new C key seed))) =
    ep_dir d (snd (pool_run C ys (ep_new C key seed)))"
  using pool_run_dir_filter [of d "ep_new C key seed" "ep_new C key seed" C xs]
    pool_run_dir_filter [of d "ep_new C key seed" "ep_new C key seed" C ys] assms
  by simp

theorem pool_directions_independent_witness:
  "ep_dir ClientToServer (snd (pool_run sample_crates
     [Draw ClientToServer, Draw ServerToClient, Absorb ClientToServer [1]] (ep_new sample_crates [] []))) =
   ep_dir ClientToServer (snd (pool_run sample_crates
     [Draw ServerToClient, Absorb ServerToClient [9], Draw ClientToServer, Absorb ClientToServer [1]]
     (ep_new sample_crates [] [])))"
  by (rule pool_directions_independent) simp

end
