(* ===== verification/Record_Layer.thy ===== *)
theory Record_Layer
  imports Pool
begin

text \<open>
  The key schedule of \<open>ort-core/src/kdf.rs\<close> and the AEAD record layer of
  \<open>ort-core/src/record.rs\<close>. The locale \<open>record_channel\<close> is the contract between the record
  layer and the code that moves records (handshake and forwarding); it is interpreted here on
  the record layer over the v1 suite.
\<close>

section \<open>Key schedule\<close>

definition INFO_ENC_KEY :: bytes where
  "INFO_ENC_KEY = ascii ''ORT-v1 enc-key''"

definition INFO_POOL_KEY :: bytes where
  "INFO_POOL_KEY = ascii ''ORT-v1 pool-key''"

record session_keys =
  enc_key :: bytes
  pool_key :: bytes

definition derive_session_keys ::
    "('ks, 'ss) cipher_suite \<Rightarrow> bytes \<Rightarrow> bytes \<Rightarrow> (session_keys, core_error) result" where
  "derive_session_keys S k_sk ciphertext =
     (let salt = hash256 S ciphertext in
      bind_result (hkdf S k_sk salt INFO_ENC_KEY (replicate 32 0)) (\<lambda>enc_key.
      bind_result (hkdf S k_sk salt INFO_POOL_KEY (replicate 32 0)) (\<lambda>pool_key.
        Ok \<lparr>enc_key = enc_key, pool_key = pool_key\<rparr>)))"


section \<open>Records\<close>

definition RECORD_AAD_LABEL :: bytes where
  "RECORD_AAD_LABEL = ascii ''ORT-v1 rec''"

definition record_aad :: "direction \<Rightarrow> u64 \<Rightarrow> (bytes, core_error) result" where
  "record_aad dir counter =
     (let aad = replicate 19 0 in
      bind_result (copy_into aad 0 10 RECORD_AAD_LABEL) (\<lambda>aad.
      let aad = aad[10 := dir_code dir] in
      copy_into aad 11 (length aad) (u64_to_be_bytes counter)))"

record 'h record_layer =
  rl_keys :: session_keys
  rl_pool :: "'h entropy_pool"

definition rl_new ::
    "('dk, 'ek, 'sk, 'vk, 'sg, 'h) crates \<Rightarrow> session_keys \<Rightarrow> bytes \<Rightarrow> 'h record_layer" where
  "rl_new C keys connmeta_nonce =
     (let pool = ep_new C (pool_key keys) connmeta_nonce in \<lparr>rl_keys = keys, rl_pool = pool\<rparr>)"

definition rl_seal ::
    "('dk, 'ek, 'sk, 'vk, 'sg, 'h) crates \<Rightarrow> ('ks, 'ss) cipher_suite \<Rightarrow> direction \<Rightarrow> bytes \<Rightarrow>
      (bytes, core_error, 'h record_layer) sm" where
  "rl_seal C S dir plaintext rl =
     (let counter = ep_counter dir (rl_pool rl);
          (nonce, pool) = ep_next_nonce C dir (rl_pool rl);
          rl = rl\<lparr>rl_pool := pool\<rparr>
      in sbind (slift (record_aad dir counter)) (\<lambda>aad.
         sbind (slift (aead_seal S (enc_key (rl_keys rl)) nonce aad plaintext)) (\<lambda>ct rl.
           (Ok ct, rl\<lparr>rl_pool := ep_absorb C dir ct (rl_pool rl)\<rparr>))) rl)"

text \<open>When authentication fails the nonce has been drawn but nothing is absorbed.\<close>

definition rl_open ::
    "('dk, 'ek, 'sk, 'vk, 'sg, 'h) crates \<Rightarrow> ('ks, 'ss) cipher_suite \<Rightarrow> direction \<Rightarrow> bytes \<Rightarrow>
      (bytes, core_error, 'h record_layer) sm" where
  "rl_open C S dir ciphertext rl =
     (let counter = ep_counter dir (rl_pool rl);
          (nonce, pool) = ep_next_nonce C dir (rl_pool rl);
          rl = rl\<lparr>rl_pool := pool\<rparr>
      in sbind (slift (record_aad dir counter)) (\<lambda>aad.
         sbind (slift (aead_open S (enc_key (rl_keys rl)) nonce aad ciphertext)) (\<lambda>pt rl.
           (Ok pt, rl\<lparr>rl_pool := ep_absorb C dir ciphertext (rl_pool rl)\<rparr>))) rl)"

definition enc_key_hash :: "('ks, 'ss) cipher_suite \<Rightarrow> 'h record_layer \<Rightarrow> bytes" where
  "enc_key_hash S rl = hash512 S (enc_key (rl_keys rl))"


section \<open>Lemmas on keys and associated data\<close>

lemma record_aad_eq:
  "record_aad dir counter = Ok (RECORD_AAD_LABEL @ dir_code dir # u64_to_be_bytes counter)"
proof -
  have "(drop 10 (replicate 19 0))[0 := dir_code dir] = dir_code dir # replicate 8 (0 :: u8)"
    by (simp add: numeral_eq_Suc)
  then show ?thesis
    by (simp add: record_aad_def copy_into_def RECORD_AAD_LABEL_def list_update_append Let_def)
qed

context suite_contract
begin

lemma derive_total:
  assumes lawful
  shows "\<exists>keys. derive_session_keys S k_sk ct = Ok keys \<and> length (enc_key keys) = 32 \<and>
    length (pool_key keys) = 32"
proof -
  from hkdf_total [OF assms, of "replicate 32 0"]
  have "\<exists>okm. hkdf S k_sk (hash256 S ct) info (replicate 32 0) = Ok okm \<and> length okm = 32" for info
    by simp
  then obtain a b where
      "hkdf S k_sk (hash256 S ct) INFO_ENC_KEY (replicate 32 0) = Ok a" "length a = 32"
      "hkdf S k_sk (hash256 S ct) INFO_POOL_KEY (replicate 32 0) = Ok b" "length b = 32"
    by meson
  then show ?thesis
    by (simp add: derive_session_keys_def)
qed

end


section \<open>The contract of a record channel\<close>

text \<open>
  \<open>same d a b\<close>: the two endpoint states agree on direction \<open>d\<close>. A record sealed by one of two
  endpoints that agree is opened by the other, which leaves them in agreement; operations on
  one direction do not touch the other; opening depends on the direction's state alone.
\<close>

locale record_channel =
  fixes seal :: "direction \<Rightarrow> bytes \<Rightarrow> (bytes, 'e, 's) sm"
    and opn :: "direction \<Rightarrow> bytes \<Rightarrow> (bytes, 'e, 's) sm"
    and same :: "direction \<Rightarrow> 's \<Rightarrow> 's \<Rightarrow> bool"
    and valid :: "'s \<Rightarrow> bool"
    and fits :: "bytes \<Rightarrow> bool"
  assumes same_refl: "same d a a"
    and same_sym: "same d a b \<Longrightarrow> same d b a"
    and same_trans: "same d a b \<Longrightarrow> same d b c \<Longrightarrow> same d a c"
    and transfer: "valid a \<Longrightarrow> same d a b \<Longrightarrow> fits pt \<Longrightarrow>
      \<exists>ct a' b'. seal d pt a = (Ok ct, a') \<and> opn d ct b = (Ok pt, b') \<and> same d a' b' \<and>
        length ct = length pt + 16"
    and open_cong: "same d a b \<Longrightarrow> fst (opn d ct a) = fst (opn d ct b) \<and>
      same d (snd (opn d ct a)) (snd (opn d ct b))"
    and seal_frame: "d \<noteq> d' \<Longrightarrow> same d' (snd (seal d pt a)) a"
    and open_frame: "d \<noteq> d' \<Longrightarrow> same d' (snd (opn d ct a)) a"
    and valid_seal: "valid a \<Longrightarrow> valid (snd (seal d pt a))"
    and valid_open: "valid a \<Longrightarrow> valid (snd (opn d ct a))"
begin

text \<open>
  Records in flight: opening the queued ciphertexts in order yields their plaintexts and
  brings the receiver level with the sender.
\<close>

fun in_flight :: "direction \<Rightarrow> 's \<Rightarrow> 's \<Rightarrow> (bytes \<times> bytes) list \<Rightarrow> bool" where
  "in_flight d a b [] \<longleftrightarrow> same d a b"
| "in_flight d a b ((ct, pt) # q) \<longleftrightarrow>
     fst (opn d ct b) = Ok pt \<and> in_flight d a (snd (opn d ct b)) q"

lemma in_flight_receiver_cong: "in_flight d a b q \<Longrightarrow> same d b b' \<Longrightarrow> in_flight d a b' q"
proof (induction q arbitrary: b b')
  case Nil
  then show ?case
    using same_trans [OF _ Nil.prems(2)] by simp
next
  case (Cons x q)
  obtain ct pt where x: "x = (ct, pt)" by fastforce
  with Cons show ?case
    using open_cong [OF Cons.prems(2), of ct] by auto
qed

lemma in_flight_sender_cong: "in_flight d a b q \<Longrightarrow> same d a a' \<Longrightarrow> in_flight d a' b q"
proof (induction q arbitrary: b)
  case Nil
  then show ?case
    using same_trans [OF same_sym [OF Nil.prems(2)]] by simp
next
  case (Cons x q)
  then show ?case by (cases x) auto
qed

lemma in_flight_send:
  assumes "in_flight d a b q" and "valid a" and "fits pt"
  shows "\<exists>ct a'. seal d pt a = (Ok ct, a') \<and> in_flight d a' b (q @ [(ct, pt)]) \<and>
    length ct = length pt + 16"
  using assms(1)
proof (induction q arbitrary: b)
  case Nil
  with transfer [OF assms(2) _ assms(3), of d b] show ?case by auto
next
  case (Cons x q)
  obtain ct pt' where x: "x = (ct, pt')" by fastforce
  with Cons show ?case by auto
qed

lemma in_flight_recv:
  "in_flight d a b ((ct, pt) # q) \<Longrightarrow> \<exists>b'. opn d ct b = (Ok pt, b') \<and> in_flight d a b' q"
  by (cases "opn d ct b") auto

text \<open>Work on the other direction leaves the records in flight as they are.\<close>

lemma in_flight_frame:
  assumes "in_flight d a b q" and "d \<noteq> d'"
  shows "in_flight d (snd (seal d' pt a)) b q" "in_flight d (snd (opn d' ct a)) b q"
    "in_flight d a (snd (seal d' pt b)) q" "in_flight d a (snd (opn d' ct b)) q"
  using in_flight_sender_cong [OF assms(1)] in_flight_receiver_cong [OF assms(1)]
    same_sym [OF seal_frame [OF assms(2) [symmetric]]]
    same_sym [OF open_frame [OF assms(2) [symmetric]]]
  by blast+

end


section \<open>The record layer is such a channel\<close>

definition rl_same :: "direction \<Rightarrow> 'h record_layer \<Rightarrow> 'h record_layer \<Rightarrow> bool" where
  "rl_same d a b \<longleftrightarrow> rl_keys a = rl_keys b \<and> ep_dir d (rl_pool a) = ep_dir d (rl_pool b)"

definition rl_valid ::
    "('dk, 'ek, 'sk, 'vk, 'sg, 'h) crates \<Rightarrow> 'h record_layer \<Rightarrow> bool" where
  "rl_valid C rl \<longleftrightarrow> crates_ok C \<and> length (enc_key (rl_keys rl)) = 32"

text \<open>The limit of the AEAD implementation on one plaintext.\<close>

definition rl_fits :: "bytes \<Rightarrow> bool" where
  "rl_fits pt \<longleftrightarrow> length pt \<le> 2 ^ 36"

text \<open>Both operations, over the one direction they work on.\<close>

definition rl_nonce :: "('dk, 'ek, 'sk, 'vk, 'sg, 'h) crates \<Rightarrow> direction \<Rightarrow> 'h record_layer \<Rightarrow> bytes" where
  "rl_nonce C d rl = b3_finalize_xof C (nonce_hasher C (ep_dir d (rl_pool rl))) NONCE_LEN"

definition rl_aad :: "direction \<Rightarrow> 'h record_layer \<Rightarrow> bytes" where
  "rl_aad d rl = RECORD_AAD_LABEL @ dir_code d # u64_to_be_bytes (dp_counter (ep_dir d (rl_pool rl)))"

definition rl_drawn :: "direction \<Rightarrow> 'h record_layer \<Rightarrow> 'h record_layer" where
  "rl_drawn d rl = rl\<lparr>rl_pool := ep_set_dir d
     (ep_dir d (rl_pool rl)\<lparr>dp_counter := dp_counter (ep_dir d (rl_pool rl)) + 1\<rparr>) (rl_pool rl)\<rparr>"

definition rl_absorbed ::
    "('dk, 'ek, 'sk, 'vk, 'sg, 'h) crates \<Rightarrow> direction \<Rightarrow> bytes \<Rightarrow> 'h record_layer \<Rightarrow> 'h record_layer" where
  "rl_absorbed C d ct rl = rl\<lparr>rl_pool := ep_absorb C d ct (rl_pool rl)\<rparr>"

lemma rl_seal_eq:
  "rl_seal C S d pt rl =
    (case aead_seal S (enc_key (rl_keys rl)) (rl_nonce C d rl) (rl_aad d rl) pt of
       Ok ct \<Rightarrow> (Ok ct, rl_absorbed C d ct (rl_drawn d rl))
     | Err e \<Rightarrow> (Err e, rl_drawn d rl)
     | Panic \<Rightarrow> (Panic, rl_drawn d rl))"
  by (simp add: rl_seal_def ep_next_nonce_def dp_next_nonce_def record_aad_eq ep_counter_dir
      rl_nonce_def rl_aad_def rl_drawn_def rl_absorbed_def sbind_def Let_def split: result.split)

lemma rl_open_eq:
  "rl_open C S d ct rl =
    (case aead_open S (enc_key (rl_keys rl)) (rl_nonce C d rl) (rl_aad d rl) ct of
       Ok pt \<Rightarrow> (Ok pt, rl_absorbed C d ct (rl_drawn d rl))
     | Err e \<Rightarrow> (Err e, rl_drawn d rl)
     | Panic \<Rightarrow> (Panic, rl_drawn d rl))"
  by (simp add: rl_open_def ep_next_nonce_def dp_next_nonce_def record_aad_eq ep_counter_dir
      rl_nonce_def rl_aad_def rl_drawn_def rl_absorbed_def sbind_def Let_def split: result.split)

lemma rl_keys_steps [simp]:
  "rl_keys (rl_drawn d rl) = rl_keys rl" "rl_keys (rl_absorbed C d ct rl) = rl_keys rl"
  by (simp_all add: rl_drawn_def rl_absorbed_def)

lemma rl_same_nonce_aad:
  "rl_same d a b \<Longrightarrow> rl_nonce C d a = rl_nonce C d b \<and> rl_aad d a = rl_aad d b"
  by (simp add: rl_same_def rl_nonce_def rl_aad_def)

lemma rl_same_steps:
  "rl_same d a b \<Longrightarrow> rl_same d (rl_drawn d a) (rl_drawn d b)"
  "rl_same d a b \<Longrightarrow>
    rl_same d (rl_absorbed C d ct (rl_drawn d a)) (rl_absorbed C d ct (rl_drawn d b))"
  "d \<noteq> d' \<Longrightarrow> rl_same d' (rl_drawn d a) a"
  "d \<noteq> d' \<Longrightarrow> rl_same d' (rl_absorbed C d ct (rl_drawn d a)) a"
  by (simp_all add: rl_same_def rl_drawn_def rl_absorbed_def ep_absorb_def)

lemma rl_transfer:
  assumes "rl_valid C a" and "rl_same d a b" and "rl_fits pt"
  shows "\<exists>ct a' b'. rl_seal C (V1 C) d pt a = (Ok ct, a') \<and> rl_open C (V1 C) d ct b = (Ok pt, b') \<and>
    rl_same d a' b' \<and> length ct = length pt + 16"
proof -
  have "length (rl_nonce C d a) = 12"
    using assms(1) by (simp add: rl_nonce_def rl_valid_def crates_ok_def hashes_ok_def NONCE_LEN_def)
  moreover have "length (rl_aad d a) \<le> 2 ^ 36"
    by (simp add: rl_aad_def RECORD_AAD_LABEL_def)
  ultimately obtain ct where
      "aead_seal (V1 C) (enc_key (rl_keys a)) (rl_nonce C d a) (rl_aad d a) pt = Ok ct"
      "aead_open (V1 C) (enc_key (rl_keys a)) (rl_nonce C d a) (rl_aad d a) ct = Ok pt"
      "length ct = length pt + 16"
    using v1.aead_roundtrip assms(1,3) unfolding rl_valid_def rl_fits_def by blast
  moreover have "rl_keys a = rl_keys b"
    using assms(2) by (simp add: rl_same_def)
  ultimately show ?thesis
    using rl_same_nonce_aad [OF assms(2), of C]
    by (simp add: rl_seal_eq rl_open_eq rl_same_steps(1,2) [OF assms(2)])
qed

lemma rl_open_cong:
  assumes "rl_same d a b"
  shows "fst (rl_open C S d ct a) = fst (rl_open C S d ct b) \<and>
    rl_same d (snd (rl_open C S d ct a)) (snd (rl_open C S d ct b))"
proof -
  from assms have "rl_keys a = rl_keys b" by (simp add: rl_same_def)
  then show ?thesis
    using rl_same_nonce_aad [OF assms, of C]
    by (simp add: rl_open_eq rl_same_steps(1,2) [OF assms] split: result.split)
qed

lemma rl_frame:
  "d \<noteq> d' \<Longrightarrow> rl_same d' (snd (rl_seal C S d pt a)) a"
  "d \<noteq> d' \<Longrightarrow> rl_same d' (snd (rl_open C S d ct a)) a"
  by (simp_all add: rl_seal_eq rl_open_eq rl_same_steps split: result.split)

lemma rl_keys_kept:
  "rl_keys (snd (rl_seal C S d pt a)) = rl_keys a" "rl_keys (snd (rl_open C S d ct a)) = rl_keys a"
  by (simp_all add: rl_seal_eq rl_open_eq split: result.split)

interpretation rl: record_channel "rl_seal C (V1 C)" "rl_open C (V1 C)" rl_same "rl_valid C" rl_fits
  for C
proof (unfold_locales, goal_cases)
  case (4 a d b pt)
  then show ?case by (rule rl_transfer)
next
  case (5 d a b ct)
  then show ?case by (rule rl_open_cong)
qed (simp_all add: rl_frame rl_valid_def rl_keys_kept, simp_all add: rl_same_def)


abbreviation records_in_flight ::
    "('dk, 'ek, 'sk, 'vk, 'sg, 'h) crates \<Rightarrow> direction \<Rightarrow> 'h record_layer \<Rightarrow> 'h record_layer \<Rightarrow>
      (bytes \<times> bytes) list \<Rightarrow> bool" where
  "records_in_flight C \<equiv> record_channel.in_flight (rl_open C (V1 C)) rl_same"


section \<open>Properties\<close>

text \<open>Sealing and opening a list of records in order, stopping at the first failure.\<close>

fun seal_all ::
    "('dk, 'ek, 'sk, 'vk, 'sg, 'h) crates \<Rightarrow> ('ks, 'ss) cipher_suite \<Rightarrow> direction \<Rightarrow> bytes list \<Rightarrow>
      (bytes list, core_error, 'h record_layer) sm" where
  "seal_all C S d [] = sreturn []"
| "seal_all C S d (pt # pts) =
     sbind (rl_seal C S d pt) (\<lambda>ct. sbind (seal_all C S d pts) (\<lambda>cts. sreturn (ct # cts)))"

fun open_all ::
    "('dk, 'ek, 'sk, 'vk, 'sg, 'h) crates \<Rightarrow> ('ks, 'ss) cipher_suite \<Rightarrow> direction \<Rightarrow> bytes list \<Rightarrow>
      (bytes list, core_error, 'h record_layer) sm" where
  "open_all C S d [] = sreturn []"
| "open_all C S d (ct # cts) =
     sbind (rl_open C S d ct) (\<lambda>pt. sbind (open_all C S d cts) (\<lambda>pts. sreturn (pt # pts)))"

text \<open>
  C22. Whatever the sender seals in a direction, in whatever number of records, the receiver
  that agreed with it before opens to exactly the same plaintexts in the same order, without an
  error or a panic, and the two agree again afterwards, also on the other direction if they
  agreed on it.
\<close>

theorem record_stream_roundtrip:
  assumes "rl_valid C a" and "rl_same d a b" and "\<forall>pt \<in> set pts. length pt \<le> 2 ^ 36"
  shows "\<exists>cts a' b'. seal_all C (V1 C) d pts a = (Ok cts, a') \<and> open_all C (V1 C) d cts b = (Ok pts, b') \<and>
    map length cts = map (\<lambda>pt. length pt + 16) pts \<and> rl_same d a' b' \<and>
    (rl_same (flip d) a b \<longrightarrow> rl_same (flip d) a' b')"
  using assms
proof (induction pts arbitrary: a b)
  case Nil
  then show ?case by simp
next
  case (Cons pt pts)
  from Cons.prems have "rl_fits pt" by (simp add: rl_fits_def)
  with rl.transfer [OF Cons.prems(1,2)] obtain ct a1 b1 where
      seal: "rl_seal C (V1 C) d pt a = (Ok ct, a1)" and opn: "rl_open C (V1 C) d ct b = (Ok pt, b1)"
    and same: "rl_same d a1 b1" and len: "length ct = length pt + 16" by blast
  have "rl_valid C a1"
    using rl.valid_seal [OF Cons.prems(1), of d pt] seal by simp
  from Cons.IH [OF this same] Cons.prems(3) obtain cts a2 b2 where
      "seal_all C (V1 C) d pts a1 = (Ok cts, a2)" "open_all C (V1 C) d cts b1 = (Ok pts, b2)"
      "map length cts = map (\<lambda>pt. length pt + 16) pts" "rl_same d a2 b2"
      "rl_same (flip d) a1 b1 \<longrightarrow> rl_same (flip d) a2 b2" by auto
  moreover have "rl_same (flip d) a b \<Longrightarrow> rl_same (flip d) a1 b1"
    using rl.seal_frame [of d "flip d" C pt a] rl.open_frame [of d "flip d" C ct b] seal opn
    by (auto simp: rl_same_def)
  ultimately show ?case
    using seal opn len by (auto simp: sbind_def)
qed

definition sample_layer :: "(bytes option \<times> bytes) record_layer" where
  "sample_layer = rl_new sample_crates \<lparr>enc_key = replicate 32 1, pool_key = replicate 32 2\<rparr> (replicate 32 3)"

lemma sample_layer_valid: "rl_valid sample_crates sample_layer"
  by (simp add: rl_valid_def sample_crates_ok sample_layer_def rl_new_def Let_def)

theorem record_stream_roundtrip_witness:
  "\<exists>cts a' b'. seal_all sample_crates (V1 sample_crates) ClientToServer [[1, 2], [], [3]] sample_layer = (Ok cts, a') \<and>
     open_all sample_crates (V1 sample_crates) ClientToServer cts sample_layer = (Ok [[1, 2], [], [3]], b') \<and>
     rl_same ClientToServer a' b'"
proof -
  have "rl_same ClientToServer sample_layer sample_layer" by (rule rl.same_refl)
  from record_stream_roundtrip [OF sample_layer_valid this, of "[[1, 2], [], [3]]"]
  show ?thesis by auto
qed

text \<open>
  The associated data is 19 bytes and determines direction and counter, so a record
  authenticated for one direction and sequence number carries different associated data from
  every other direction and sequence number.
\<close>

theorem record_aad_binds_direction_and_counter:
  "\<exists>aad. record_aad d c = Ok aad \<and> length aad = 19 \<and>
    (record_aad d' c' = Ok aad \<longleftrightarrow> d' = d \<and> c' = c)"
  by (auto simp: record_aad_eq RECORD_AAD_LABEL_def)

text \<open>
  C39. A record that fails authentication is rejected with the AEAD's error, and the receiver
  has then drawn one nonce in that direction and changed nothing else: keys, the other
  direction and the hasher state are as before.
\<close>

theorem rl_open_failure:
  assumes "rl_open C S d ct rl = (Err e, rl')"
  shows "rl_keys rl' = rl_keys rl \<and> ep_dir (flip d) (rl_pool rl') = ep_dir (flip d) (rl_pool rl) \<and>
    dp_state (ep_dir d (rl_pool rl')) = dp_state (ep_dir d (rl_pool rl)) \<and>
    ep_counter d (rl_pool rl') = ep_counter d (rl_pool rl) + 1"
  using assms
  by (auto simp: rl_open_eq rl_drawn_def ep_counter_dir split: result.splits)

theorem rl_open_failure_witness:
  "\<exists>rl'. rl_open sample_crates (V1 sample_crates) ServerToClient [] sample_layer = (Err AeadFailure, rl') \<and>
    ep_counter ServerToClient (rl_pool rl') = 1"
proof -
  have fails: "rl_open sample_crates (V1 sample_crates) ServerToClient [] sample_layer =
      (Err AeadFailure, rl_drawn ServerToClient sample_layer)"
    by (simp add: rl_open_eq V1_def v1_aead_open_def sample_decrypt_short)
  from rl_open_failure [OF fails] fails show ?thesis
    by (simp add: sample_layer_def rl_new_def ep_new_def dp_new_def Let_def)
qed

end
