(* ===== verification/Connmeta.thy ===== *)
theory Connmeta
  imports Sample_Crates
begin

text \<open>
  The signed connection metadata of \<open>ort-core/src/connmeta.rs\<close>.
\<close>

definition CLIENT_BINDING_LABEL :: bytes where
  "CLIENT_BINDING_LABEL = ascii ''ORT-v1 connmeta''"

record conn_meta =
  cm_src_ip :: bytes
  cm_ts_millis :: u64
  cm_nonce :: bytes

definition canonical :: "conn_meta \<Rightarrow> (bytes, core_error) result" where
  "canonical cm =
     (let out = replicate 56 0 in
      bind_result (copy_into out 0 16 (cm_src_ip cm)) (\<lambda>out.
      bind_result (copy_into out 16 24 (u64_to_be_bytes (cm_ts_millis cm))) (\<lambda>out.
        copy_into out 24 (length out) (cm_nonce cm))))"

definition client_binding_msg ::
    "('ks, 'ss) cipher_suite \<Rightarrow> conn_meta \<Rightarrow> bytes \<Rightarrow> bytes \<Rightarrow> bytes \<Rightarrow> (bytes, core_error) result" where
  "client_binding_msg S cm client_pk ciphertext enc_data =
     (let ct_hash = hash256 S ciphertext;
          ed_hash = hash256 S enc_data
      in bind_result (canonical cm) (\<lambda>can.
           Ok (CLIENT_BINDING_LABEL @ can @ client_pk @ ct_hash @ ed_hash)))"

definition sign_client_binding ::
    "('ks, 'ss) cipher_suite \<Rightarrow> 'ss \<Rightarrow> conn_meta \<Rightarrow> bytes \<Rightarrow> bytes \<Rightarrow> bytes \<Rightarrow> (bytes, core_error) result"
  where
  "sign_client_binding S sk cm client_pk ciphertext enc_data =
     bind_result (client_binding_msg S cm client_pk ciphertext enc_data) (\<lambda>msg.
       Ok (sig_sign S sk msg))"

definition verify_client_binding ::
    "('ks, 'ss) cipher_suite \<Rightarrow> bytes \<Rightarrow> conn_meta \<Rightarrow> bytes \<Rightarrow> bytes \<Rightarrow> bytes \<Rightarrow> (unit, core_error) result"
  where
  "verify_client_binding S client_pk cm ciphertext enc_data sig =
     bind_result (client_binding_msg S cm client_pk ciphertext enc_data) (\<lambda>msg.
       map_err (\<lambda>_. BadSignature) (sig_verify S client_pk msg sig))"


section \<open>The signed message\<close>

text \<open>Metadata whose array fields have their declared lengths.\<close>

definition cm_ok :: "conn_meta \<Rightarrow> bool" where
  "cm_ok cm \<longleftrightarrow> length (cm_src_ip cm) = 16 \<and> length (cm_nonce cm) = 32"

definition binding :: "('ks, 'ss) cipher_suite \<Rightarrow> conn_meta \<Rightarrow> bytes \<Rightarrow> bytes \<Rightarrow> bytes \<Rightarrow> bytes" where
  "binding S cm client_pk ct ed = CLIENT_BINDING_LABEL @
     (cm_src_ip cm @ u64_to_be_bytes (cm_ts_millis cm) @ cm_nonce cm) @
     client_pk @ hash256 S ct @ hash256 S ed"

lemma canonical_eq:
  "cm_ok cm \<Longrightarrow> canonical cm = Ok (cm_src_ip cm @ u64_to_be_bytes (cm_ts_millis cm) @ cm_nonce cm)"
  by (simp add: cm_ok_def canonical_def copy_into_def Let_def)

lemma client_binding_msg_eq:
  "cm_ok cm \<Longrightarrow> client_binding_msg S cm client_pk ct ed = Ok (binding S cm client_pk ct ed)"
  by (simp add: client_binding_msg_def canonical_eq binding_def Let_def)

lemma binding_inject:
  assumes "\<forall>d. length (hash256 S d) = 32" and "cm_ok cm" "cm_ok cm'"
    and eq: "binding S cm pk ct ed = binding S cm' pk' ct' ed'"
  shows "cm = cm' \<and> pk = pk' \<and> hash256 S ct = hash256 S ct' \<and> hash256 S ed = hash256 S ed'"
proof -
  from eq have 1: "cm_src_ip cm @ u64_to_be_bytes (cm_ts_millis cm) @ cm_nonce cm @
        pk @ hash256 S ct @ hash256 S ed =
      cm_src_ip cm' @ u64_to_be_bytes (cm_ts_millis cm') @ cm_nonce cm' @
        pk' @ hash256 S ct' @ hash256 S ed'"
    by (simp add: binding_def)
  with assms(2,3) have "cm_src_ip cm = cm_src_ip cm'" "cm_ts_millis cm = cm_ts_millis cm'"
      "cm_nonce cm = cm_nonce cm'"
    and 2: "pk @ hash256 S ct @ hash256 S ed = pk' @ hash256 S ct' @ hash256 S ed'"
    by (auto simp: cm_ok_def dest!: append_prefix_eq)
  then have "cm = cm'" by simp
  moreover from 2 have "hash256 S ct @ hash256 S ed = hash256 S ct' @ hash256 S ed'"
    by (rule append_suffix_eq) (simp add: assms(1))
  ultimately show ?thesis
    using 2 assms(1) by (auto dest!: append_prefix_eq)
qed

lemma verify_client_binding_eq:
  "cm_ok cm \<Longrightarrow> verify_client_binding S pk cm ct ed sig =
    map_err (\<lambda>_. BadSignature) (sig_verify S pk (binding S cm pk ct ed) sig)"
  by (simp add: verify_client_binding_def client_binding_msg_eq)

lemma verify_client_binding_Ok_iff:
  "cm_ok cm \<Longrightarrow> verify_client_binding S pk cm ct ed sig = Ok u \<longleftrightarrow>
    sig_verify S pk (binding S cm pk ct ed) sig = Ok ()"
  by (simp add: verify_client_binding_eq outcome_iff)

text \<open>Verification only succeeds on metadata whose arrays have their declared lengths.\<close>

lemma verify_client_binding_cm_ok:
  "verify_client_binding S pk cm ct ed sig = Ok u \<Longrightarrow> cm_ok cm"
  by (auto simp: verify_client_binding_def client_binding_msg_def canonical_def copy_into_def cm_ok_def
      outcome_iff Let_def split: if_splits)

text \<open>A signature made with the binding of the same values verifies.\<close>

context suite_contract
begin

lemma sign_verify_binding:
  assumes lawful and "cm_ok cm"
  shows "\<exists>sig. sign_client_binding S ss cm (sig_public S ss) ct ed = Ok sig \<and> length sig = SIG_LEN S \<and>
    verify_client_binding S (sig_public S ss) cm ct ed sig = Ok ()"
  using assms sig_roundtrip sig_lengths
  by (auto simp: sign_client_binding_def client_binding_msg_eq verify_client_binding_eq)

end


section \<open>Properties\<close>

text \<open>
  C31. The signed message is unambiguous: two bindings over v1 that yield the same message have
  the same source IP, timestamp, nonce and client key, and the same hashes of ciphertext and
  early data. A signature on one flight is therefore a signature on no other ConnMeta, and on
  another ciphertext or early data only through a BLAKE3 collision.
\<close>

theorem client_binding_unambiguous:
  assumes "crates_ok C" and "cm_ok cm" and "cm_ok cm'"
    and "client_binding_msg (V1 C) cm pk ct ed = client_binding_msg (V1 C) cm' pk' ct' ed'"
  shows "cm = cm' \<and> pk = pk' \<and> b3_hash C ct = b3_hash C ct' \<and> b3_hash C ed = b3_hash C ed'"
proof -
  have "\<forall>d. length (hash256 (V1 C) d) = 32"
    using v1.hash_lengths [OF assms(1)] by blast
  then have "cm = cm' \<and> pk = pk' \<and> hash256 (V1 C) ct = hash256 (V1 C) ct' \<and>
      hash256 (V1 C) ed = hash256 (V1 C) ed'"
    using assms(2-4) by (intro binding_inject) (simp_all add: client_binding_msg_eq)
  then show ?thesis by (simp add: V1_def v1_hash256_def)
qed

definition sample_cm :: conn_meta where
  "sample_cm = \<lparr>cm_src_ip = replicate 16 0, cm_ts_millis = 1000, cm_nonce = replicate 32 0xAB\<rparr>"

theorem client_binding_unambiguous_witness:
  "client_binding_msg (V1 sample_crates) sample_cm [1] [2] [3] \<noteq>
   client_binding_msg (V1 sample_crates) (sample_cm\<lparr>cm_ts_millis := 1001\<rparr>) [1] [2] [3]"
  using client_binding_unambiguous [OF sample_crates_ok, of sample_cm "sample_cm\<lparr>cm_ts_millis := 1001\<rparr>"
      "[1]" "[2]" "[3]" "[1]" "[2]" "[3]"]
  by (auto simp: cm_ok_def sample_cm_def)

end
