(* ===== verification/Replay.thy ===== *)
theory Replay
  imports Suite
begin

text \<open>
  Clocks and the timestamp window of \<open>ort-core/src/time.rs\<close>, and the replay strike cache of
  \<open>ort-core/src/replay.rs\<close>. The locale \<open>replay_guard\<close> is the contract the handshake relies on;
  it is interpreted here on the cache.
\<close>

section \<open>Clocks\<close>

text \<open>
  \<open>SystemTime::now().duration_since(UNIX_EPOCH)\<close> is the argument: \<open>None\<close> when the clock is set
  before the epoch. The milliseconds (\<open>u128\<close>) are cut to 64 bits.
\<close>

definition system_now_millis :: "nat option \<Rightarrow> u64" where
  "system_now_millis since_epoch = (case since_epoch of Some ms \<Rightarrow> word_of_nat ms | None \<Rightarrow> 0)"

record fixed_clock =
  fc_millis :: u64

definition fc_new :: "u64 \<Rightarrow> fixed_clock" where
  "fc_new millis = \<lparr>fc_millis = millis\<rparr>"

definition fc_set :: "u64 \<Rightarrow> fixed_clock \<Rightarrow> fixed_clock" where
  "fc_set millis c = c\<lparr>fc_millis := millis\<rparr>"

text \<open>\<open>fetch_add\<close> of an atomic wraps.\<close>

definition fc_advance :: "u64 \<Rightarrow> fixed_clock \<Rightarrow> fixed_clock" where
  "fc_advance delta c = c\<lparr>fc_millis := fc_millis c + delta\<rparr>"

definition fc_now_millis :: "fixed_clock \<Rightarrow> u64" where
  "fc_now_millis c = fc_millis c"


section \<open>The acceptance window\<close>

definition check_window :: "u64 \<Rightarrow> u64 \<Rightarrow> u64 \<Rightarrow> u64 \<Rightarrow> (unit, core_error) result" where
  "check_window now_ms ts_ms window_ms skew_ms =
     (if ts_ms > saturating_add now_ms skew_ms then Err StaleTimestamp
      else if saturating_sub now_ms ts_ms > window_ms then Err StaleTimestamp
      else Ok ())"

definition in_window :: "u64 \<Rightarrow> u64 \<Rightarrow> u64 \<Rightarrow> u64 \<Rightarrow> bool" where
  "in_window now ts window skew \<longleftrightarrow>
     unat ts \<le> unat now + unat skew \<and> unat now \<le> unat ts + unat window"

lemma check_window_eq:
  "check_window now ts window skew = (if in_window now ts window skew then Ok () else Err StaleTimestamp)"
proof -
  have "ts > saturating_add now skew \<longleftrightarrow> unat now + unat skew < unat ts"
    using unat_bound [of ts] by (auto simp: word_less_nat_alt unat_saturating_add)
  moreover have "saturating_sub now ts > window \<longleftrightarrow> unat ts + unat window < unat now"
    by (auto simp: word_less_nat_alt unat_saturating_sub)
  ultimately show ?thesis
    by (auto simp: check_window_def in_window_def)
qed


section \<open>The strike cache\<close>

definition replay_tag :: "('ks, 'ss) cipher_suite \<Rightarrow> bytes \<Rightarrow> bytes \<Rightarrow> bytes" where
  "replay_tag S nonce enc_data = hash256 S (nonce @ enc_data)"

text \<open>
  The hash map is an association list with distinct keys; its order is never observed.
\<close>

record strike_cache =
  sc_window_ms :: u64
  sc_entries :: "(bytes \<times> u64) list"
  sc_last_evict :: u64

definition sc_new :: "u64 \<Rightarrow> strike_cache" where
  "sc_new window_ms = \<lparr>sc_window_ms = window_ms, sc_entries = [], sc_last_evict = 0\<rparr>"

definition evict :: "u64 \<Rightarrow> strike_cache \<Rightarrow> strike_cache" where
  "evict now_ms c =
     (let cutoff = saturating_sub now_ms (sc_window_ms c)
      in c\<lparr>sc_entries := filter (\<lambda>(_, seen). seen \<ge> cutoff) (sc_entries c),
           sc_last_evict := now_ms\<rparr>)"

definition check_and_insert :: "bytes \<Rightarrow> u64 \<Rightarrow> (unit, core_error, strike_cache) sm" where
  "check_and_insert tag now_ms c =
     (let c = evict now_ms c in
      if map_of (sc_entries c) tag \<noteq> None then (Err Replayed, c)
      else (Ok (), c\<lparr>sc_entries := AList.update tag now_ms (sc_entries c)\<rparr>))"

definition sc_len :: "strike_cache \<Rightarrow> nat" where
  "sc_len c = length (sc_entries c)"

definition sc_is_empty :: "strike_cache \<Rightarrow> bool" where
  "sc_is_empty c \<longleftrightarrow> sc_entries c = []"

definition sc_ok :: "strike_cache \<Rightarrow> bool" where
  "sc_ok c \<longleftrightarrow> distinct (map fst (sc_entries c))"

definition seen_at :: "strike_cache \<Rightarrow> bytes \<Rightarrow> u64 option" where
  "seen_at c tag = map_of (sc_entries c) tag"

text \<open>\<open>t\<close> is inside the window at \<open>now\<close>: not older than \<open>window\<close>.\<close>

definition live :: "u64 \<Rightarrow> u64 \<Rightarrow> u64 \<Rightarrow> bool" where
  "live window now t \<longleftrightarrow> unat now \<le> unat t + unat window"

lemma cutoff_live: "saturating_sub now window \<le> t \<longleftrightarrow> live window now t"
  by (auto simp: live_def word_le_nat_alt unat_saturating_sub)

lemma sc_ok_evict: "sc_ok c \<Longrightarrow> sc_ok (evict now c)"
  by (auto simp: sc_ok_def evict_def Let_def intro: distinct_map_filter)

lemma seen_at_evict:
  assumes "sc_ok c"
  shows "seen_at (evict now c) tag =
    (case seen_at c tag of Some t \<Rightarrow> if live (sc_window_ms c) now t then Some t else None | None \<Rightarrow> None)"
  using assms map_of_filter_value [of "sc_entries c"]
  by (simp add: sc_ok_def seen_at_def evict_def Let_def cutoff_live split: option.split)

lemma evict_window [simp]: "sc_window_ms (evict now c) = sc_window_ms c"
  by (simp add: evict_def Let_def)

text \<open>The operation on the abstract view of the cache, a partial map from tags to times.\<close>

lemma check_and_insert_spec:
  assumes "sc_ok c"
  shows "check_and_insert tag now c =
    (case seen_at c tag of
       Some t \<Rightarrow> if live (sc_window_ms c) now t then (Err Replayed, evict now c)
         else (Ok (), (evict now c)\<lparr>sc_entries := AList.update tag now (sc_entries (evict now c))\<rparr>)
     | None \<Rightarrow> (Ok (), (evict now c)\<lparr>sc_entries := AList.update tag now (sc_entries (evict now c))\<rparr>))"
  using seen_at_evict [OF assms, of now tag]
  by (auto simp: check_and_insert_def seen_at_def Let_def split: option.splits if_splits)

lemma check_and_insert_window [simp]: "sc_window_ms (snd (check_and_insert tag now c)) = sc_window_ms c"
  by (simp add: check_and_insert_def Let_def)

lemma sc_ok_check_and_insert: "sc_ok c \<Longrightarrow> sc_ok (snd (check_and_insert tag now c))"
  using sc_ok_evict [of c now]
  by (simp add: check_and_insert_def Let_def sc_ok_def distinct_update)

lemma seen_at_insert:
  "seen_at (c\<lparr>sc_entries := AList.update tag now (sc_entries c)\<rparr>) tag' =
    (if tag' = tag then Some now else seen_at c tag')"
  by (simp add: seen_at_def update_conv)


section \<open>The contract of a replay guard\<close>

text \<open>
  \<open>seen s tag\<close> is the time at which \<open>tag\<close> was last accepted, while it is remembered. A live tag
  is refused and remembered; any other is accepted and remembered from now on; a request for
  one tag forgets no live tag.
\<close>

locale replay_guard =
  fixes check :: "bytes \<Rightarrow> u64 \<Rightarrow> (unit, core_error, 's) sm"
    and seen :: "'s \<Rightarrow> bytes \<Rightarrow> u64 option"
    and window :: "'s \<Rightarrow> u64"
    and inv :: "'s \<Rightarrow> bool"
  assumes refuse: "inv s \<Longrightarrow> seen s tag = Some t \<Longrightarrow> live (window s) now t \<Longrightarrow>
      fst (check tag now s) = Err Replayed \<and> seen (snd (check tag now s)) tag = Some t"
    and accept: "inv s \<Longrightarrow> (\<forall>t. seen s tag = Some t \<longrightarrow> \<not> live (window s) now t) \<Longrightarrow>
      fst (check tag now s) = Ok () \<and> seen (snd (check tag now s)) tag = Some now"
    and keep: "inv s \<Longrightarrow> tag' \<noteq> tag \<Longrightarrow> seen s tag' = Some t \<Longrightarrow> live (window s) now t \<Longrightarrow>
      seen (snd (check tag now s)) tag' = Some t"
    and inv_check: "inv s \<Longrightarrow> inv (snd (check tag now s))"
    and window_check: "window (snd (check tag now s)) = window s"
begin

fun run :: "(bytes \<times> u64) list \<Rightarrow> 's \<Rightarrow> 's" where
  "run [] s = s"
| "run ((tag, now) # reqs) s = run reqs (snd (check tag now s))"

lemma inv_run: "inv s \<Longrightarrow> inv (run reqs s)"
  by (induction reqs s rule: run.induct) (auto intro: inv_check)

lemma window_run: "window (run reqs s) = window s"
  by (induction reqs s rule: run.induct) (auto simp: window_check)

lemma remembered:
  assumes "inv s" "seen s tag = Some t" "\<forall>(_, now) \<in> set reqs. live (window s) now t"
  shows "seen (run reqs s) tag = Some t"
  using assms
proof (induction reqs s rule: run.induct)
  case (2 tag' now reqs s)
  have "seen (snd (check tag' now s)) tag = Some t"
    using 2(2-4) refuse [of s tag t now] keep [of s tag tag' t now] by (cases "tag = tag'") auto
  with 2 show ?case
    by (auto simp: window_check intro: inv_check)
qed simp

text \<open>
  A tag accepted at \<open>t\<close> is refused at \<open>now\<close> as long as no request in between, and not \<open>now\<close>
  itself, is later than \<open>t\<close> plus the window.
\<close>

lemma accepted_then_refused:
  assumes "inv s" "check tag t s = (Ok (), s')" "\<forall>(_, n) \<in> set reqs. live (window s) n t"
    "live (window s) now t"
  shows "fst (check tag now (run reqs s')) = Err Replayed"
proof -
  have "\<forall>t'. seen s tag = Some t' \<longrightarrow> \<not> live (window s) t t'"
    using refuse [OF assms(1), of tag] assms(2) by fastforce
  from accept [OF assms(1) this] assms(2) have "seen s' tag = Some t" by simp
  moreover have "inv s'" "window s' = window s"
    using inv_check [OF assms(1), of tag t] window_check [of tag t s] assms(2) by simp_all
  ultimately have "seen (run reqs s') tag = Some t" "inv (run reqs s')" "window (run reqs s') = window s"
    using remembered assms(3) inv_run window_run by simp_all
  then show ?thesis
    using refuse assms(4) by simp
qed

end

interpretation strikes: replay_guard check_and_insert seen_at sc_window_ms sc_ok
proof (unfold_locales, goal_cases)
  case (1 s tag t now)
  then show ?case
    by (simp add: check_and_insert_spec seen_at_evict)
next
  case (2 s tag now)
  then show ?case
    by (auto simp: check_and_insert_spec seen_at_insert split: option.splits)
next
  case (3 s tag' tag t now)
  then show ?case
    by (auto simp: check_and_insert_spec seen_at_insert seen_at_evict split: option.splits)
qed (simp_all add: sc_ok_check_and_insert)



section \<open>Properties\<close>

text \<open>
  C38. The window check, with its saturating 64-bit arithmetic, accepts a timestamp exactly when
  it is at most \<open>skew\<close> ahead of the clock and at most \<open>window\<close> behind it, as natural numbers and
  for every combination of values; otherwise it reports \<open>StaleTimestamp\<close>.
\<close>

theorem check_window_exact:
  "check_window now ts window skew =
    (if unat ts \<le> unat now + unat skew \<and> unat now \<le> unat ts + unat window
     then Ok () else Err StaleTimestamp)"
  by (simp add: check_window_eq in_window_def)

text \<open>A sequence of requests to the cache, each with the server's clock at that moment.\<close>

fun serve_all :: "(bytes \<times> u64) list \<Rightarrow> strike_cache \<Rightarrow> strike_cache" where
  "serve_all [] c = c"
| "serve_all ((tag, now) # reqs) c = serve_all reqs (snd (check_and_insert tag now c))"

lemma serve_all_run: "strikes.run reqs c = serve_all reqs c"
  by (induction reqs c rule: serve_all.induct) simp_all

lemma serve_all_append: "serve_all (xs @ ys) c = serve_all ys (serve_all xs c)"
  by (induction xs c rule: serve_all.induct) simp_all

lemma sc_ok_serve_all: "sc_ok c \<Longrightarrow> sc_ok (serve_all reqs c)"
  using strikes.inv_run [of c reqs] by (simp add: serve_all_run)

lemma window_serve_all [simp]: "sc_window_ms (serve_all reqs c) = sc_window_ms c"
  using strikes.window_run [of reqs c] by (simp add: serve_all_run)

lemma sc_ok_new [simp]: "sc_ok (sc_new w)"
  by (simp add: sc_ok_def sc_new_def)

lemma set_alist_update: "set (AList.update k v xs) \<subseteq> insert (k, v) (set xs)"
  by (induction xs) auto

lemma length_alist_update: "length (AList.update k v xs) \<le> Suc (length xs)"
  by (induction xs) auto

lemma live_check_and_insert:
  "\<forall>(k, t) \<in> set (sc_entries (snd (check_and_insert tag now c))). live (sc_window_ms c) now t"
proof -
  have "\<forall>(k, t) \<in> set (sc_entries (evict now c)). live (sc_window_ms c) now t"
    by (auto simp: evict_def Let_def cutoff_live)
  moreover have "live (sc_window_ms c) now now"
    by (simp add: live_def)
  ultimately show ?thesis
    using set_alist_update [of tag now "sc_entries (evict now c)"]
    by (auto simp: check_and_insert_def Let_def split: if_splits)
qed

text \<open>
  Every entry stems from the request that accepted it, so the cache holds at most one entry for
  each request.
\<close>

lemma entries_check_and_insert:
  "set (sc_entries (snd (check_and_insert tag now c))) \<subseteq> insert (tag, now) (set (sc_entries c))"
proof -
  have "set (sc_entries (evict now c)) \<subseteq> set (sc_entries c)"
    by (auto simp: evict_def Let_def)
  then show ?thesis
    using set_alist_update [of tag now "sc_entries (evict now c)"]
    by (auto simp: check_and_insert_def Let_def)
qed

lemma entries_serve_all:
  "set (sc_entries (serve_all reqs c)) \<subseteq> set reqs \<union> set (sc_entries c)"
proof (induction reqs c rule: serve_all.induct)
  case (2 tag now reqs c)
  then show ?case
    using entries_check_and_insert [of tag now c] by auto
qed simp

lemma sc_len_le:
  assumes "sc_ok c" "set (sc_entries c) \<subseteq> set reqs" "\<forall>(k, t) \<in> set (sc_entries c). P t"
  shows "sc_len c \<le> length (filter (\<lambda>(_, t). P t) reqs)"
proof -
  have "distinct (sc_entries c)"
    using assms(1) by (simp add: sc_ok_def distinct_map)
  then have "sc_len c = card (set (sc_entries c))"
    by (simp add: sc_len_def distinct_card)
  also have "\<dots> \<le> card (set (filter (\<lambda>(_, t). P t) reqs))"
    using assms(2,3) by (intro card_mono) auto
  also have "\<dots> \<le> length (filter (\<lambda>(_, t). P t) reqs)"
    by (rule card_length)
  finally show ?thesis .
qed

text \<open>
  Replay protection of the cache itself. A tag that \<open>check_and_insert\<close> has accepted at time
  \<open>t\<close> is refused with \<open>Replayed\<close> at \<open>now\<close>, whatever requests for whatever tags were served in
  between and in whatever order their clock readings came, as long as none of these readings is
  more than the window after \<open>t\<close>.
\<close>

theorem strike_cache_refuses_repeats:
  assumes "sc_ok c" "check_and_insert tag t c = (Ok (), c')"
    "\<forall>(_, n) \<in> set reqs. unat n \<le> unat t + unat (sc_window_ms c)"
    "unat now \<le> unat t + unat (sc_window_ms c)"
  shows "fst (check_and_insert tag now (serve_all reqs c')) = Err Replayed"
  using strikes.accepted_then_refused [OF assms(1,2), of reqs now] assms(3,4)
  by (simp add: serve_all_run live_def)

theorem strike_cache_refuses_repeats_witness:
  "fst (check_and_insert [7] 2999 (serve_all [([8], 1500), ([7], 1400)]
     (snd (check_and_insert [7] 1000 (sc_new 2000))))) = Err Replayed"
proof (rule strike_cache_refuses_repeats)
  show "sc_ok (sc_new 2000)" by simp
  show "check_and_insert [7] 1000 (sc_new 2000) = (Ok (), snd (check_and_insert [7] 1000 (sc_new 2000)))"
    by code_simp
qed (simp_all add: sc_new_def)

text \<open>
  C37. The cache does not grow without bound. After serving any sequence of requests whose last
  clock reading is \<open>now\<close>, every entry is younger than the window at \<open>now\<close>, no tag is held twice,
  and there are at most as many entries as requests whose clock reading was within the window.
\<close>

theorem strike_cache_bounded:
  "let c = serve_all (reqs @ [(tag, now)]) (sc_new w) in
     distinct (map fst (sc_entries c))
     \<and> list_all (\<lambda>(_, t). unat now \<le> unat t + unat w) (sc_entries c)
     \<and> sc_len c \<le> length (filter (\<lambda>(_, t). unat now \<le> unat t + unat w) (reqs @ [(tag, now)]))"
proof -
  let ?before = "serve_all reqs (sc_new w)" and ?reqs = "reqs @ [(tag, now)]"
  let ?c = "serve_all ?reqs (sc_new w)"
  have c: "?c = snd (check_and_insert tag now ?before)"
    by (simp add: serve_all_append)
  have w: "sc_window_ms ?before = w"
    by (simp add: sc_new_def [of w])
  have ok: "sc_ok ?c"
    by (rule sc_ok_serve_all) simp
  have live: "\<forall>(_, t) \<in> set (sc_entries ?c). unat now \<le> unat t + unat w"
    using live_check_and_insert [of tag now ?before] unfolding c w by (simp add: live_def)
  have "set (sc_entries ?c) \<subseteq> set ?reqs"
    using entries_serve_all [of ?reqs "sc_new w"] by (simp add: sc_new_def)
  from sc_len_le [OF ok this live] show ?thesis
    using ok live unfolding sc_ok_def Let_def list_all_iff by blast
qed


section \<open>The cache refines a filter that never forgets\<close>

text \<open>
  The abstract filter keeps the whole history of accepted tags with their times and looks for a
  live one.
\<close>

definition history_check :: "u64 \<Rightarrow> bytes \<Rightarrow> u64 \<Rightarrow> (unit, core_error, (bytes \<times> u64) list) sm" where
  "history_check w tag now h =
     (if list_ex (\<lambda>(k, t). k = tag \<and> live w now t) h then (Err Replayed, h) else (Ok (), (tag, now) # h))"

fun answers ::
    "(bytes \<Rightarrow> u64 \<Rightarrow> (unit, core_error, 's) sm) \<Rightarrow> (bytes \<times> u64) list \<Rightarrow> 's \<Rightarrow> (unit, core_error) result list" where
  "answers check [] s = []"
| "answers check ((tag, now) # reqs) s = fst (check tag now s) # answers check reqs (snd (check tag now s))"

text \<open>Related states answer alike at every time from \<open>n\<close> on.\<close>

definition refines_history :: "u64 \<Rightarrow> u64 \<Rightarrow> strike_cache \<Rightarrow> (bytes \<times> u64) list \<Rightarrow> bool" where
  "refines_history w n c h \<longleftrightarrow> sc_ok c \<and> sc_window_ms c = w \<and>
     (\<forall>tag m. n \<le> m \<longrightarrow>
       ((\<exists>t. seen_at c tag = Some t \<and> live w m t) \<longleftrightarrow> (\<exists>t. (tag, t) \<in> set h \<and> live w m t)))"

lemma live_mono: "n \<le> m \<Longrightarrow> live w m t \<Longrightarrow> live w n t"
  by (simp add: live_def word_le_nat_alt)

lemma refines_history_evict:
  assumes "refines_history w n c h" "n \<le> now"
  shows "refines_history w now (evict now c) h"
proof -
  have ok: "sc_ok c" "sc_window_ms c = w" using assms(1) by (simp_all add: refines_history_def)
  have "(\<exists>t. seen_at (evict now c) tag = Some t \<and> live w m t) \<longleftrightarrow> (\<exists>t. seen_at c tag = Some t \<and> live w m t)"
    if "now \<le> m" for tag m
    using live_mono [OF that] ok by (auto simp: seen_at_evict split: option.splits)
  then show ?thesis
    using assms ok unfolding refines_history_def by (auto intro: sc_ok_evict dest: order_trans)
qed

lemma refines_history_step:
  assumes rel: "refines_history w n c h" and "n \<le> now"
  shows "fst (check_and_insert tag now c) = fst (history_check w tag now h)"
    and "refines_history w now (snd (check_and_insert tag now c)) (snd (history_check w tag now h))"
proof -
  have ok: "sc_ok c" "sc_window_ms c = w" using rel by (simp_all add: refines_history_def)
  note evicted = refines_history_evict [OF assms]
  have same: "(\<exists>t. seen_at c tag = Some t \<and> live w now t) \<longleftrightarrow> list_ex (\<lambda>(k, t). k = tag \<and> live w now t) h"
    using rel assms(2) by (auto simp: refines_history_def list_ex_iff)
  show "fst (check_and_insert tag now c) = fst (history_check w tag now h)"
    using same ok by (auto simp: check_and_insert_spec history_check_def split: option.splits)
  show "refines_history w now (snd (check_and_insert tag now c)) (snd (history_check w tag now h))"
  proof (cases "\<exists>t. seen_at c tag = Some t \<and> live w now t")
    case True
    with same evicted ok show ?thesis
      by (auto simp: check_and_insert_spec history_check_def)
  next
    case False
    let ?c = "(evict now c)\<lparr>sc_entries := AList.update tag now (sc_entries (evict now c))\<rparr>"
    have step: "snd (check_and_insert tag now c) = ?c" "snd (history_check w tag now h) = (tag, now) # h"
      using False same ok by (auto simp: check_and_insert_spec history_check_def split: option.splits)
    have old: "\<not> live w m t" if "(tag, t) \<in> set h" "now \<le> m" for m t
      using False same that live_mono [OF that(2)] by (auto simp: list_ex_iff)
    have "sc_ok ?c" using sc_ok_evict [OF ok(1), of now] by (simp add: sc_ok_def distinct_update)
    then show ?thesis
      unfolding step using evicted old by (auto simp: refines_history_def seen_at_insert)
  qed
qed

lemma refines_history_answers:
  "refines_history w n c h \<Longrightarrow> sorted (map snd reqs) \<Longrightarrow> (\<forall>(_, t) \<in> set reqs. n \<le> t) \<Longrightarrow>
    answers check_and_insert reqs c = answers (history_check w) reqs h"
proof (induction reqs arbitrary: n c h)
  case (Cons r reqs)
  obtain tag now where r: "r = (tag, now)" by fastforce
  then have "n \<le> now" using Cons.prems(3) by simp
  from refines_history_step [OF Cons.prems(1) this] Cons.IH Cons.prems(2) show ?case
    by (force simp: r)
qed simp

text \<open>
  C24. Forgetting is not observable. For requests in the order of the server's clock, the cache,
  which drops entries as they age and holds one time per tag, gives exactly the answers of a
  filter that keeps every acceptance for ever and refuses a tag that was accepted within the
  window.
\<close>

theorem strike_cache_refines_history:
  assumes "sorted (map snd reqs)"
  shows "answers check_and_insert reqs (sc_new w) = answers (history_check w) reqs []"
proof (rule refines_history_answers [OF _ assms])
  show "refines_history w 0 (sc_new w) []"
    by (simp add: refines_history_def sc_new_def sc_ok_def seen_at_def)
qed (auto simp: word_le_nat_alt)

theorem strike_cache_refines_history_witness:
  "answers check_and_insert [([7], 1000), ([8], 1500), ([7], 3000), ([7], 3001)] (sc_new 2000) =
    [Ok (), Ok (), Err Replayed, Ok ()]"
proof -
  have "sorted (map snd [([7 :: u8], 1000 :: u64), ([8], 1500), ([7], 3000), ([7], 3001)])"
    by simp
  from strike_cache_refines_history [OF this, of 2000] show ?thesis
    by (simp add: history_check_def live_def)
qed

end
