(* ===== verification/Handshake.thy ===== *)
theory Handshake
  imports Messages Record_Layer Connmeta Replay
begin

text \<open>
  The sans-IO handshake of \<open>ort-core/src/handshake/\<close>: the client's transforms
  (\<open>client.rs\<close>), the server's (\<open>server.rs\<close>), the agreement of the two ends in both modes, what
  an accepted payload has been checked for, and what a server does with a payload it has
  already accepted, as it was or signed anew by another client. A reading of the clock is the argument \<open>now\<close> of the operation that takes it.
\<close>

section \<open>Client\<close>

record 'ss client_config =
  cc_sig_secret :: 'ss
  cc_client_pk :: bytes

record 'h client_established =
  ce_record :: "'h record_layer"
  ce_expected_ek_hash :: bytes

definition build_payload ::
    "('dk, 'ek, 'sk, 'vk, 'sg, 'h) crates \<Rightarrow> ('ks, 'ss) cipher_suite \<Rightarrow> 'ss client_config \<Rightarrow>
      bytes \<Rightarrow> bytes \<Rightarrow> u64 \<Rightarrow> bytes \<Rightarrow>
      (kem_payload \<times> 'h client_established, core_error, os_rng) sm" where
  "build_payload C S cfg server_pk src_ip now early_data =
     sbind fresh_r (\<lambda>r.
     sbind (slift (kem_encapsulate S server_pk r)) (\<lambda>(ciphertext, shared).
     sbind (slift (derive_session_keys S shared ciphertext)) (\<lambda>keys.
     sbind (fill_random (replicate 32 0)) (\<lambda>nonce.
     let record = rl_new C keys nonce;
         expected_ek_hash = enc_key_hash S record;
         (sealed, record) = rl_seal C S ClientToServer early_data record in
     sbind (slift sealed) (\<lambda>enc_data.
     let cm = \<lparr>cm_src_ip = src_ip, cm_ts_millis = now, cm_nonce = nonce\<rparr> in
     sbind (slift (sign_client_binding S (cc_sig_secret cfg) cm (cc_client_pk cfg) ciphertext enc_data))
       (\<lambda>client_sig.
     sreturn
       (\<lparr>kp_ciphertext = ciphertext, kp_src_ip = cm_src_ip cm, kp_ts_millis = cm_ts_millis cm,
         kp_nonce = cm_nonce cm, kp_client_sig = client_sig, kp_enc_data = enc_data\<rparr>,
        \<lparr>ce_record = record, ce_expected_ek_hash = expected_ek_hash\<rparr>)))))))"

definition client_zero_rtt ::
    "('dk, 'ek, 'sk, 'vk, 'sg, 'h) crates \<Rightarrow> ('ks, 'ss) cipher_suite \<Rightarrow> 'ss client_config \<Rightarrow>
      bytes \<Rightarrow> bytes \<Rightarrow> u64 \<Rightarrow> bytes \<Rightarrow> (frame \<times> 'h client_established, core_error, os_rng) sm" where
  "client_zero_rtt C S cfg server_pk src_ip now early_data =
     sbind (build_payload C S cfg server_pk src_ip now early_data) (\<lambda>(payload, established).
     let frame = ClientHelloZeroRtt (suite_code (ID S)) (cc_client_pk cfg) payload in
     sreturn (frame, established))"

definition client_one_rtt_hello :: "('ks, 'ss) cipher_suite \<Rightarrow> 'ss client_config \<Rightarrow> frame" where
  "client_one_rtt_hello S cfg = ClientHelloOneRtt (suite_code (ID S)) (cc_client_pk cfg)"

definition client_one_rtt_finish ::
    "('dk, 'ek, 'sk, 'vk, 'sg, 'h) crates \<Rightarrow> ('ks, 'ss) cipher_suite \<Rightarrow> 'ss client_config \<Rightarrow>
      bytes \<Rightarrow> bytes \<Rightarrow> u64 \<Rightarrow> bytes \<Rightarrow> (frame \<times> 'h client_established, core_error, os_rng) sm" where
  "client_one_rtt_finish C S cfg server_pk src_ip now early_data =
     sbind (build_payload C S cfg server_pk src_ip now early_data) (\<lambda>(payload, established).
     let frame = ClientData (cc_client_pk cfg) payload in
     sreturn (frame, established))"


section \<open>Server\<close>

record 'ks server_config =
  sv_kem_secret :: 'ks
  sv_server_pk :: bytes
  sv_certificate :: bytes
  sv_window_ms :: u64
  sv_skew_ms :: u64

record 'h server_established =
  se_record :: "'h record_layer"
  se_early_data :: bytes

datatype 'h server_step =
    ZeroRtt (ss_ack: frame) (ss_established: "'h server_established")
  | OneRtt (ss_hello: frame)

definition check_suite :: "u16 \<Rightarrow> (unit, core_error) result" where
  "check_suite suite_id =
     (case from_code suite_id of Some _ \<Rightarrow> Ok () | None \<Rightarrow> Err (UnsupportedSuite suite_id))"

definition server_hello ::
    "('ks, 'ss) cipher_suite \<Rightarrow> 'ks server_config \<Rightarrow> u64 \<Rightarrow> frame" where
  "server_hello S cfg now =
     ServerHello (suite_code (ID S)) (sv_server_pk cfg) (sv_certificate cfg) now"

definition process_payload ::
    "('dk, 'ek, 'sk, 'vk, 'sg, 'h) crates \<Rightarrow> ('ks, 'ss) cipher_suite \<Rightarrow> 'ks server_config \<Rightarrow>
      bytes \<Rightarrow> kem_payload \<Rightarrow> bytes \<Rightarrow> u64 \<Rightarrow>
      ('h server_established, core_error, strike_cache) sm" where
  "process_payload C S cfg client_pk payload peer_ip now =
     (if kp_src_ip payload \<noteq> peer_ip then slift (Err SourceIpMismatch)
      else
     sbind (slift (check_window now (kp_ts_millis payload) (sv_window_ms cfg) (sv_skew_ms cfg))) (\<lambda>_.
     let cm = \<lparr>cm_src_ip = kp_src_ip payload, cm_ts_millis = kp_ts_millis payload,
               cm_nonce = kp_nonce payload\<rparr> in
     sbind (slift (verify_client_binding S client_pk cm (kp_ciphertext payload) (kp_enc_data payload)
       (kp_client_sig payload))) (\<lambda>_.
     let tag = replay_tag S (kp_nonce payload) (kp_enc_data payload) in
     sbind (check_and_insert tag now) (\<lambda>_.
     sbind (slift (kem_decapsulate S (sv_kem_secret cfg) (kp_ciphertext payload))) (\<lambda>shared.
     sbind (slift (derive_session_keys S shared (kp_ciphertext payload))) (\<lambda>keys.
     let record = rl_new C keys (kp_nonce payload);
         (opened, record) = rl_open C S ClientToServer (kp_enc_data payload) record in
     sbind (slift opened) (\<lambda>early_data.
     sreturn \<lparr>se_record = record, se_early_data = early_data\<rparr>)))))))"

definition server_on_first ::
    "('dk, 'ek, 'sk, 'vk, 'sg, 'h) crates \<Rightarrow> ('ks, 'ss) cipher_suite \<Rightarrow> 'ks server_config \<Rightarrow>
      frame \<Rightarrow> bytes \<Rightarrow> u64 \<Rightarrow> ('h server_step, core_error, strike_cache) sm" where
  "server_on_first C S cfg frame peer_ip now =
     (case frame of
        ClientHelloOneRtt suite_id _ \<Rightarrow>
          sbind (slift (check_suite suite_id)) (\<lambda>_. sreturn (OneRtt (server_hello S cfg now)))
      | ClientHelloZeroRtt suite_id client_pk payload \<Rightarrow>
          sbind (slift (check_suite suite_id)) (\<lambda>_.
          sbind (process_payload C S cfg client_pk payload peer_ip now) (\<lambda>established.
          let ack = ServerAck (enc_key_hash S (se_record established)) in
          sreturn (ZeroRtt ack established)))
      | _ \<Rightarrow> slift (Err (UnexpectedMessage ''server_on_first'')))"

definition server_on_client_data ::
    "('dk, 'ek, 'sk, 'vk, 'sg, 'h) crates \<Rightarrow> ('ks, 'ss) cipher_suite \<Rightarrow> 'ks server_config \<Rightarrow>
      frame \<Rightarrow> bytes \<Rightarrow> u64 \<Rightarrow> ('h server_established, core_error, strike_cache) sm" where
  "server_on_client_data C S cfg frame peer_ip now =
     (case frame of
        ClientData client_pk payload \<Rightarrow> process_payload C S cfg client_pk payload peer_ip now
      | _ \<Rightarrow> slift (Err (UnexpectedMessage ''server_on_client_data'')))"


section \<open>What a payload's sender has prepared\<close>

abbreviation payload_meta :: "kem_payload \<Rightarrow> conn_meta" where
  "payload_meta p \<equiv>
     \<lparr>cm_src_ip = kp_src_ip p, cm_ts_millis = kp_ts_millis p, cm_nonce = kp_nonce p\<rparr>"

abbreviation payload_tag :: "('ks, 'ss) cipher_suite \<Rightarrow> kem_payload \<Rightarrow> bytes" where
  "payload_tag S p \<equiv> replay_tag S (kp_nonce p) (kp_enc_data p)"

text \<open>The private half of processing: decapsulation, keys, early data.\<close>

definition unwrap_payload ::
    "('dk, 'ek, 'sk, 'vk, 'sg, 'h) crates \<Rightarrow> ('ks, 'ss) cipher_suite \<Rightarrow> 'ks \<Rightarrow> kem_payload \<Rightarrow>
      ('h server_established, core_error) result" where
  "unwrap_payload C S sk p =
     bind_result (kem_decapsulate S sk (kp_ciphertext p)) (\<lambda>shared.
     bind_result (derive_session_keys S shared (kp_ciphertext p)) (\<lambda>keys.
     let (opened, record) = rl_open C S ClientToServer (kp_enc_data p) (rl_new C keys (kp_nonce p)) in
     bind_result opened (\<lambda>early. Ok \<lparr>se_record = record, se_early_data = early\<rparr>)))"

text \<open>The public checks, in the order of the code.\<close>

definition precheck ::
    "('ks, 'ss) cipher_suite \<Rightarrow> 'ks server_config \<Rightarrow> bytes \<Rightarrow> kem_payload \<Rightarrow> bytes \<Rightarrow> u64 \<Rightarrow>
      (unit, core_error) result" where
  "precheck S cfg client_pk p peer_ip now =
     (if kp_src_ip p \<noteq> peer_ip then Err SourceIpMismatch
      else if \<not> in_window now (kp_ts_millis p) (sv_window_ms cfg) (sv_skew_ms cfg) then Err StaleTimestamp
      else verify_client_binding S client_pk (payload_meta p) (kp_ciphertext p) (kp_enc_data p)
        (kp_client_sig p))"

lemma process_payload_eq:
  "process_payload C S cfg client_pk p peer_ip now strike =
    (case precheck S cfg client_pk p peer_ip now of
       Ok _ \<Rightarrow>
         (case check_and_insert (payload_tag S p) now strike of
            (Ok _, strike') \<Rightarrow> (unwrap_payload C S (sv_kem_secret cfg) p, strike')
          | (Err e, strike') \<Rightarrow> (Err e, strike')
          | (Panic, strike') \<Rightarrow> (Panic, strike'))
     | Err e \<Rightarrow> (Err e, strike)
     | Panic \<Rightarrow> (Panic, strike))"
  by (simp add: process_payload_def precheck_def check_window_eq unwrap_payload_def sbind_def Let_def
      split: result.split prod.split)

text \<open>What one handshake leaves the two ends with.\<close>

definition session_agreed ::
    "('dk, 'ek, 'sk, 'vk, 'sg, 'h) crates \<Rightarrow> 'h client_established \<Rightarrow> 'h server_established \<Rightarrow> bool" where
  "session_agreed C ce se \<longleftrightarrow>
     rl_same ClientToServer (ce_record ce) (se_record se) \<and>
     rl_same ServerToClient (ce_record ce) (se_record se) \<and>
     rl_valid C (ce_record ce) \<and> rl_valid C (se_record se) \<and>
     ce_expected_ek_hash ce = enc_key_hash (V1 C) (se_record se)"

definition payload_for ::
    "('dk, 'ek, 'sk, 'vk, 'sg, 'h) crates \<Rightarrow> 'sk client_config \<Rightarrow> 'dk \<Rightarrow> bytes \<Rightarrow> u64 \<Rightarrow> bytes \<Rightarrow>
      kem_payload \<Rightarrow> 'h client_established \<Rightarrow> bool" where
  "payload_for C cfg sk src_ip now early p ce \<longleftrightarrow>
     kp_src_ip p = src_ip \<and> kp_ts_millis p = now \<and> length (kp_nonce p) = 32 \<and>
     length (kp_ciphertext p) = 1088 \<and> length (kp_client_sig p) = 3309 \<and>
     length (kp_enc_data p) = length early + 16 \<and>
     verify_client_binding (V1 C) (cc_client_pk cfg) (payload_meta p) (kp_ciphertext p) (kp_enc_data p)
       (kp_client_sig p) = Ok () \<and>
     (\<exists>se. unwrap_payload C (V1 C) sk p = Ok se \<and> se_early_data se = early \<and> session_agreed C ce se)"

definition good_client :: "('dk, 'ek, 'sk, 'vk, 'sg, 'h) crates \<Rightarrow> 'sk client_config \<Rightarrow> bool" where
  "good_client C cfg \<longleftrightarrow> cc_client_pk cfg = sig_public (V1 C) (cc_sig_secret cfg)"

lemma first_record:
  assumes "crates_ok C" "length (enc_key keys) = 32" "length early \<le> 2 ^ 36"
  obtains ct rc rs where
    "rl_seal C (V1 C) ClientToServer early (rl_new C keys nonce) = (Ok ct, rc)"
    "rl_open C (V1 C) ClientToServer ct (rl_new C keys nonce) = (Ok early, rs)"
    "length ct = length early + 16" "rl_keys rc = keys" "rl_keys rs = keys"
    "rl_same ClientToServer rc rs" "rl_same ServerToClient rc rs" "rl_valid C rc" "rl_valid C rs"
proof -
  let ?rl = "rl_new C keys nonce"
  have keys: "rl_keys ?rl = keys" by (simp add: rl_new_def Let_def)
  then have valid: "rl_valid C ?rl" using assms by (simp add: rl_valid_def)
  obtain ct rc rs where tr: "rl_seal C (V1 C) ClientToServer early ?rl = (Ok ct, rc)"
      "rl_open C (V1 C) ClientToServer ct ?rl = (Ok early, rs)"
      "rl_same ClientToServer rc rs" "length ct = length early + 16"
    using rl.transfer [OF valid rl.same_refl, of early ClientToServer] assms(3)
    unfolding rl_fits_def by blast
  have "rl_same ServerToClient rc ?rl" "rl_same ServerToClient rs ?rl"
    using rl.seal_frame [of ClientToServer ServerToClient C early ?rl]
      rl.open_frame [of ClientToServer ServerToClient C ct ?rl] tr(1,2) by simp_all
  then have "rl_same ServerToClient rc rs"
    using rl.same_sym rl.same_trans by blast
  moreover have "rl_keys rc = keys" "rl_keys rs = keys"
    using rl_keys_kept(1) [of C "V1 C" ClientToServer early ?rl]
      rl_keys_kept(2) [of C "V1 C" ClientToServer ct ?rl] tr(1,2) keys by simp_all
  moreover have "rl_valid C rc" "rl_valid C rs"
    using rl.valid_seal [OF valid, of ClientToServer early] rl.valid_open [OF valid, of ClientToServer ct] tr(1,2)
    by simp_all
  ultimately show thesis using tr that by blast
qed

lemma build_payload_ok:
  assumes C: "crates_ok C" and g: "rng_ok g" and "good_client C cfg" and "length src_ip = 16"
    and "length early \<le> 2 ^ 36"
  obtains p ce g' where
    "build_payload C (V1 C) cfg (kem_public (V1 C) sk) src_ip now early g = (Ok (p, ce), g')"
    "payload_for C cfg sk src_ip now early p ce" "rng_ok g'"
proof -
  obtain r where r: "fresh_r g = (Ok r :: (bytes, core_error) result, g\<lparr>rng_calls := Suc (rng_calls g)\<rparr>)"
      "length r = 32"
    using fill_random_ok [OF g, of "replicate R_LEN 0"] by (metis fresh_r_def R_LEN_def length_replicate)
  let ?g = "g\<lparr>rng_calls := Suc (rng_calls g)\<rparr>"
  from g have "rng_ok ?g" by simp
  then obtain nonce where n: "fill_random (replicate 32 0) ?g =
        (Ok nonce :: (bytes, core_error) result, ?g\<lparr>rng_calls := Suc (rng_calls ?g)\<rparr>)"
      "length nonce = 32"
    using fill_random_ok [of ?g "replicate 32 0"] by (metis length_replicate)
  obtain ct shared where kem: "kem_encapsulate (V1 C) (kem_public (V1 C) sk) r = Ok (ct, shared)"
      "length ct = 1088" "kem_decapsulate (V1 C) sk ct = Ok shared"
    using v1.kem_roundtrip [OF C r(2), of sk] by (auto simp: V1_def v1_sizes)
  obtain keys where keys: "derive_session_keys (V1 C) shared ct = Ok keys" "length (enc_key keys) = 32"
    using v1.derive_total [OF C] by blast
  obtain ed rc rs where rec: "rl_seal C (V1 C) ClientToServer early (rl_new C keys nonce) = (Ok ed, rc)"
    "rl_open C (V1 C) ClientToServer ed (rl_new C keys nonce) = (Ok early, rs)"
    "length ed = length early + 16" "rl_keys rc = keys" "rl_keys rs = keys"
    "rl_same ClientToServer rc rs" "rl_same ServerToClient rc rs" "rl_valid C rc" "rl_valid C rs"
    using first_record [OF C keys(2) assms(5)] by metis
  let ?cm = "\<lparr>cm_src_ip = src_ip, cm_ts_millis = now, cm_nonce = nonce\<rparr>"
  have "cm_ok ?cm" using assms(4) n(2) by (simp add: cm_ok_def)
  then obtain sig where sig:
      "sign_client_binding (V1 C) (cc_sig_secret cfg) ?cm (cc_client_pk cfg) ct ed = Ok sig"
      "length sig = 3309" "verify_client_binding (V1 C) (cc_client_pk cfg) ?cm ct ed sig = Ok ()"
    using v1.sign_verify_binding [OF C, of ?cm "cc_sig_secret cfg" ct ed] assms(3)
    unfolding good_client_def by (auto simp: V1_def ML_DSA_65_SIG_def)
  define p where "p = \<lparr>kp_ciphertext = ct, kp_src_ip = src_ip, kp_ts_millis = now, kp_nonce = nonce,
    kp_client_sig = sig, kp_enc_data = ed\<rparr>"
  define ce where "ce = \<lparr>ce_record = rc, ce_expected_ek_hash = enc_key_hash (V1 C) (rl_new C keys nonce)\<rparr>"
  show thesis
  proof (rule that)
    show "build_payload C (V1 C) cfg (kem_public (V1 C) sk) src_ip now early g =
        (Ok (p, ce), ?g\<lparr>rng_calls := Suc (rng_calls ?g)\<rparr>)"
      using r n kem keys rec sig by (simp add: build_payload_def sbind_step Let_def p_def ce_def)
    show "payload_for C cfg sk src_ip now early p ce"
      using n kem keys rec sig
      by (simp add: payload_for_def p_def ce_def unwrap_payload_def session_agreed_def enc_key_hash_def
          rl_new_def [of C keys nonce, unfolded Let_def])
    show "rng_ok (?g\<lparr>rng_calls := Suc (rng_calls ?g)\<rparr>)" using g by simp
  qed
qed



section \<open>What the server accepts\<close>

definition tag_fresh :: "strike_cache \<Rightarrow> u64 \<Rightarrow> bytes \<Rightarrow> bool" where
  "tag_fresh strike now tag \<longleftrightarrow>
     (case seen_at strike tag of None \<Rightarrow> True | Some t \<Rightarrow> \<not> live (sc_window_ms strike) now t)"

lemma check_and_insert_outcome:
  assumes "sc_ok strike"
  shows "fst (check_and_insert tag now strike) = (if tag_fresh strike now tag then Ok () else Err Replayed)"
  using strikes.accept [OF assms, of tag now] strikes.refuse [OF assms, of tag _ now]
  by (auto simp: tag_fresh_def split: option.splits if_splits)

lemma check_and_insert_records:
  assumes "sc_ok strike" "tag_fresh strike now tag"
  shows "seen_at (snd (check_and_insert tag now strike)) tag = Some now"
  using strikes.accept [OF assms(1), of tag now] assms(2) by (auto simp: tag_fresh_def split: option.splits)

lemma process_payload_outcome:
  assumes "sc_ok strike"
  shows "process_payload C S cfg pk p peer now strike =
    (case precheck S cfg pk p peer now of
       Ok _ \<Rightarrow> (if tag_fresh strike now (payload_tag S p) then unwrap_payload C S (sv_kem_secret cfg) p
                else Err Replayed, snd (check_and_insert (payload_tag S p) now strike))
     | Err e \<Rightarrow> (Err e, strike)
     | Panic \<Rightarrow> (Panic, strike))"
  using check_and_insert_outcome [OF assms, of "payload_tag S p" now]
  by (auto simp: process_payload_eq split: prod.splits result.splits if_splits)

lemma precheck_Ok_iff:
  "precheck S cfg pk p peer now = Ok () \<longleftrightarrow> kp_src_ip p = peer \<and>
    in_window now (kp_ts_millis p) (sv_window_ms cfg) (sv_skew_ms cfg) \<and>
    verify_client_binding S pk (payload_meta p) (kp_ciphertext p) (kp_enc_data p) (kp_client_sig p) = Ok ()"
  by (simp add: precheck_def)

lemma process_payload_Ok_iff:
  assumes "sc_ok strike"
  shows "process_payload C S cfg pk p peer now strike = (Ok se, strike') \<longleftrightarrow>
    precheck S cfg pk p peer now = Ok () \<and> tag_fresh strike now (payload_tag S p) \<and>
    unwrap_payload C S (sv_kem_secret cfg) p = Ok se \<and>
    strike' = snd (check_and_insert (payload_tag S p) now strike)"
  using assms by (auto simp: process_payload_outcome split: result.splits if_splits)

lemma honest_payload_accepted:
  assumes "payload_for C ccfg (sv_kem_secret scfg) src_ip ts early p ce"
    and "in_window now ts (sv_window_ms scfg) (sv_skew_ms scfg)"
    and "sc_ok strike" "tag_fresh strike now (payload_tag (V1 C) p)"
  obtains se where
    "process_payload C (V1 C) scfg (cc_client_pk ccfg) p src_ip now strike =
      (Ok se, snd (check_and_insert (payload_tag (V1 C) p) now strike))"
    "se_early_data se = early" "session_agreed C ce se"
  using assms process_payload_Ok_iff [OF assms(3)] unfolding payload_for_def precheck_Ok_iff by metis


lemma suite_code_V1 [simp]: "suite_code (ID (V1 C)) = 1"
  by (simp add: V1_def)

lemma server_on_first_zero_rtt:
  assumes "process_payload C S cfg pk p peer now strike = (Ok se, strike')"
  shows "server_on_first C S cfg (ClientHelloZeroRtt 1 pk p) peer now strike =
    (Ok (ZeroRtt (ServerAck (enc_key_hash S (se_record se))) se), strike')"
  using assms by (simp add: server_on_first_def check_suite_def from_code_def sbind_step)

lemma server_on_first_one_rtt:
  "server_on_first C S scfg (client_one_rtt_hello S' ccfg) peer now strike =
    (Ok (OneRtt (ServerHello (suite_code (ID S)) (sv_server_pk scfg) (sv_certificate scfg) now)), strike)"
  by (simp add: server_on_first_def client_one_rtt_hello_def check_suite_def server_hello_def)

lemma server_on_client_data_ClientData:
  "server_on_client_data C S cfg (ClientData pk p) peer now = process_payload C S cfg pk p peer now"
  by (simp add: server_on_client_data_def)


section \<open>Properties: agreement\<close>

text \<open>
  C14. 0-RTT agreement. When a client whose verifying key belongs to its signing key runs
  \<open>client_zero_rtt\<close> against the public key of a server, it obtains a ClientHello; the server that
  receives it from the client's address, with a clock within the window and the payload's tag
  not held by its strike cache, answers with the acknowledgement the client expects, recovers
  exactly the early data, and both ends hold record layers that agree in both directions.
\<close>

theorem zero_rtt_agreement:
  assumes "crates_ok C" "rng_ok g" "good_client C ccfg" "length src_ip = 16"
    and "length early \<le> 2 ^ 36" "sc_ok strike"
    and "in_window now ts (sv_window_ms scfg) (sv_skew_ms scfg)"
  shows "\<exists>p ce g'. client_zero_rtt C (V1 C) ccfg (kem_public (V1 C) (sv_kem_secret scfg)) src_ip ts early g =
      (Ok (ClientHelloZeroRtt 1 (cc_client_pk ccfg) p, ce), g') \<and>
    (tag_fresh strike now (payload_tag (V1 C) p) \<longrightarrow>
      (\<exists>se strike'. server_on_first C (V1 C) scfg (ClientHelloZeroRtt 1 (cc_client_pk ccfg) p) src_ip now strike =
          (Ok (ZeroRtt (ServerAck (ce_expected_ek_hash ce)) se), strike') \<and>
        se_early_data se = early \<and> session_agreed C ce se))"
proof -
  obtain p ce g' where built: "build_payload C (V1 C) ccfg (kem_public (V1 C) (sv_kem_secret scfg)) src_ip ts early g = (Ok (p, ce), g')"
      "payload_for C ccfg (sv_kem_secret scfg) src_ip ts early p ce"
    using build_payload_ok [OF assms(1-5)] by metis
  have "client_zero_rtt C (V1 C) ccfg (kem_public (V1 C) (sv_kem_secret scfg)) src_ip ts early g =
      (Ok (ClientHelloZeroRtt 1 (cc_client_pk ccfg) p, ce), g')"
    using built(1) by (simp add: client_zero_rtt_def sbind_def V1_def)
  moreover have "\<exists>se strike'. server_on_first C (V1 C) scfg (ClientHelloZeroRtt 1 (cc_client_pk ccfg) p) src_ip now strike =
          (Ok (ZeroRtt (ServerAck (ce_expected_ek_hash ce)) se), strike') \<and>
        se_early_data se = early \<and> session_agreed C ce se"
    if fresh: "tag_fresh strike now (payload_tag (V1 C) p)"
  proof -
    obtain se where "process_payload C (V1 C) scfg (cc_client_pk ccfg) p src_ip now strike =
        (Ok se, snd (check_and_insert (payload_tag (V1 C) p) now strike))"
        "se_early_data se = early" "session_agreed C ce se"
      using honest_payload_accepted [OF built(2) assms(7,6) fresh] .
    with server_on_first_zero_rtt [OF this(1)] show ?thesis
      unfolding session_agreed_def by metis
  qed
  ultimately show ?thesis by blast
qed

definition sample_client :: "256 word client_config" where
  "sample_client = \<lparr>cc_sig_secret = 5, cc_client_pk = sig_public (V1 sample_crates) 5\<rparr>"

definition sample_server :: "512 word server_config" where
  "sample_server = \<lparr>sv_kem_secret = 9, sv_server_pk = kem_public (V1 sample_crates) 9,
     sv_certificate = [], sv_window_ms = 2000, sv_skew_ms = 1000\<rparr>"

lemma sample_client_good: "good_client sample_crates sample_client"
  by (simp add: good_client_def sample_client_def)

lemma tag_fresh_new: "tag_fresh (sc_new w) now tag"
  by (simp add: tag_fresh_def seen_at_def sc_new_def)

theorem zero_rtt_agreement_witness:
  "\<exists>p ce g' se strike'.
     client_zero_rtt sample_crates (V1 sample_crates) sample_client (kem_public (V1 sample_crates) (sv_kem_secret sample_server))
       (replicate 16 1) 1000900 [1, 2, 3] sample_rng =
       (Ok (ClientHelloZeroRtt 1 (cc_client_pk sample_client) p, ce), g') \<and>
     server_on_first sample_crates (V1 sample_crates) sample_server (ClientHelloZeroRtt 1 (cc_client_pk sample_client) p)
       (replicate 16 1) 1000000 (sc_new 2000) =
       (Ok (ZeroRtt (ServerAck (ce_expected_ek_hash ce)) se), strike') \<and> se_early_data se = [1, 2, 3]"
proof -
  have "in_window 1000000 1000900 (sv_window_ms sample_server) (sv_skew_ms sample_server)"
    by (simp add: in_window_def sample_server_def)
  from zero_rtt_agreement [OF sample_crates_ok sample_rng_ok sample_client_good _ _ sc_ok_new this,
      of "replicate 16 1" "[1, 2, 3]" 2000]
  show ?thesis using tag_fresh_new by fastforce
qed

text \<open>
  1-RTT agreement. The server answers the bare ClientHello with its own public key and
  certificate and does not touch the strike cache; the client that continues with the key of
  this ServerHello produces a ClientData flight from which the server, under the same
  conditions as for 0-RTT, recovers exactly the early data, with both ends in agreement.
\<close>

theorem one_rtt_agreement:
  assumes "crates_ok C" "rng_ok g" "good_client C ccfg" "length src_ip = 16"
    and "length early \<le> 2 ^ 36" "sc_ok strike"
    and "in_window now ts (sv_window_ms scfg) (sv_skew_ms scfg)"
    and "sv_server_pk scfg = kem_public (V1 C) (sv_kem_secret scfg)"
  shows "\<exists>hello p ce g'.
    server_on_first C (V1 C) scfg (client_one_rtt_hello (V1 C) ccfg) src_ip hello_ts strike =
      (Ok (OneRtt hello), strike) \<and>
    hello = ServerHello 1 (kem_public (V1 C) (sv_kem_secret scfg)) (sv_certificate scfg) hello_ts \<and>
    client_one_rtt_finish C (V1 C) ccfg (f_server_pk hello) src_ip ts early g =
      (Ok (ClientData (cc_client_pk ccfg) p, ce), g') \<and>
    (tag_fresh strike now (payload_tag (V1 C) p) \<longrightarrow>
      (\<exists>se strike'. server_on_client_data C (V1 C) scfg (ClientData (cc_client_pk ccfg) p) src_ip now strike =
          (Ok se, strike') \<and>
        se_early_data se = early \<and> session_agreed C ce se))"
proof -
  obtain p ce g' where built: "build_payload C (V1 C) ccfg (kem_public (V1 C) (sv_kem_secret scfg)) src_ip ts early g = (Ok (p, ce), g')"
      "payload_for C ccfg (sv_kem_secret scfg) src_ip ts early p ce"
    using build_payload_ok [OF assms(1-5)] by metis
  have "client_one_rtt_finish C (V1 C) ccfg (kem_public (V1 C) (sv_kem_secret scfg)) src_ip ts early g =
      (Ok (ClientData (cc_client_pk ccfg) p, ce), g')"
    using built(1) by (simp add: client_one_rtt_finish_def sbind_def)
  moreover have "\<exists>se strike'. server_on_client_data C (V1 C) scfg (ClientData (cc_client_pk ccfg) p) src_ip now strike =
      (Ok se, strike') \<and> se_early_data se = early \<and> session_agreed C ce se"
    if fresh: "tag_fresh strike now (payload_tag (V1 C) p)"
    using honest_payload_accepted [OF built(2) assms(7,6) fresh]
    by (metis server_on_client_data_ClientData)
  ultimately show ?thesis
    using server_on_first_one_rtt [of C "V1 C" scfg "V1 C" ccfg src_ip hello_ts strike] assms(8) by auto
qed

theorem one_rtt_agreement_witness:
  "\<exists>p ce g' se strike'.
     client_one_rtt_finish sample_crates (V1 sample_crates) sample_client
       (sv_server_pk sample_server) (replicate 16 1) 1000900 [] sample_rng =
       (Ok (ClientData (cc_client_pk sample_client) p, ce), g') \<and>
     server_on_client_data sample_crates (V1 sample_crates) sample_server
       (ClientData (cc_client_pk sample_client) p) (replicate 16 1) 1000000 (sc_new 2000) =
       (Ok se, strike') \<and> se_early_data se = []"
proof -
  have "in_window 1000000 1000900 (sv_window_ms sample_server) (sv_skew_ms sample_server)"
    and pk: "sv_server_pk sample_server = kem_public (V1 sample_crates) (sv_kem_secret sample_server)"
    by (simp_all add: in_window_def sample_server_def)
  from one_rtt_agreement [OF sample_crates_ok sample_rng_ok sample_client_good _ _ sc_ok_new this,
      of "replicate 16 1" "[]" 7 2000]
  show ?thesis unfolding pk using tag_fresh_new by fastforce
qed



section \<open>Properties: what is checked, and in which order\<close>

text \<open>The message whose signature the server has to verify.\<close>

definition signed_message :: "('ks, 'ss) cipher_suite \<Rightarrow> bytes \<Rightarrow> kem_payload \<Rightarrow> bytes" where
  "signed_message S pk p = ascii ''ORT-v1 connmeta'' @ kp_src_ip p @ u64_to_be_bytes (kp_ts_millis p) @
     kp_nonce p @ pk @ hash256 S (kp_ciphertext p) @ hash256 S (kp_enc_data p)"

lemma binding_signed_message:
  "binding S (payload_meta p) pk (kp_ciphertext p) (kp_enc_data p) = signed_message S pk p"
  by (simp add: binding_def signed_message_def CLIENT_BINDING_LABEL_def)

lemma payload_meta_ok:
  "cm_ok (payload_meta p) \<longleftrightarrow> length (kp_src_ip p) = 16 \<and> length (kp_nonce p) = 32"
  by (simp add: cm_ok_def)

lemma v1_sig_verify_no_panic: "sig_verify (V1 C) vk msg sig \<noteq> Panic"
  by (cases "array_try_from (vk_size C) vk"; cases "array_try_from (sig_size C) sig";
      cases "sig_decode C (the (array_try_from (sig_size C) sig))")
    (simp_all add: V1_def v1_sig_verify_def)

lemma precheck_v1:
  assumes "kp_ok p"
  shows "precheck (V1 C) cfg pk p peer now =
    (if kp_src_ip p \<noteq> peer then Err SourceIpMismatch
     else if \<not> in_window now (kp_ts_millis p) (sv_window_ms cfg) (sv_skew_ms cfg) then Err StaleTimestamp
     else if sig_verify (V1 C) pk (signed_message (V1 C) pk p) (kp_client_sig p) \<noteq> Ok () then Err BadSignature
     else Ok ())"
proof -
  have "cm_ok (payload_meta p)" using assms by (simp add: payload_meta_ok kp_ok_def)
  then have v: "verify_client_binding (V1 C) pk (payload_meta p) (kp_ciphertext p) (kp_enc_data p) (kp_client_sig p) =
      map_err (\<lambda>_. BadSignature) (sig_verify (V1 C) pk (signed_message (V1 C) pk p) (kp_client_sig p))"
    by (simp add: verify_client_binding_eq binding_signed_message)
  show ?thesis
    unfolding precheck_def v
    using v1_sig_verify_no_panic [of C pk "signed_message (V1 C) pk p" "kp_client_sig p"]
    by (cases "sig_verify (V1 C) pk (signed_message (V1 C) pk p) (kp_client_sig p)") simp_all
qed

text \<open>
  C7. The server's decision on every payload the decoder can deliver. The checks are made in
  the order source address, timestamp window, client signature, replay tag; the first that
  fails determines the error. Nothing that fails one of the first three reaches the strike
  cache, so an unauthenticated peer cannot fill it; what passes them is decapsulated and opened
  only if its tag is fresh.
\<close>

theorem process_payload_decision:
  assumes "kp_ok p" "sc_ok strike"
  shows "process_payload C (V1 C) cfg pk p peer now strike =
    (if kp_src_ip p \<noteq> peer then (Err SourceIpMismatch, strike)
     else if \<not> in_window now (kp_ts_millis p) (sv_window_ms cfg) (sv_skew_ms cfg) then (Err StaleTimestamp, strike)
     else if sig_verify (V1 C) pk (signed_message (V1 C) pk p) (kp_client_sig p) \<noteq> Ok () then (Err BadSignature, strike)
     else if \<not> tag_fresh strike now (payload_tag (V1 C) p) then (Err Replayed, evict now strike)
     else (unwrap_payload C (V1 C) (sv_kem_secret cfg) p,
       snd (check_and_insert (payload_tag (V1 C) p) now strike)))"
proof -
  have "snd (check_and_insert tag now strike) = evict now strike" if "\<not> tag_fresh strike now tag" for tag
    using that by (auto simp: check_and_insert_spec [OF assms(2)] tag_fresh_def split: option.splits)
  then show ?thesis
    by (simp add: process_payload_outcome [OF assms(2)] precheck_v1 [OF assms(1)])
qed

definition sample_payload :: kem_payload where
  "sample_payload = \<lparr>kp_ciphertext = [], kp_src_ip = replicate 16 1, kp_ts_millis = 5000,
     kp_nonce = replicate 32 2, kp_client_sig = [], kp_enc_data = []\<rparr>"

theorem process_payload_decision_witness:
  "process_payload sample_crates (V1 sample_crates) sample_server [] sample_payload (replicate 16 1) 9000 (sc_new 2000) =
    (Err StaleTimestamp, sc_new 2000)"
proof -
  have "kp_ok sample_payload" by (simp add: kp_ok_def sample_payload_def)
  from process_payload_decision [OF this sc_ok_new [of 2000], of sample_crates sample_server "[]" "replicate 16 1" 9000]
  show ?thesis
    by (simp add: sample_payload_def in_window_def sample_server_def)
qed

definition payload_checked ::
    "('ks, 'ss) cipher_suite \<Rightarrow> 'ks server_config \<Rightarrow> bytes \<Rightarrow> kem_payload \<Rightarrow> bytes \<Rightarrow> u64 \<Rightarrow> bool" where
  "payload_checked S cfg pk p peer now \<longleftrightarrow>
     kp_src_ip p = peer \<and>
     unat (kp_ts_millis p) \<le> unat now + unat (sv_skew_ms cfg) \<and>
     unat now \<le> unat (kp_ts_millis p) + unat (sv_window_ms cfg) \<and>
     sig_verify S pk (signed_message S pk p) (kp_client_sig p) = Ok ()"

lemma precheck_payload_checked:
  assumes "precheck S cfg pk p peer now = Ok ()"
  shows "payload_checked S cfg pk p peer now"
proof -
  have "cm_ok (payload_meta p)"
    using assms unfolding precheck_Ok_iff by (blast dest: verify_client_binding_cm_ok)
  from verify_client_binding_Ok_iff [OF this, of S pk "kp_ciphertext p" "kp_enc_data p" "kp_client_sig p"]
  have "sig_verify S pk (signed_message S pk p) (kp_client_sig p) = Ok ()"
    using assms unfolding precheck_Ok_iff binding_signed_message by blast
  then show ?thesis
    using assms unfolding precheck_Ok_iff in_window_def payload_checked_def by blast
qed

lemma process_payload_OkD:
  assumes "sc_ok strike" "process_payload C S cfg pk p peer now strike = (Ok se, strike')"
  shows "payload_checked S cfg pk p peer now \<and> tag_fresh strike now (payload_tag S p) \<and>
    seen_at strike' (payload_tag S p) = Some now \<and> unwrap_payload C S (sv_kem_secret cfg) p = Ok se"
  using assms(2) check_and_insert_records [OF assms(1)] precheck_payload_checked
  unfolding process_payload_Ok_iff [OF assms(1)] by blast

text \<open>
  C16. What acceptance means. If the server accepts a payload from \<open>peer\<close> then the payload
  claims exactly that address, its timestamp is within the window, the client key it presents
  verifies the signature over address, timestamp, nonce, key and the hashes of ciphertext and
  early data, its replay tag was not live, and the tag is recorded from now on.
\<close>

theorem accepted_payload_was_checked:
  assumes "sc_ok strike" "process_payload C S cfg pk p peer now strike = (Ok se, strike')"
  shows "kp_src_ip p = peer
    \<and> unat (kp_ts_millis p) \<le> unat now + unat (sv_skew_ms cfg)
    \<and> unat now \<le> unat (kp_ts_millis p) + unat (sv_window_ms cfg)
    \<and> sig_verify S pk (signed_message S pk p) (kp_client_sig p) = Ok ()
    \<and> tag_fresh strike now (hash256 S (kp_nonce p @ kp_enc_data p))
    \<and> seen_at strike' (hash256 S (kp_nonce p @ kp_enc_data p)) = Some now"
  using process_payload_OkD [OF assms] by (simp add: payload_checked_def replay_tag_def)

text \<open>A payload made by the sample client with timestamp \<open>ts\<close>, accepted by a new sample server.\<close>

lemma sample_accepted:
  assumes "in_window now ts 2000 1000"
  obtains p se where "kp_ok p" "kp_ts_millis p = ts"
    "process_payload sample_crates (V1 sample_crates) sample_server (cc_client_pk sample_client) p
      (replicate 16 1) now (sc_new 2000) =
      (Ok se, snd (check_and_insert (payload_tag (V1 sample_crates) p) now (sc_new 2000)))"
proof -
  obtain p ce where p: "payload_for sample_crates sample_client (sv_kem_secret sample_server) (replicate 16 1) ts [] p ce"
    using build_payload_ok [OF sample_crates_ok sample_rng_ok sample_client_good, of "replicate 16 1" "[]"]
    by (metis length_replicate list.size(3) zero_le)
  moreover have "in_window now ts (sv_window_ms sample_server) (sv_skew_ms sample_server)"
    using assms by (simp add: sample_server_def)
  ultimately obtain se where "process_payload sample_crates (V1 sample_crates) sample_server
      (cc_client_pk sample_client) p (replicate 16 1) now (sc_new 2000) =
      (Ok se, snd (check_and_insert (payload_tag (V1 sample_crates) p) now (sc_new 2000)))"
    using honest_payload_accepted [OF _ _ sc_ok_new tag_fresh_new] by metis
  moreover have "kp_ok p" "kp_ts_millis p = ts"
    using p by (simp_all add: payload_for_def kp_ok_def)
  ultimately show thesis using that by blast
qed

theorem accepted_payload_was_checked_witness:
  "\<exists>p se strike'. process_payload sample_crates (V1 sample_crates) sample_server (cc_client_pk sample_client) p
      (replicate 16 1) 1000000 (sc_new 2000) = (Ok se, strike') \<and>
    seen_at strike' (hash256 (V1 sample_crates) (kp_nonce p @ kp_enc_data p)) = Some 1000000"
proof -
  have "in_window 1000000 1000900 2000 1000" by (simp add: in_window_def)
  then obtain p se where acc:
    "process_payload sample_crates (V1 sample_crates) sample_server (cc_client_pk sample_client) p
      (replicate 16 1) 1000000 (sc_new 2000) =
      (Ok se, snd (check_and_insert (payload_tag (V1 sample_crates) p) 1000000 (sc_new 2000)))"
    by (rule sample_accepted)
  from accepted_payload_was_checked [OF sc_ok_new acc] acc show ?thesis by blast
qed


section \<open>Properties: replayed payloads\<close>

text \<open>Payloads from any peers, in the order in which they reach the shared strike cache.\<close>

fun serve_payloads ::
    "('dk, 'ek, 'sk, 'vk, 'sg, 'h) crates \<Rightarrow> ('ks, 'ss) cipher_suite \<Rightarrow> 'ks server_config \<Rightarrow>
      (bytes \<times> kem_payload \<times> bytes \<times> u64) list \<Rightarrow> strike_cache \<Rightarrow> strike_cache" where
  "serve_payloads C S cfg [] strike = strike"
| "serve_payloads C S cfg ((pk, p, peer, now) # rs) strike =
     serve_payloads C S cfg rs (snd (process_payload C S cfg pk p peer now strike))"

lemma process_payload_strike:
  "snd (process_payload C S cfg pk p peer now strike) =
    (if precheck S cfg pk p peer now = Ok () then snd (check_and_insert (payload_tag S p) now strike)
     else strike)"
  by (auto simp: process_payload_eq split: result.splits prod.splits)

lemma serve_payloads_serve_all:
  "\<exists>reqs. serve_payloads C S cfg rs strike = serve_all reqs strike \<and>
    snd ` set reqs \<subseteq> (\<lambda>(_, _, _, now). now) ` set rs"
proof (induction rs arbitrary: strike)
  case Nil
  then show ?case by (intro exI [of _ "[]"]) simp
next
  case (Cons r rs)
  obtain pk p peer now where r: "r = (pk, p, peer, now)" by (cases r)
  obtain reqs where reqs: "serve_payloads C S cfg rs (snd (process_payload C S cfg pk p peer now strike)) =
      serve_all reqs (snd (process_payload C S cfg pk p peer now strike))"
      "snd ` set reqs \<subseteq> (\<lambda>(_, _, _, now). now) ` set rs"
    using Cons by metis
  show ?case
  proof (cases "precheck S cfg pk p peer now = Ok ()")
    case True
    then show ?thesis
      using reqs r by (intro exI [of _ "(payload_tag S p, now) # reqs"]) (auto simp: process_payload_strike)
  next
    case False
    then show ?thesis
      using reqs r by (intro exI [of _ reqs]) (auto simp: process_payload_strike)
  qed
qed

text \<open>Once accepted, a tag stays known while every later clock reading is within the window.\<close>

lemma accepted_tag_stays:
  assumes "sc_ok strike" "process_payload C S cfg pk p peer now strike = (Ok se, strike')"
    and "\<forall>(_, _, _, n) \<in> set rs. live (sc_window_ms strike) n now"
  shows "seen_at (serve_payloads C S cfg rs strike') (payload_tag S p) = Some now"
    and "sc_ok (serve_payloads C S cfg rs strike')"
    and "sc_window_ms (serve_payloads C S cfg rs strike') = sc_window_ms strike"
proof -
  have acc: "tag_fresh strike now (payload_tag S p)" "strike' = snd (check_and_insert (payload_tag S p) now strike)"
    using assms(2) process_payload_Ok_iff [OF assms(1)] by blast+
  have ok: "sc_ok strike'" and w: "sc_window_ms strike' = sc_window_ms strike"
    using acc(2) sc_ok_check_and_insert [OF assms(1)] by simp_all
  obtain reqs where reqs: "serve_payloads C S cfg rs strike' = serve_all reqs strike'"
      "snd ` set reqs \<subseteq> (\<lambda>(_, _, _, now). now) ` set rs"
    using serve_payloads_serve_all by metis
  from reqs(2) assms(3) have "\<forall>(_, n) \<in> set reqs. live (sc_window_ms strike') n now"
    unfolding w by fastforce
  then show "seen_at (serve_payloads C S cfg rs strike') (payload_tag S p) = Some now"
    using strikes.remembered [OF ok, of "payload_tag S p" now reqs] check_and_insert_records [OF assms(1) acc(1)]
    unfolding reqs(1) serve_all_run acc(2) [symmetric] by simp
  show "sc_ok (serve_payloads C S cfg rs strike')"
    and "sc_window_ms (serve_payloads C S cfg rs strike') = sc_window_ms strike"
    using sc_ok_serve_all [OF ok] w by (simp_all add: reqs(1))
qed

text \<open>The outcome of a second delivery of an accepted payload.\<close>

lemma second_delivery:
  assumes "sc_ok strike" "process_payload C S cfg pk p peer now strike = (Ok se, strike')" "sc_ok strike2"
    and "unat now \<le> unat now2"
  shows "fst (process_payload C S cfg pk p peer now2 strike2) =
    (if unat (kp_ts_millis p) + unat (sv_window_ms cfg) < unat now2 then Err StaleTimestamp
     else if tag_fresh strike2 now2 (payload_tag S p) then Ok se else Err Replayed)"
proof -
  have acc: "precheck S cfg pk p peer now = Ok ()" "unwrap_payload C S (sv_kem_secret cfg) p = Ok se"
    using assms(2) process_payload_Ok_iff [OF assms(1)] by blast+
  then have "in_window now2 (kp_ts_millis p) (sv_window_ms cfg) (sv_skew_ms cfg) \<longleftrightarrow>
      unat now2 \<le> unat (kp_ts_millis p) + unat (sv_window_ms cfg)"
    using assms(4) by (auto simp: precheck_Ok_iff in_window_def)
  then have "precheck S cfg pk p peer now2 =
      (if unat (kp_ts_millis p) + unat (sv_window_ms cfg) < unat now2 then Err StaleTimestamp else Ok ())"
    using acc(1) by (auto simp: precheck_Ok_iff) (auto simp: precheck_def)
  then show ?thesis
    using acc(2) by (simp add: process_payload_outcome [OF assms(3)])
qed

text \<open>
  No second acceptance of a payload that was not ahead of the server's clock. Suppose the
  server, whose cache uses the configured window, has accepted a payload whose timestamp is not
  later than its clock reading \<open>now\<close>. After any further payloads from any peers, and at any
  later time, the same payload is refused: as replayed while its timestamp is within the
  window, as stale afterwards. (No clock reading in between may be later than the last one.)
\<close>

theorem accepted_payload_refused_later:
  assumes "sc_ok strike" "sc_window_ms strike = sv_window_ms cfg"
    and "process_payload C S cfg pk p peer now strike = (Ok se, strike')"
    and "unat (kp_ts_millis p) \<le> unat now" "unat now \<le> unat now2"
    and "\<forall>(_, _, _, n) \<in> set rs. unat n \<le> unat now2"
  shows "fst (process_payload C S cfg pk p peer now2 (serve_payloads C S cfg rs strike')) =
    (if unat (kp_ts_millis p) + unat (sv_window_ms cfg) < unat now2 then Err StaleTimestamp else Err Replayed)"
proof -
  obtain reqs where "serve_payloads C S cfg rs strike' = serve_all reqs strike'"
    using serve_payloads_serve_all by metis
  moreover have "sc_ok strike'"
    using assms(1,3) process_payload_strike [of C S cfg pk p peer now strike] sc_ok_check_and_insert
    by (simp split: if_splits)
  ultimately have ok: "sc_ok (serve_payloads C S cfg rs strike')"
    by (simp add: sc_ok_serve_all)
  show ?thesis
  proof (cases "unat (kp_ts_millis p) + unat (sv_window_ms cfg) < unat now2")
    case True
    then show ?thesis using second_delivery [OF assms(1,3) ok assms(5)] by simp
  next
    case False
    then have "\<forall>(_, _, _, n) \<in> set rs. live (sc_window_ms strike) n now" "live (sc_window_ms strike) now2 now"
      using assms(2,4,6) by (fastforce simp: live_def)+
    with accepted_tag_stays [OF assms(1,3)]
    have "\<not> tag_fresh (serve_payloads C S cfg rs strike') now2 (payload_tag S p)"
      by (simp add: tag_fresh_def)
    then show ?thesis using second_delivery [OF assms(1,3) ok assms(5)] by simp
  qed
qed

theorem accepted_payload_refused_later_witness:
  "\<exists>p se strike'. process_payload sample_crates (V1 sample_crates) sample_server (cc_client_pk sample_client) p
      (replicate 16 1) 1000000 (sc_new 2000) = (Ok se, strike') \<and>
    fst (process_payload sample_crates (V1 sample_crates) sample_server (cc_client_pk sample_client) p
      (replicate 16 1) 1001500 (serve_payloads sample_crates (V1 sample_crates) sample_server
        [([], sample_payload, [], 1000700)] strike')) = Err Replayed"
proof -
  have "in_window 1000000 999900 2000 1000" by (simp add: in_window_def)
  then obtain p se where p: "kp_ts_millis p = 999900" and acc:
    "process_payload sample_crates (V1 sample_crates) sample_server (cc_client_pk sample_client) p
      (replicate 16 1) 1000000 (sc_new 2000) =
      (Ok se, snd (check_and_insert (payload_tag (V1 sample_crates) p) 1000000 (sc_new 2000)))"
    by (rule sample_accepted)
  have w: "sc_window_ms (sc_new 2000) = sv_window_ms sample_server" "sv_window_ms sample_server = 2000"
    by (simp_all add: sc_new_def sample_server_def)
  from accepted_payload_refused_later [OF sc_ok_new w(1) acc, of 1001500 "[([], sample_payload, [], 1000700)]"]
  show ?thesis using acc p w(2) by auto
qed

text \<open>
  C28. A payload can be accepted twice. The strike cache keeps a tag for the window counted
  from its arrival \<open>now\<close>, but the timestamp check accepts the payload until the window counted
  from its own timestamp has passed. For the same payload delivered again at \<open>now2\<close>: it is
  stale once \<open>ts + window < now2\<close>; before that it is refused as replayed only up to
  \<open>now + window\<close>; between the two, which is possible exactly for payloads whose timestamp was
  ahead of the server's clock (the skew tolerance permits it), it is accepted again, with the
  same session and the same early data.
\<close>

theorem payload_delivered_twice:
  assumes "sc_ok strike" "sc_window_ms strike = sv_window_ms cfg"
    and "process_payload C S cfg pk p peer now strike = (Ok se, strike')"
    and "unat now \<le> unat now2"
  shows "fst (process_payload C S cfg pk p peer now2 strike') =
    (if unat (kp_ts_millis p) + unat (sv_window_ms cfg) < unat now2 then Err StaleTimestamp
     else if unat now2 \<le> unat now + unat (sv_window_ms cfg) then Err Replayed
     else Ok se)"
proof -
  have s: "seen_at strike' (payload_tag S p) = Some now" "sc_ok strike'" "sc_window_ms strike' = sc_window_ms strike"
    using accepted_tag_stays [OF assms(1,3), of "[]"] by simp_all
  then have "tag_fresh strike' now2 (payload_tag S p) \<longleftrightarrow> unat now + unat (sv_window_ms cfg) < unat now2"
    using assms(2) by (auto simp: tag_fresh_def live_def)
  then show ?thesis
    using second_delivery [OF assms(1,3) s(2) assms(4)] by auto
qed

theorem payload_delivered_twice_witness:
  "\<exists>p se strike'. process_payload sample_crates (V1 sample_crates) sample_server (cc_client_pk sample_client) p
      (replicate 16 1) 1000000 (sc_new 2000) = (Ok se, strike') \<and>
    fst (process_payload sample_crates (V1 sample_crates) sample_server (cc_client_pk sample_client) p
      (replicate 16 1) 1002500 strike') = Ok se"
proof -
  have "in_window 1000000 1000900 2000 1000" by (simp add: in_window_def)
  then obtain p se where p: "kp_ts_millis p = 1000900" and acc:
    "process_payload sample_crates (V1 sample_crates) sample_server (cc_client_pk sample_client) p
      (replicate 16 1) 1000000 (sc_new 2000) =
      (Ok se, snd (check_and_insert (payload_tag (V1 sample_crates) p) 1000000 (sc_new 2000)))"
    by (rule sample_accepted)
  have w: "sc_window_ms (sc_new 2000) = sv_window_ms sample_server" "sv_window_ms sample_server = 2000"
    by (simp_all add: sc_new_def sample_server_def)
  from payload_delivered_twice [OF sc_ok_new w(1) acc, of 1002500]
  show ?thesis using acc p w(2) by auto
qed


section \<open>Properties: payloads signed anew\<close>

text \<open>A copy of a payload for another address and time, signed with another client's key.\<close>

definition resigned ::
    "('dk, 'ek, 'sk, 'vk, 'sg, 'h) crates \<Rightarrow> 'sk client_config \<Rightarrow> bytes \<Rightarrow> u64 \<Rightarrow> kem_payload \<Rightarrow> kem_payload" where
  "resigned C other ip ts p =
     (let q = p\<lparr>kp_src_ip := ip, kp_ts_millis := ts\<rparr> in
      case sign_client_binding (V1 C) (cc_sig_secret other) (payload_meta q) (cc_client_pk other) (kp_ciphertext q) (kp_enc_data q) of
        Ok sig \<Rightarrow> q\<lparr>kp_client_sig := sig\<rparr>
      | _ \<Rightarrow> q)"

lemma resigned_fields [simp]:
  "kp_src_ip (resigned C other ip ts p) = ip" "kp_ts_millis (resigned C other ip ts p) = ts"
  "kp_nonce (resigned C other ip ts p) = kp_nonce p" "kp_ciphertext (resigned C other ip ts p) = kp_ciphertext p"
  "kp_enc_data (resigned C other ip ts p) = kp_enc_data p"
  by (simp_all add: resigned_def Let_def split: result.split)

lemma unwrap_resigned [simp]: "unwrap_payload C S sk (resigned C other ip ts p) = unwrap_payload C S sk p"
  by (simp add: unwrap_payload_def)

lemma resigned_verifies:
  assumes "crates_ok C" "good_client C other" "length ip = 16" "length (kp_nonce p) = 32"
  shows "verify_client_binding (V1 C) (cc_client_pk other) (payload_meta (resigned C other ip ts p)) (kp_ciphertext p) (kp_enc_data p)
      (kp_client_sig (resigned C other ip ts p)) = Ok ()"
    and "length (kp_client_sig (resigned C other ip ts p)) = 3309"
proof -
  let ?q = "p\<lparr>kp_src_ip := ip, kp_ts_millis := ts\<rparr>"
  have "cm_ok (payload_meta ?q)" using assms(3,4) by (simp add: cm_ok_def)
  then obtain sig where sig: "sign_client_binding (V1 C) (cc_sig_secret other) (payload_meta ?q) (sig_public (V1 C) (cc_sig_secret other))
        (kp_ciphertext p) (kp_enc_data p) = Ok sig" "length sig = SIG_LEN (V1 C)"
      "verify_client_binding (V1 C) (sig_public (V1 C) (cc_sig_secret other)) (payload_meta ?q) (kp_ciphertext p) (kp_enc_data p) sig = Ok ()"
    using v1.sign_verify_binding [OF assms(1)] by blast
  have "resigned C other ip ts p = ?q\<lparr>kp_client_sig := sig\<rparr>"
    using sig(1) assms(2) by (simp add: resigned_def good_client_def)
  with sig(2,3) assms(2) show "verify_client_binding (V1 C) (cc_client_pk other) (payload_meta (resigned C other ip ts p)) (kp_ciphertext p)
      (kp_enc_data p) (kp_client_sig (resigned C other ip ts p)) = Ok ()"
    and "length (kp_client_sig (resigned C other ip ts p)) = 3309"
    by (simp_all add: good_client_def V1_def v1_sizes)
qed

lemma resigned_payload_for:
  assumes "crates_ok C" "good_client C other" "length ip = 16" "payload_for C ccfg sk src_ip ts early p ce"
  shows "payload_for C other sk ip ts' early (resigned C other ip ts' p) ce"
  using assms(4) resigned_verifies [OF assms(1-3), of p ts'] by (simp add: payload_for_def)

definition other_client :: "256 word client_config" where
  "other_client = \<lparr>cc_sig_secret = 6, cc_client_pk = sig_public (V1 sample_crates) 6\<rparr>"

lemma other_client_good: "good_client sample_crates other_client"
  by (simp add: good_client_def other_client_def)

text \<open>
  C29. A payload can be used by another client. The ciphertext, the nonce and the early data of a
  payload, which alone determine the session, are not tied to the client key, the address and the
  time in its signature, and the server accepts every client key. So whoever has seen a payload
  that the server accepted at \<open>now\<close> can sign it anew, with another key, for another address and with
  a current timestamp: while the tag is in the strike cache, up to \<open>now + window\<close>, the copy is
  refused as replayed, and at any later time it is accepted, with the session keys, record state
  and early data of the original.
\<close>

theorem resigned_payload_accepted:
  assumes "crates_ok C" "good_client C other" "length ip = 16"
    and "sc_ok strike" "sc_window_ms strike = sv_window_ms cfg"
    and "process_payload C (V1 C) cfg pk p peer now strike = (Ok se, strike')"
    and "in_window now2 ts (sv_window_ms cfg) (sv_skew_ms cfg)"
  shows "fst (process_payload C (V1 C) cfg (cc_client_pk other) (resigned C other ip ts p) ip now2 strike') =
    (if unat now2 \<le> unat now + unat (sv_window_ms cfg) then Err Replayed else Ok se)"
proof -
  have acc: "precheck (V1 C) cfg pk p peer now = Ok ()" "unwrap_payload C (V1 C) (sv_kem_secret cfg) p = Ok se"
    using assms(6) process_payload_Ok_iff [OF assms(4)] by blast+
  then have "length (kp_nonce p) = 32"
    using verify_client_binding_cm_ok [of "V1 C" pk "payload_meta p"] by (auto simp: precheck_Ok_iff cm_ok_def)
  with assms(7) resigned_verifies(1) [OF assms(1-3)] have pre: "precheck (V1 C) cfg (cc_client_pk other) (resigned C other ip ts p) ip now2 = Ok ()"
    by (simp add: precheck_Ok_iff)
  have s: "seen_at strike' (payload_tag (V1 C) p) = Some now" "sc_ok strike'" "sc_window_ms strike' = sc_window_ms strike"
    using accepted_tag_stays [OF assms(4,6), of "[]"] by simp_all
  then have "tag_fresh strike' now2 (payload_tag (V1 C) p) \<longleftrightarrow> \<not> unat now2 \<le> unat now + unat (sv_window_ms cfg)"
    using assms(5) by (auto simp: tag_fresh_def live_def)
  then show ?thesis
    using acc(2) by (simp add: process_payload_outcome [OF s(2)] pre)
qed

theorem resigned_payload_accepted_witness:
  "\<exists>p se strike'. process_payload sample_crates (V1 sample_crates) sample_server (cc_client_pk sample_client) p
      (replicate 16 1) 1000000 (sc_new 2000) = (Ok se, strike') \<and>
    fst (process_payload sample_crates (V1 sample_crates) sample_server (cc_client_pk other_client)
      (resigned sample_crates other_client (replicate 16 2) 5000000 p) (replicate 16 2) 5000000 strike') = Ok se"
proof -
  have win: "in_window 5000000 5000000 (sv_window_ms sample_server) (sv_skew_ms sample_server)" "in_window 1000000 1000900 2000 1000"
    by (simp_all add: in_window_def)
  obtain p se where acc: "process_payload sample_crates (V1 sample_crates) sample_server (cc_client_pk sample_client) p
      (replicate 16 1) 1000000 (sc_new 2000) =
      (Ok se, snd (check_and_insert (payload_tag (V1 sample_crates) p) 1000000 (sc_new 2000)))"
    using sample_accepted [OF win(2)] by metis
  have w: "sc_window_ms (sc_new 2000) = sv_window_ms sample_server" "sv_window_ms sample_server = 2000"
    by (simp_all add: sc_new_def sample_server_def)
  have "length (replicate 16 2 :: bytes) = 16" by simp
  from resigned_payload_accepted [OF sample_crates_ok other_client_good this sc_ok_new w(1) acc win(1)]
  show ?thesis using acc w(2) by auto
qed

end
