(* ===== verification/Transport.thy ===== *)
theory Transport
  imports Messages Suite
begin

text \<open>
  The length-prefixed frame transport of \<open>ort-net/src/transport.rs\<close>. The asynchronous byte
  streams of tokio are a parameter: the record \<open>tokio_io\<close> holds the operations the code calls,
  \<open>io_ok\<close> what their documentation promises. The locales \<open>frame_source\<close> and \<open>frame_sink\<close> are the
  contract between the transport and the session driver.
\<close>

section \<open>Streams\<close>

datatype error_kind = UnexpectedEof | InvalidData | OtherKind nat

text \<open>The cause an I/O error carries: none of the program's, a codec error or a protocol error.\<close>

datatype io_cause = OsCause | ProtoCause proto_error | CoreCause core_error

datatype io_error = IoError (io_kind: error_kind) (io_cause: io_cause)

text \<open>
  \<open>io_read n\<close> fills at most \<open>n\<close> bytes and returns what it has read, nothing at the end of the
  stream; \<open>io_read_exact n\<close> returns exactly \<open>n\<close> bytes.
\<close>

record ('r, 'w) tokio_io =
  io_read :: "nat \<Rightarrow> (bytes, io_error, 'r) sm"
  io_read_exact :: "nat \<Rightarrow> (bytes, io_error, 'r) sm"
  io_write_all :: "bytes \<Rightarrow> (unit, io_error, 'w) sm"
  io_flush :: "(unit, io_error, 'w) sm"
  io_shutdown :: "(unit, io_error, 'w) sm"


section \<open>Framed reader and writer\<close>

text \<open>\<open>FramedReader\<close> and \<open>FramedWriter\<close> hold nothing but the stream they wrap.\<close>

definition read_frame :: "('r, 'w) tokio_io \<Rightarrow> (bytes option, io_error, 'r) sm" where
  "read_frame io r =
     (case io_read_exact io 4 r of
        (Ok len_buf, r) \<Rightarrow>
          sbind (slift (map_err (\<lambda>e. IoError InvalidData (ProtoCause e)) (parse_len len_buf))) (\<lambda>n.
          sbind (io_read_exact io n) (\<lambda>body.
          sreturn (Some body))) r
      | (Err e, r) \<Rightarrow> (if io_kind e = UnexpectedEof then (Ok None, r) else (Err e, r))
      | (Panic, r) \<Rightarrow> (Panic, r))"

definition write_frame :: "('r, 'w) tokio_io \<Rightarrow> bytes \<Rightarrow> (unit, io_error, 'w) sm" where
  "write_frame io body =
     (let framed = encode_framed body in
      sbind (io_write_all io framed) (\<lambda>_. io_flush io))"

definition fw_shutdown :: "('r, 'w) tokio_io \<Rightarrow> (unit, io_error, 'w) sm" where
  "fw_shutdown io = io_shutdown io"


section \<open>What the streams document\<close>

text \<open>
  A view of a stream: \<open>inc r\<close> is what it is still going to deliver and \<open>fin r\<close> how it ends
  (\<open>None\<close> for an orderly end, otherwise the error); \<open>out w\<close> is what has been written, and
  \<open>up w\<close> tells whether the connection still takes data.
\<close>

definition read_exact_ok ::
    "('r, 'w) tokio_io \<Rightarrow> ('r \<Rightarrow> bytes) \<Rightarrow> ('r \<Rightarrow> io_error option) \<Rightarrow> bool" where
  "read_exact_ok io inc fin \<longleftrightarrow> (\<forall>n r.
     (n \<le> length (inc r) \<longrightarrow>
       (\<exists>r'. io_read_exact io n r = (Ok (take n (inc r)), r') \<and> inc r' = drop n (inc r) \<and> fin r' = fin r)) \<and>
     (length (inc r) < n \<longrightarrow>
       (\<exists>e. fst (io_read_exact io n r) = Err e \<and>
         (case fin r of None \<Rightarrow> io_kind e = UnexpectedEof | Some e' \<Rightarrow> e = e'))))"

definition write_ok :: "('r, 'w) tokio_io \<Rightarrow> ('w \<Rightarrow> bytes) \<Rightarrow> ('w \<Rightarrow> bool) \<Rightarrow> bool" where
  "write_ok io out up \<longleftrightarrow> (\<forall>w. up w \<longrightarrow>
     (\<forall>bs. \<exists>w'. io_write_all io bs w = (Ok (), w') \<and> out w' = out w @ bs \<and> up w') \<and>
     (\<exists>w'. io_flush io w = (Ok (), w') \<and> out w' = out w \<and> up w'))"

definition read_ok ::
    "('r, 'w) tokio_io \<Rightarrow> ('r \<Rightarrow> bytes) \<Rightarrow> ('r \<Rightarrow> io_error option) \<Rightarrow> bool" where
  "read_ok io inc fin \<longleftrightarrow> (\<forall>n r. 0 < n \<longrightarrow> fin r = None \<longrightarrow>
     (inc r = [] \<longrightarrow> (\<exists>r'. io_read io n r = (Ok [], r') \<and> inc r' = [] \<and> fin r' = None)) \<and>
     (inc r \<noteq> [] \<longrightarrow>
       (\<exists>k r'. 0 < k \<and> k \<le> n \<and> k \<le> length (inc r) \<and>
         io_read io n r = (Ok (take k (inc r)), r') \<and> inc r' = drop k (inc r) \<and> fin r' = None)))"

text \<open>Closing a stream adds nothing to what it has carried.\<close>

definition shutdown_ok :: "('r, 'w) tokio_io \<Rightarrow> ('w \<Rightarrow> bytes) \<Rightarrow> ('w \<Rightarrow> bool) \<Rightarrow> bool" where
  "shutdown_ok io out up \<longleftrightarrow> (\<forall>w. up w \<longrightarrow> (\<exists>w'. io_shutdown io w = (Ok (), w') \<and> out w' = out w))"

text \<open>A stand-in for the witnesses: what is to come with its end, what was written and whether it is up.\<close>

definition sample_io :: "(bytes \<times> io_error option, bytes \<times> bool) tokio_io" where
  "sample_io = \<lparr>
     io_read = (\<lambda>n (bs, e). (Ok (take n bs), (drop n bs, e))),
     io_read_exact = (\<lambda>n (bs, e). if n \<le> length bs then (Ok (take n bs), (drop n bs, e))
       else (case e of None \<Rightarrow> Err (IoError UnexpectedEof OsCause) | Some e \<Rightarrow> Err e, ([], e))),
     io_write_all = (\<lambda>bs (out, up). if up then (Ok (), (out @ bs, up)) else (Err (IoError (OtherKind 32) OsCause), (out, up))),
     io_flush = (\<lambda>w. (Ok (), w)),
     io_shutdown = (\<lambda>(out, up). (Ok (), (out, False)))\<rparr>"

lemma sample_io_ok: "read_exact_ok sample_io fst snd" "write_ok sample_io fst snd" "shutdown_ok sample_io fst snd"
  by (auto simp: read_exact_ok_def write_ok_def shutdown_ok_def sample_io_def split: option.split)

lemma sample_io_read_ok: "read_ok sample_io fst snd"
proof -
  have "\<exists>k. 0 < k \<and> k \<le> n \<and> k \<le> length bs \<and> take n bs = take k bs \<and> drop n bs = drop k bs"
    if "0 < n" "bs \<noteq> []" for n and bs :: bytes
    using that by (intro exI [of _ "min n (length bs)"]) (auto simp: min_def)
  then show ?thesis
    by (fastforce simp: read_ok_def sample_io_def)
qed


section \<open>Reading and writing frames\<close>

lemma read_exact_enough:
  assumes "read_exact_ok io inc fin" "n \<le> length (inc r)"
  obtains r' where "io_read_exact io n r = (Ok (take n (inc r)), r')" "inc r' = drop n (inc r)" "fin r' = fin r"
  using assms unfolding read_exact_ok_def by blast

lemma read_exact_short:
  assumes "read_exact_ok io inc fin" "length (inc r) < n"
  obtains e r' where "io_read_exact io n r = (Err e, r')"
    "case fin r of None \<Rightarrow> io_kind e = UnexpectedEof | Some e' \<Rightarrow> e = e'"
  using assms unfolding read_exact_ok_def by (metis fst_eqE)

lemma parse_len_prefix: "length body \<le> MAX_FRAME \<Longrightarrow>
    parse_len (u32_to_be_bytes (word_of_nat (length body))) = Ok (length body)"
  by (simp add: parse_len_def MAX_FRAME_def unsigned_of_nat take_bit_eq_mod)

lemma read_frame_framed:
  assumes "read_exact_ok io inc fin" "inc r = encode_framed body @ later" "length body \<le> MAX_FRAME"
  obtains r' where "read_frame io r = (Ok (Some body), r')" "inc r' = later" "fin r' = fin r"
proof -
  let ?len = "u32_to_be_bytes (word_of_nat (length body))"
  have inc: "inc r = ?len @ body @ later" "length ?len = 4"
    using assms(2) by (simp_all add: encode_framed_def)
  obtain r1 where r1: "io_read_exact io 4 r = (Ok ?len, r1)" "inc r1 = body @ later" "fin r1 = fin r"
    using read_exact_enough [OF assms(1), of 4 r] inc
    by (metis append_eq_conv_conj le_add1 length_append)
  obtain r2 where "io_read_exact io (length body) r1 = (Ok body, r2)" "inc r2 = later" "fin r2 = fin r1"
    using read_exact_enough [OF assms(1), of "length body" r1] r1(2)
    by (metis append_eq_conv_conj le_add1 length_append)
  then show thesis
    using r1 that [of r2] by (simp add: read_frame_def parse_len_prefix [OF assms(3)] sbind_step)
qed

lemma write_frame_ok:
  assumes "write_ok io out up" "up w"
  obtains w' where "write_frame io body w = (Ok (), w')" "out w' = out w @ encode_framed body" "up w'"
proof -
  obtain w1 where "io_write_all io (encode_framed body) w = (Ok (), w1)" "out w1 = out w @ encode_framed body" "up w1"
    using assms unfolding write_ok_def by blast
  moreover from this(3) obtain w2 where "io_flush io w1 = (Ok (), w2)" "out w2 = out w1" "up w2"
    using assms(1) unfolding write_ok_def by blast
  ultimately show thesis
    using that by (simp add: write_frame_def sbind_step)
qed


section \<open>The contract of a framed connection\<close>

text \<open>
  \<open>pending r bs\<close>: the peer sends exactly the bodies \<open>bs\<close> and then closes. \<open>sent w bs\<close>: the
  connection is up and has carried exactly the bodies \<open>bs\<close>.
\<close>

locale frame_source =
  fixes recv :: "(bytes option, 'e, 'r) sm"
    and pending :: "'r \<Rightarrow> bytes list \<Rightarrow> bool"
  assumes recv_next: "pending r (b # bs) \<Longrightarrow> \<exists>r'. recv r = (Ok (Some b), r') \<and> pending r' bs"
    and recv_end: "pending r [] \<Longrightarrow> fst (recv r) = Ok None"

locale frame_sink =
  fixes send :: "bytes \<Rightarrow> (unit, 'e, 'w) sm"
    and sent :: "'w \<Rightarrow> bytes list \<Rightarrow> bool"
  assumes send_next: "sent w bs \<Longrightarrow> \<exists>w'. send b w = (Ok (), w') \<and> sent w' (bs @ [b])"

definition pending ::
    "('r, 'w) tokio_io \<Rightarrow> ('r \<Rightarrow> bytes) \<Rightarrow> ('r \<Rightarrow> io_error option) \<Rightarrow> 'r \<Rightarrow> bytes list \<Rightarrow> bool" where
  "pending io inc fin r bodies \<longleftrightarrow> read_exact_ok io inc fin \<and> inc r = concat (map encode_framed bodies) \<and>
     fin r = None \<and> (\<forall>b \<in> set bodies. length b \<le> MAX_FRAME)"

definition sent ::
    "('r, 'w) tokio_io \<Rightarrow> ('w \<Rightarrow> bytes) \<Rightarrow> ('w \<Rightarrow> bool) \<Rightarrow> 'w \<Rightarrow> bytes list \<Rightarrow> bool" where
  "sent io out up w bodies \<longleftrightarrow> write_ok io out up \<and> up w \<and> out w = concat (map encode_framed bodies)"

lemma read_frame_end:
  assumes "read_exact_ok io inc fin" "length (inc r) < 4" "fin r = None"
  shows "fst (read_frame io r) = Ok None"
proof -
  obtain e r' where "io_read_exact io 4 r = (Err e, r')" "io_kind e = UnexpectedEof"
    using read_exact_short [OF assms(1,2)] assms(3) by (metis option.case(1))
  then show ?thesis by (simp add: read_frame_def)
qed

interpretation source: frame_source "read_frame io" "pending io inc fin" for io inc fin
proof
  fix r b bs
  assume p: "pending io inc fin r (b # bs)"
  then obtain r' where "read_frame io r = (Ok (Some b), r')" "inc r' = concat (map encode_framed bs)" "fin r' = fin r"
    using read_frame_framed [of io inc fin r b "concat (map encode_framed bs)"] by (auto simp: pending_def)
  then show "\<exists>r'. read_frame io r = (Ok (Some b), r') \<and> pending io inc fin r' bs"
    using p by (auto simp: pending_def)
next
  fix r
  assume "pending io inc fin r []"
  then show "fst (read_frame io r) = Ok None"
    by (intro read_frame_end [of io inc fin]) (auto simp: pending_def)
qed

interpretation sink: frame_sink "write_frame io" "sent io out up" for io out up
proof
  fix w bs b
  assume p: "sent io out up w bs"
  then obtain w' where "write_frame io b w = (Ok (), w')" "out w' = out w @ encode_framed b" "up w'"
    using write_frame_ok [of io out up w b] by (auto simp: sent_def)
  then show "\<exists>w'. write_frame io b w = (Ok (), w') \<and> sent io out up w' (bs @ [b])"
    using p by (auto simp: sent_def)
qed


section \<open>Properties\<close>

text \<open>What a short exact read reports: the error in which the stream ends, or the end of the stream.\<close>

definition ends_with :: "io_error option \<Rightarrow> io_error \<Rightarrow> bool" where
  "ends_with how e \<longleftrightarrow> (case how of None \<Rightarrow> io_kind e = UnexpectedEof | Some e' \<Rightarrow> e = e')"

fun write_frames :: "('r, 'w) tokio_io \<Rightarrow> bytes list \<Rightarrow> (unit, io_error, 'w) sm" where
  "write_frames io [] = sreturn ()"
| "write_frames io (b # bs) = sbind (write_frame io b) (\<lambda>_. write_frames io bs)"

fun read_frames :: "('r, 'w) tokio_io \<Rightarrow> nat \<Rightarrow> (bytes option list, io_error, 'r) sm" where
  "read_frames io 0 = sreturn []"
| "read_frames io (Suc n) =
     sbind (read_frame io) (\<lambda>b. sbind (read_frames io n) (\<lambda>bs. sreturn (b # bs)))"

lemma write_frames_sent:
  "sent io out up w bs \<Longrightarrow> \<exists>w'. write_frames io bodies w = (Ok (), w') \<and> sent io out up w' (bs @ bodies)"
proof (induction bodies arbitrary: w bs)
  case (Cons b bodies)
  from sink.send_next [OF Cons.prems] obtain w1 where
    "write_frame io b w = (Ok (), w1)" "sent io out up w1 (bs @ [b])" by blast
  with Cons.IH [of w1 "bs @ [b]"] show ?case by (auto simp: sbind_step)
qed simp

lemma read_frames_pending:
  "pending io inc fin r bodies \<Longrightarrow>
    \<exists>r'. read_frames io (Suc (length bodies)) r = (Ok (map Some bodies @ [None]), r')"
proof (induction bodies arbitrary: r)
  case Nil
  from source.recv_end [OF Nil] obtain r' where "read_frame io r = (Ok None, r')" by (rule fst_eqE)
  then show ?case by (simp add: sbind_step)
next
  case (Cons b bodies)
  from source.recv_next [OF Cons.prems] obtain r1 where
    "read_frame io r = (Ok (Some b), r1)" "pending io inc fin r1 bodies" by blast
  with Cons.IH [of r1] show ?case by (auto simp: sbind_step)
qed

text \<open>
  C33. Frames cross a connection unchanged. Whatever bodies of at most \<open>MAX_FRAME\<close> bytes are
  written with \<open>write_frame\<close>, a peer that receives the bytes written and then the end of the
  stream reads exactly these bodies in this order, and then \<open>None\<close>.
\<close>

theorem frames_cross_connection:
  assumes "write_ok io out up" "read_exact_ok io inc fin" "up w" "out w = []"
    and "\<forall>b \<in> set bodies. length b \<le> MAX_FRAME"
  shows "\<exists>w'. write_frames io bodies w = (Ok (), w') \<and>
    (\<forall>r. inc r = out w' \<longrightarrow> fin r = None \<longrightarrow>
      (\<exists>r'. read_frames io (length bodies + 1) r = (Ok (map Some bodies @ [None]), r')))"
proof -
  have "sent io out up w []" using assms(1,3,4) by (simp add: sent_def)
  from write_frames_sent [OF this, of bodies] obtain w' where w': "write_frames io bodies w = (Ok (), w')"
      "sent io out up w' bodies" by auto
  have "\<exists>r'. read_frames io (length bodies + 1) r = (Ok (map Some bodies @ [None]), r')"
    if "inc r = out w'" "fin r = None" for r
    using read_frames_pending [of io inc fin r bodies] that w'(2) assms(2,5) by (simp add: pending_def sent_def)
  with w'(1) show ?thesis by blast
qed

theorem frames_cross_connection_witness:
  "\<exists>w' r'. write_frames sample_io [[1, 2], []] ([], True) = (Ok (), w') \<and>
    read_frames sample_io 3 (fst w', None) = (Ok [Some [1, 2], Some [], None], r')"
proof -
  have "\<forall>b \<in> set [[1, 2], []]. length b \<le> MAX_FRAME" by (simp add: MAX_FRAME_def)
  from frames_cross_connection [OF sample_io_ok(2,1), of "([], True)", OF _ _ this]
  show ?thesis by (auto simp: numeral_eq_Suc)
qed

text \<open>
  C34. What \<open>read_frame\<close> makes of any incoming stream, whether it ends in order or in an error of
  the connection. A complete frame within the size limit is returned, and the rest of the stream is
  left; an announced length over the limit is refused before any of the body is read, so a peer
  cannot make the reader allocate more than \<open>MAX_FRAME\<close> bytes; a stream that breaks off inside a body
  is an error, the one in which it ends. A stream with fewer than four bytes left is \<open>None\<close> if it
  ends in order, which is not only the end between two frames but also one inside a length prefix;
  if it ends in an error, this error is returned, unless it is of the kind \<open>UnexpectedEof\<close>, which is
  \<open>None\<close> too.
\<close>

theorem read_frame_decision:
  assumes "read_exact_ok io inc fin"
  shows "let n = unat (u32_from_be_bytes (take 4 (inc r))) in
    (length (inc r) < 4 \<longrightarrow> fst (read_frame io r) =
      (case fin r of None \<Rightarrow> Ok None | Some e \<Rightarrow> if io_kind e = UnexpectedEof then Ok None else Err e)) \<and>
    (4 \<le> length (inc r) \<and> MAX_FRAME < n \<longrightarrow>
      (\<exists>r'. read_frame io r = (Err (IoError InvalidData (ProtoCause (FrameTooLarge n))), r') \<and>
        inc r' = drop 4 (inc r) \<and> fin r' = fin r)) \<and>
    (4 \<le> length (inc r) \<and> n \<le> MAX_FRAME \<and> length (inc r) < 4 + n \<longrightarrow>
      (\<exists>e. fst (read_frame io r) = Err e \<and> ends_with (fin r) e)) \<and>
    (n \<le> MAX_FRAME \<and> 4 + n \<le> length (inc r) \<longrightarrow>
      (\<exists>r'. read_frame io r = (Ok (Some (take n (drop 4 (inc r)))), r') \<and>
        inc r' = drop (4 + n) (inc r) \<and> fin r' = fin r))"
proof -
  let ?n = "unat (u32_from_be_bytes (take 4 (inc r)))"
  have short: "fst (read_frame io r) = (case fin r of None \<Rightarrow> Ok None | Some e \<Rightarrow> if io_kind e = UnexpectedEof then Ok None else Err e)"
    if len: "length (inc r) < 4"
  proof -
    obtain e r' where "io_read_exact io 4 r = (Err e, r')" "ends_with (fin r) e"
      using read_exact_short [OF assms len] unfolding ends_with_def by blast
    then show ?thesis by (auto simp: read_frame_def ends_with_def split: option.splits)
  qed
  obtain r1 where r1: "io_read_exact io 4 r = (Ok (take 4 (inc r)), r1)" "inc r1 = drop 4 (inc r)" "fin r1 = fin r"
    if "4 \<le> length (inc r)"
    using read_exact_enough [OF assms, of 4 r] by metis
  have long: "read_frame io r = (Err (IoError InvalidData (ProtoCause (FrameTooLarge ?n))), r1)"
    if "4 \<le> length (inc r)" "MAX_FRAME < ?n"
    using r1(1) [OF that(1)] that(2) by (simp add: read_frame_def parse_len_def Let_def sbind_def slift_def)
  have body: "read_frame io r = sbind (io_read_exact io ?n) (\<lambda>body. sreturn (Some body)) r1"
    if "4 \<le> length (inc r)" "?n \<le> MAX_FRAME"
    using r1(1) [OF that(1)] that(2) by (simp add: read_frame_def parse_len_def Let_def sbind_def slift_def)
  have cut: "\<exists>e. fst (read_frame io r) = Err e \<and> ends_with (fin r) e"
    if n: "4 \<le> length (inc r)" "?n \<le> MAX_FRAME" "length (inc r) < 4 + ?n"
  proof -
    have "length (inc r1) < ?n" using r1(2) [OF n(1)] n by simp
    then obtain e r2 where "io_read_exact io ?n r1 = (Err e, r2)" "ends_with (fin r) e"
      using read_exact_short [OF assms] r1(3) [OF n(1)] unfolding ends_with_def by metis
    then show ?thesis using body [OF n(1,2)] by (simp add: sbind_def)
  qed
  have full: "\<exists>r'. read_frame io r = (Ok (Some (take ?n (drop 4 (inc r)))), r') \<and> inc r' = drop (4 + ?n) (inc r) \<and> fin r' = fin r"
    if n: "?n \<le> MAX_FRAME" "4 + ?n \<le> length (inc r)"
  proof -
    have four: "4 \<le> length (inc r)" using n(2) by simp
    then have "?n \<le> length (inc r1)" using r1(2) n(2) by simp
    then obtain r2 where "io_read_exact io ?n r1 = (Ok (take ?n (inc r1)), r2)" "inc r2 = drop ?n (inc r1)" "fin r2 = fin r1"
      by (rule read_exact_enough [OF assms])
    then show ?thesis
      using body [OF four n(1)] r1(2,3) [OF four] by (simp add: sbind_step add.commute)
  qed
  from short long r1(2,3) cut full show ?thesis unfolding Let_def by blast
qed

theorem read_frame_decision_witness:
  "fst (read_frame sample_io ([0, 0], None)) = Ok None \<and>
   fst (read_frame sample_io ([0, 0], Some (IoError (OtherKind 104) OsCause))) = Err (IoError (OtherKind 104) OsCause) \<and>
   fst (read_frame sample_io ([0, 0, 0, 2, 7], Some (IoError (OtherKind 104) OsCause))) = Err (IoError (OtherKind 104) OsCause) \<and>
   fst (read_frame sample_io ([0xFF, 0, 0, 0, 1], None)) = Err (IoError InvalidData (ProtoCause (FrameTooLarge 0xFF000000)))"
proof -
  note decision = read_frame_decision [OF sample_io_ok(1)]
  have "fst (read_frame sample_io ([0, 0], None)) = Ok None"
      "fst (read_frame sample_io ([0, 0], Some (IoError (OtherKind 104) OsCause))) = Err (IoError (OtherKind 104) OsCause)"
    using decision [of "([0, 0], None)"] decision [of "([0, 0], Some (IoError (OtherKind 104) OsCause))"] by simp_all
  moreover have "fst (read_frame sample_io ([0, 0, 0, 2, 7], Some (IoError (OtherKind 104) OsCause))) = Err (IoError (OtherKind 104) OsCause)"
    using decision [of "([0, 0, 0, 2, 7], Some (IoError (OtherKind 104) OsCause))"]
    by (simp add: u32_from_be_bytes_def be_value_def MAX_FRAME_def ends_with_def)
  moreover have "fst (read_frame sample_io ([0xFF, 0, 0, 0, 1], None)) = Err (IoError InvalidData (ProtoCause (FrameTooLarge 0xFF000000)))"
    using decision [of "([0xFF, 0, 0, 0, 1], None)"] by (auto simp: u32_from_be_bytes_def be_value_def MAX_FRAME_def)
  ultimately show ?thesis by simp
qed

end
