(* ===== verification/Cert.thy ===== *)
theory Cert
  imports Transport
begin

text \<open>
  The error type of \<open>ort-net/src/error.rs\<close> and the policy by which a client accepts a server's
  public key, \<open>ort-net/src/cert.rs\<close>. The x509-parser crate is a parameter, the record \<open>x509\<close>:
  its parser (which returns the unparsed rest too), whether a certificate is currently valid,
  signature verification (with a given key, or \<open>None\<close> for the certificate's own), the subject
  key and the extensions, each as its dotted object identifier and its value.
\<close>

datatype ort_error =
    Io io_error
  | Proto proto_error
  | Core core_error
  | Unexpected string
  | KeyConfirmation
  | PinMismatch
  | Cert string
  | EarlyClose

record ('c, 'k) x509 =
  x_parse :: "bytes \<Rightarrow> (bytes \<times> 'c, string) result"
  x_is_valid :: "'c \<Rightarrow> bool"
  x_public_key :: "'c \<Rightarrow> 'k"
  x_verify_signature :: "'c \<Rightarrow> 'k option \<Rightarrow> (unit, string) result"
  x_extensions :: "'c \<Rightarrow> (string \<times> bytes) list"

definition SERVERPK_OID_STR :: string where
  "SERVERPK_OID_STR = ''1.3.6.1.4.1.58271.1.1''"

datatype server_verifier = TrustOnFirstUse | Strict "bytes option"

definition extract_bound_server_pk :: "('c, 'k) x509 \<Rightarrow> 'c \<Rightarrow> bytes option" where
  "extract_bound_server_pk X cert =
     map_option snd (find (\<lambda>e. fst e = SERVERPK_OID_STR) (x_extensions X cert))"

definition sv_verify ::
    "('c, 'k) x509 \<Rightarrow> server_verifier \<Rightarrow> bytes \<Rightarrow> bytes \<Rightarrow> (unit, ort_error) result" where
  "sv_verify X v server_pk certificate =
     (case v of
        TrustOnFirstUse \<Rightarrow> Ok ()
      | Strict ca \<Rightarrow>
          if certificate = [] then Err (Cert ''server presented no certificate'')
          else
            bind_result (map_err (\<lambda>e. Cert (''parse certificate: '' @ e)) (x_parse X certificate)) (\<lambda>(_, cert).
            if \<not> x_is_valid X cert then Err (Cert ''certificate expired or not yet valid'')
            else
            bind_result
              (case ca of
                 Some ca_der \<Rightarrow>
                   bind_result (map_err (\<lambda>e. Cert (''parse CA: '' @ e)) (x_parse X ca_der)) (\<lambda>(_, ca_cert).
                     map_err (\<lambda>e. Cert (''certificate not signed by CA: '' @ e))
                       (x_verify_signature X cert (Some (x_public_key X ca_cert))))
               | None \<Rightarrow>
                   map_err (\<lambda>e. Cert (''invalid self-signature: '' @ e)) (x_verify_signature X cert None)) (\<lambda>_.
            bind_result (ok_or (Cert ''certificate has no ServerPK extension'') (extract_bound_server_pk X cert))
              (\<lambda>bound.
            if bound \<noteq> server_pk
            then Err (Cert ''ServerHello public key does not match certificate binding'')
            else Ok ()))))"


section \<open>Properties\<close>

text \<open>The key whose signature a strict verifier demands: the CA's, or the certificate's own.\<close>

definition trust_anchor :: "('c, 'k) x509 \<Rightarrow> bytes option \<Rightarrow> 'k option \<Rightarrow> bool" where
  "trust_anchor X ca key \<longleftrightarrow>
     (case ca of
        None \<Rightarrow> key = None
      | Some der \<Rightarrow> (\<exists>tail ca_cert. x_parse X der = Ok (tail, ca_cert) \<and> key = Some (x_public_key X ca_cert)))"

lemma extract_map_of: "extract_bound_server_pk X cert = map_of (x_extensions X cert) SERVERPK_OID_STR"
proof -
  have "map_option snd (find (\<lambda>e. fst e = k) xs) = map_of xs k" for k and xs :: "(string \<times> bytes) list"
    by (induction xs) auto
  then show ?thesis by (simp add: extract_bound_server_pk_def)
qed

text \<open>
  C32. What strict verification establishes, on both sides. A server key is accepted exactly
  when the presented certificate parses, is currently valid, is signed by the configured CA
  (or, without one, by its own key), and its first ServerPK extension holds exactly this key;
  so no other key can be substituted for the certified one.
\<close>

theorem strict_verify_iff:
  "sv_verify X (Strict ca) server_pk certificate = Ok () \<longleftrightarrow>
    certificate \<noteq> [] \<and>
    (\<exists>tail cert key.
      x_parse X certificate = Ok (tail, cert) \<and> x_is_valid X cert \<and>
      trust_anchor X ca key \<and> x_verify_signature X cert key = Ok () \<and>
      map_of (x_extensions X cert) SERVERPK_OID_STR = Some server_pk)"
  by (cases ca)
    (auto simp: sv_verify_def trust_anchor_def outcome_iff extract_map_of split: if_splits)

text \<open>A stand-in for the witnesses: a certificate is the key it certifies, and every one is valid.\<close>

definition sample_x509 :: "(bytes, bytes) x509" where
  "sample_x509 = \<lparr>
     x_parse = (\<lambda>der. Ok ([], der)), x_is_valid = (\<lambda>_. True), x_public_key = (\<lambda>c. c),
     x_verify_signature = (\<lambda>_ _. Ok ()), x_extensions = (\<lambda>c. [(SERVERPK_OID_STR, c)])\<rparr>"

end
