(* ===== verification/Session.thy ===== *)
theory Session
  imports Handshake Cert
begin

text \<open>
  The session driver of \<open>ort-net/src/session.rs\<close>: the handshake of either end run over a framed
  connection. The state of a connection is the two halves of the socket and what the operation
  shares with the rest of the process: the random source for a client, the strike cache for a
  server.
\<close>

section \<open>Roles and connections\<close>

datatype role = Client | Server

fun send_dir :: "role \<Rightarrow> direction" where
  "send_dir Client = ClientToServer"
| "send_dir Server = ServerToClient"

definition recv_dir :: "role \<Rightarrow> direction" where
  "recv_dir r = flip (send_dir r)"

record ('r, 'w, 'h) ort_conn =
  oc_reader :: 'r
  oc_writer :: 'w
  oc_record :: "'h record_layer"
  oc_role :: role

record ('r, 'w, 'h) client_outcome =
  co_conn :: "('r, 'w, 'h) ort_conn"
  co_expect_ack :: "bytes option"
  co_server_pk :: bytes

record ('r, 'w, 'h) server_outcome =
  so_conn :: "('r, 'w, 'h) ort_conn"
  so_early_data :: bytes

record ('r, 'w, 'x) conn_state =
  cs_reader :: 'r
  cs_writer :: 'w
  cs_shared :: 'x

text \<open>
  Running an operation of one part on the whole state; \<open>conv\<close> is the conversion that the
  question mark applies to its error.
\<close>

definition on_reader :: "('e \<Rightarrow> ort_error) \<Rightarrow> ('a, 'e, 'r) sm \<Rightarrow> ('a, ort_error, ('r, 'w, 'x) conn_state) sm" where
  "on_reader conv m s = (case m (cs_reader s) of (x, r) \<Rightarrow> (map_err conv x, s\<lparr>cs_reader := r\<rparr>))"

definition on_writer :: "('e \<Rightarrow> ort_error) \<Rightarrow> ('a, 'e, 'w) sm \<Rightarrow> ('a, ort_error, ('r, 'w, 'x) conn_state) sm" where
  "on_writer conv m s = (case m (cs_writer s) of (x, w) \<Rightarrow> (map_err conv x, s\<lparr>cs_writer := w\<rparr>))"

definition on_shared :: "('e \<Rightarrow> ort_error) \<Rightarrow> ('a, 'e, 'x) sm \<Rightarrow> ('a, ort_error, ('r, 'w, 'x) conn_state) sm" where
  "on_shared conv m s = (case m (cs_shared s) of (x, y) \<Rightarrow> (map_err conv x, s\<lparr>cs_shared := y\<rparr>))"

text \<open>\<open>reader.read_frame().await?.ok_or(OrtError::EarlyClose)?\<close>\<close>

definition next_body :: "('r, 'w) tokio_io \<Rightarrow> (bytes, ort_error, ('r, 'w, 'x) conn_state) sm" where
  "next_body io =
     sbind (on_reader Io (read_frame io)) (\<lambda>b. slift (ok_or EarlyClose b))"


section \<open>Client\<close>

text \<open>\<open>now\<close> is the clock reading that \<open>build_payload\<close> takes.\<close>

definition client_open ::
    "('r, 'w) tokio_io \<Rightarrow> ('dk, 'ek, 'sk, 'vk, 'sg, 'h) crates \<Rightarrow> ('c, 'k) x509 \<Rightarrow> 'sk client_config \<Rightarrow>
      bytes \<Rightarrow> bytes option \<Rightarrow> bool \<Rightarrow> server_verifier \<Rightarrow> u64 \<Rightarrow> bytes \<Rightarrow>
      (('r, 'w, 'h) client_outcome, ort_error, ('r, 'w, os_rng) conn_state) sm" where
  "client_open io C X ccfg src_ip cached_server_pk force_1rtt verifier now early_data =
     (case (cached_server_pk, force_1rtt) of
        (Some spk, False) \<Rightarrow>
          sbind (on_shared Core (client_zero_rtt C (V1 C) ccfg spk src_ip now early_data)) (\<lambda>(frame, est).
          sbind (on_writer Io (write_frame io (encode frame))) (\<lambda>_ s.
          (Ok \<lparr>co_conn = \<lparr>oc_reader = cs_reader s, oc_writer = cs_writer s, oc_record = ce_record est,
                 oc_role = Client\<rparr>,
               co_expect_ack = Some (ce_expected_ek_hash est), co_server_pk = spk\<rparr>, s)))
      | _ \<Rightarrow>
          sbind (on_writer Io (write_frame io (encode (client_one_rtt_hello (V1 C) ccfg)))) (\<lambda>_.
          sbind (next_body io) (\<lambda>body.
          sbind (slift (bind_result (map_err Proto (decode body)) (\<lambda>frame.
            case frame of
              ServerHello _ server_pk certificate _ \<Rightarrow> Ok (server_pk, certificate)
            | _ \<Rightarrow> Err (Unexpected ''expected ServerHello'')))) (\<lambda>(server_pk, certificate).
          sbind (slift (sv_verify X verifier server_pk certificate)) (\<lambda>_.
          sbind (slift (case cached_server_pk of
              Some pin \<Rightarrow> if pin \<noteq> server_pk then Err PinMismatch else Ok ()
            | None \<Rightarrow> Ok ())) (\<lambda>_.
          sbind (on_shared Core (client_one_rtt_finish C (V1 C) ccfg server_pk src_ip now early_data))
            (\<lambda>(frame, est).
          sbind (on_writer Io (write_frame io (encode frame))) (\<lambda>_ s.
          (Ok \<lparr>co_conn = \<lparr>oc_reader = cs_reader s, oc_writer = cs_writer s, oc_record = ce_record est,
                 oc_role = Client\<rparr>,
               co_expect_ack = None, co_server_pk = server_pk\<rparr>, s)))))))))"


section \<open>Server\<close>

text \<open>
  Other connections use the shared strike cache while this one waits for its second flight:
  \<open>others\<close> is what they do to it. \<open>now1\<close> and \<open>now2\<close> are the clock readings for the two flights.
\<close>

definition server_accept ::
    "('r, 'w) tokio_io \<Rightarrow> ('dk, 'ek, 'sk, 'vk, 'sg, 'h) crates \<Rightarrow> bytes \<Rightarrow> 'dk server_config \<Rightarrow>
      u64 \<Rightarrow> (strike_cache \<Rightarrow> strike_cache) \<Rightarrow> u64 \<Rightarrow>
      (('r, 'w, 'h) server_outcome, ort_error, ('r, 'w, strike_cache) conn_state) sm" where
  "server_accept io C peer_ip scfg now1 others now2 =
     sbind (next_body io) (\<lambda>body.
     sbind (slift (map_err Proto (decode body))) (\<lambda>frame.
     sbind (on_shared Core (server_on_first C (V1 C) scfg frame peer_ip now1)) (\<lambda>step.
     case step of
       ZeroRtt ack established \<Rightarrow>
         sbind (on_writer Io (write_frame io (encode ack))) (\<lambda>_ s.
         (Ok \<lparr>so_conn = \<lparr>oc_reader = cs_reader s, oc_writer = cs_writer s,
                oc_record = se_record established, oc_role = Server\<rparr>,
              so_early_data = se_early_data established\<rparr>, s))
     | OneRtt hello \<Rightarrow>
         sbind (on_writer Io (write_frame io (encode hello))) (\<lambda>_.
         sbind (next_body io) (\<lambda>body2.
         sbind (slift (map_err Proto (decode body2))) (\<lambda>frame2.
         sbind (on_shared Core (\<lambda>strike.
           server_on_client_data C (V1 C) scfg frame2 peer_ip now2 (others strike))) (\<lambda>established s.
         (Ok \<lparr>so_conn = \<lparr>oc_reader = cs_reader s, oc_writer = cs_writer s,
                oc_record = se_record established, oc_role = Server\<rparr>,
              so_early_data = se_early_data established\<rparr>, s))))))))"


section \<open>Lemmas on connections\<close>

lemma decode_encode: "frame_ok f \<Longrightarrow> length (encode f) \<le> MAX_FRAME \<Longrightarrow> decode (encode f) = Ok f"
  using decode_encode_append [of f "[]"] by (simp add: MAX_FRAME_def isize_max_def)

lemma next_body_pending:
  "pending io inc fin r (b # bs) \<Longrightarrow>
    \<exists>r'. next_body io \<lparr>cs_reader = r, cs_writer = w, cs_shared = x\<rparr> =
        (Ok b, \<lparr>cs_reader = r', cs_writer = w, cs_shared = x\<rparr>) \<and> pending io inc fin r' bs"
  using source.recv_next [of io inc fin r b bs] by (auto simp: next_body_def on_reader_def sbind_def)

lemma on_writer_sent:
  "sent io out up w bs \<Longrightarrow>
    \<exists>w'. on_writer Io (write_frame io b) \<lparr>cs_reader = r, cs_writer = w, cs_shared = x\<rparr> =
        (Ok (), \<lparr>cs_reader = r, cs_writer = w', cs_shared = x\<rparr>) \<and> sent io out up w' (bs @ [b])"
  using sink.send_next [of io out up w bs b] by (auto simp: on_writer_def)

text \<open>The flights of an honest client fit the wire format and the frame limit.\<close>

definition MAX_EARLY :: nat where
  "MAX_EARLY = 2 ^ 20 - 6500"

lemma honest_flight_fits:
  assumes "payload_for C ccfg sk src_ip ts early p ce" "length src_ip = 16" "length early \<le> MAX_EARLY"
    and "length (cc_client_pk ccfg) = 1952"
    and "f = ClientHelloZeroRtt 1 (cc_client_pk ccfg) p \<or> f = ClientData (cc_client_pk ccfg) p"
  shows "frame_ok f" "length (encode f) \<le> MAX_FRAME"
  using assms
  by (auto simp: payload_for_def kp_ok_def encode_eq kp_enc_def MAX_EARLY_def MAX_FRAME_def)

lemma payload_for_valid: "payload_for C ccfg sk src_ip ts early p ce \<Longrightarrow> rl_valid C (ce_record ce)"
  by (auto simp: payload_for_def session_agreed_def)

lemma good_client_pk_length: "crates_ok C \<Longrightarrow> good_client C ccfg \<Longrightarrow> length (cc_client_pk ccfg) = 1952"
  using v1.sig_lengths [of C] by (simp add: good_client_def V1_def ML_DSA_65_VK_def)


text \<open>Each end of a handshake, over the transform it runs.\<close>

lemma client_side_zero_rtt:
  assumes "client_zero_rtt C (V1 C) ccfg spk src_ip ts early g = (Ok (f, ce), g')"
    and "sent io out up wc []"
  obtains w where
    "client_open io C X ccfg src_ip (Some spk) False verifier ts early
        \<lparr>cs_reader = rc, cs_writer = wc, cs_shared = g\<rparr> =
      (Ok \<lparr>co_conn = \<lparr>oc_reader = rc, oc_writer = w, oc_record = ce_record ce, oc_role = Client\<rparr>,
           co_expect_ack = Some (ce_expected_ek_hash ce), co_server_pk = spk\<rparr>,
       \<lparr>cs_reader = rc, cs_writer = w, cs_shared = g'\<rparr>)"
    "sent io out up w [encode f]"
proof -
  obtain w where "on_writer Io (write_frame io (encode f)) \<lparr>cs_reader = rc, cs_writer = wc, cs_shared = g'\<rparr> =
      (Ok (), \<lparr>cs_reader = rc, cs_writer = w, cs_shared = g'\<rparr>)" "sent io out up w [encode f]"
    using on_writer_sent [OF assms(2), where r = rc and x = "g'"] by fastforce
  then show thesis
    using that assms(1) by (simp add: client_open_def on_shared_def sbind_def)
qed

lemma server_side_zero_rtt:
  assumes "server_on_first C (V1 C) scfg f peer now strike = (Ok (ZeroRtt ack se), strike')"
    and "frame_ok f" "length (encode f) \<le> MAX_FRAME"
    and "pending io inc fin rs (encode f # later)" "sent io out up ws []"
  obtains r w where
    "server_accept io C peer scfg now others now2 \<lparr>cs_reader = rs, cs_writer = ws, cs_shared = strike\<rparr> =
      (Ok \<lparr>so_conn = \<lparr>oc_reader = r, oc_writer = w, oc_record = se_record se, oc_role = Server\<rparr>,
           so_early_data = se_early_data se\<rparr>,
       \<lparr>cs_reader = r, cs_writer = w, cs_shared = strike'\<rparr>)"
    "sent io out up w [encode ack]" "pending io inc fin r later"
proof -
  obtain r where r: "next_body io \<lparr>cs_reader = rs, cs_writer = ws, cs_shared = strike\<rparr> =
      (Ok (encode f), \<lparr>cs_reader = r, cs_writer = ws, cs_shared = strike\<rparr>)" "pending io inc fin r later"
    using next_body_pending [OF assms(4), where w = ws and x = strike] by blast
  obtain w where "on_writer Io (write_frame io (encode ack)) \<lparr>cs_reader = r, cs_writer = ws, cs_shared = strike'\<rparr> =
      (Ok (), \<lparr>cs_reader = r, cs_writer = w, cs_shared = strike'\<rparr>)" "sent io out up w [encode ack]"
    using on_writer_sent [OF assms(5), where r = r and x = "strike'"] by fastforce
  then show thesis
    using that r assms(1) by (simp add: server_accept_def decode_encode [OF assms(2,3)] on_shared_def sbind_def)
qed

lemma client_side_one_rtt:
  assumes "client_one_rtt_finish C (V1 C) ccfg spk src_ip ts early g = (Ok (f, ce), g')"
    and "hello = ServerHello 1 spk cert hello_ts" "frame_ok hello" "length (encode hello) \<le> MAX_FRAME"
    and "sv_verify X verifier spk cert = Ok ()"
    and "sent io out up wc []" "pending io inc fin rc (encode hello # later)"
  obtains r w where
    "client_open io C X ccfg src_ip None force verifier ts early
        \<lparr>cs_reader = rc, cs_writer = wc, cs_shared = g\<rparr> =
      (Ok \<lparr>co_conn = \<lparr>oc_reader = r, oc_writer = w, oc_record = ce_record ce, oc_role = Client\<rparr>,
           co_expect_ack = None, co_server_pk = spk\<rparr>,
       \<lparr>cs_reader = r, cs_writer = w, cs_shared = g'\<rparr>)"
    "sent io out up w [encode (client_one_rtt_hello (V1 C) ccfg), encode f]" "pending io inc fin r later"
proof -
  let ?h = "encode (client_one_rtt_hello (V1 C) ccfg)"
  obtain w1 where w1: "on_writer Io (write_frame io ?h) \<lparr>cs_reader = rc, cs_writer = wc, cs_shared = g\<rparr> =
      (Ok (), \<lparr>cs_reader = rc, cs_writer = w1, cs_shared = g\<rparr>)" "sent io out up w1 [?h]"
    using on_writer_sent [OF assms(6), where r = rc and x = g] by fastforce
  obtain r where r: "next_body io \<lparr>cs_reader = rc, cs_writer = w1, cs_shared = g\<rparr> =
      (Ok (encode hello), \<lparr>cs_reader = r, cs_writer = w1, cs_shared = g\<rparr>)" "pending io inc fin r later"
    using next_body_pending [OF assms(7), where w = w1 and x = g] by blast
  obtain w where "on_writer Io (write_frame io (encode f)) \<lparr>cs_reader = r, cs_writer = w1, cs_shared = g'\<rparr> =
      (Ok (), \<lparr>cs_reader = r, cs_writer = w, cs_shared = g'\<rparr>)" "sent io out up w [?h, encode f]"
    using on_writer_sent [OF w1(2), where r = r and x = "g'"] by fastforce
  moreover have "decode (encode hello) = Ok (ServerHello 1 spk cert hello_ts)"
    using decode_encode [OF assms(3,4)] assms(2) by simp
  ultimately show thesis
    using that w1 r assms(1,5) by (cases force) (simp_all add: client_open_def on_shared_def sbind_def)
qed

lemma server_side_one_rtt:
  assumes "server_on_first C (V1 C) scfg f1 peer now1 strike = (Ok (OneRtt hello), strike)"
    and "server_on_client_data C (V1 C) scfg f2 peer now2 (others strike) = (Ok se, strike')"
    and "frame_ok f1" "length (encode f1) \<le> MAX_FRAME" "frame_ok f2" "length (encode f2) \<le> MAX_FRAME"
    and "pending io inc fin rs (encode f1 # encode f2 # later)" "sent io out up ws []"
  obtains r w where
    "server_accept io C peer scfg now1 others now2 \<lparr>cs_reader = rs, cs_writer = ws, cs_shared = strike\<rparr> =
      (Ok \<lparr>so_conn = \<lparr>oc_reader = r, oc_writer = w, oc_record = se_record se, oc_role = Server\<rparr>,
           so_early_data = se_early_data se\<rparr>,
       \<lparr>cs_reader = r, cs_writer = w, cs_shared = strike'\<rparr>)"
    "sent io out up w [encode hello]" "pending io inc fin r later"
proof -
  obtain r1 where r1: "next_body io \<lparr>cs_reader = rs, cs_writer = ws, cs_shared = strike\<rparr> =
      (Ok (encode f1), \<lparr>cs_reader = r1, cs_writer = ws, cs_shared = strike\<rparr>)" "pending io inc fin r1 (encode f2 # later)"
    using next_body_pending [OF assms(7), where w = ws and x = strike] by blast
  obtain w where w: "on_writer Io (write_frame io (encode hello)) \<lparr>cs_reader = r1, cs_writer = ws, cs_shared = strike\<rparr> =
      (Ok (), \<lparr>cs_reader = r1, cs_writer = w, cs_shared = strike\<rparr>)" "sent io out up w [encode hello]"
    using on_writer_sent [OF assms(8), where r = r1 and x = strike] by fastforce
  obtain r2 where "next_body io \<lparr>cs_reader = r1, cs_writer = w, cs_shared = strike\<rparr> =
      (Ok (encode f2), \<lparr>cs_reader = r2, cs_writer = w, cs_shared = strike\<rparr>)" "pending io inc fin r2 later"
    using next_body_pending [OF r1(2), where w = w and x = strike] by blast
  then show thesis
    using that r1(1) w assms(1,2)
    by (simp add: server_accept_def decode_encode [OF assms(3,4)] decode_encode [OF assms(5,6)] on_shared_def sbind_def)
qed


section \<open>Properties\<close>

text \<open>
  The server that receives the 0-RTT flight \<open>p\<close>, whatever it finds on the stream behind it
  and whatever other connections do meanwhile, ends in a state that agrees with the client's.
\<close>

definition flight_served where
  "flight_served io C scfg src_ip now strike out up pk p early ce \<longleftrightarrow>
    (\<forall>inc fin rs ws later others now2.
      pending io inc fin rs (encode (ClientHelloZeroRtt 1 pk p) # later) \<longrightarrow> sent io out up ws [] \<longrightarrow>
      (\<exists>se r w' s'. server_accept io C src_ip scfg now others now2
          \<lparr>cs_reader = rs, cs_writer = ws, cs_shared = strike\<rparr> =
          (Ok \<lparr>so_conn = \<lparr>oc_reader = r, oc_writer = w', oc_record = se_record se, oc_role = Server\<rparr>,
               so_early_data = early\<rparr>, s') \<and>
        session_agreed C ce se \<and> sent io out up w' [encode (ServerAck (ce_expected_ek_hash ce))] \<and>
        pending io inc fin r later))"

lemma flight_servedE:
  assumes "flight_served io C scfg src_ip now strike out up pk p early ce"
    and "pending io inc fin rs (encode (ClientHelloZeroRtt 1 pk p) # later)" "sent io out up ws []"
  obtains se r w' s' where "server_accept io C src_ip scfg now others now2
          \<lparr>cs_reader = rs, cs_writer = ws, cs_shared = strike\<rparr> =
          (Ok \<lparr>so_conn = \<lparr>oc_reader = r, oc_writer = w', oc_record = se_record se, oc_role = Server\<rparr>,
               so_early_data = early\<rparr>, s')"
    "session_agreed C ce se" "sent io out up w' [encode (ServerAck (ce_expected_ek_hash ce))]"
    "pending io inc fin r later"
  using assms unfolding flight_served_def by metis

lemma honest_flight_served:
  assumes "payload_for C ccfg (sv_kem_secret scfg) src_ip ts early p ce"
    and "in_window now ts (sv_window_ms scfg) (sv_skew_ms scfg)" "sc_ok strike"
    and "tag_fresh strike now (payload_tag (V1 C) p)"
    and "frame_ok (ClientHelloZeroRtt 1 (cc_client_pk ccfg) p)"
      "length (encode (ClientHelloZeroRtt 1 (cc_client_pk ccfg) p)) \<le> MAX_FRAME"
  shows "flight_served io C scfg src_ip now strike out up (cc_client_pk ccfg) p early ce"
  unfolding flight_served_def
proof (intro allI impI)
  fix inc fin rs ws later others now2
  assume net: "pending io inc fin rs (encode (ClientHelloZeroRtt 1 (cc_client_pk ccfg) p) # later)" "sent io out up ws []"
  obtain se where se: "process_payload C (V1 C) scfg (cc_client_pk ccfg) p src_ip now strike =
      (Ok se, snd (check_and_insert (payload_tag (V1 C) p) now strike))"
      "se_early_data se = early" "session_agreed C ce se"
    using honest_payload_accepted [OF assms(1-4)] .
  from se(3) have ack: "ce_expected_ek_hash ce = enc_key_hash (V1 C) (se_record se)"
    by (simp add: session_agreed_def)
  show "\<exists>se r w' s'. server_accept io C src_ip scfg now others now2
          \<lparr>cs_reader = rs, cs_writer = ws, cs_shared = strike\<rparr> =
          (Ok \<lparr>so_conn = \<lparr>oc_reader = r, oc_writer = w', oc_record = se_record se, oc_role = Server\<rparr>,
               so_early_data = early\<rparr>, s') \<and>
        session_agreed C ce se \<and> sent io out up w' [encode (ServerAck (ce_expected_ek_hash ce))] \<and>
        pending io inc fin r later"
    by (rule server_side_zero_rtt [OF server_on_first_zero_rtt [OF se(1)] assms(5,6) net, of others now2])
      (unfold se(2) ack [symmetric], use se(3) in blast)
qed

text \<open>Both ends of a 0-RTT session, with the handshake state they end in.\<close>

lemma zero_rtt_session_run:
  assumes "crates_ok C" "rng_ok g" "good_client C ccfg" "length src_ip = 16"
    and "length early \<le> MAX_EARLY" "sc_ok strike"
    and "in_window now ts (sv_window_ms scfg) (sv_skew_ms scfg)"
    and "sent io out up wc []"
  shows "\<exists>p ce w g'.
    client_open io C X ccfg src_ip (Some (kem_public (V1 C) (sv_kem_secret scfg))) False verifier ts early
        \<lparr>cs_reader = rc, cs_writer = wc, cs_shared = g\<rparr> =
      (Ok \<lparr>co_conn = \<lparr>oc_reader = rc, oc_writer = w, oc_record = ce_record ce, oc_role = Client\<rparr>,
           co_expect_ack = Some (ce_expected_ek_hash ce), co_server_pk = kem_public (V1 C) (sv_kem_secret scfg)\<rparr>,
       \<lparr>cs_reader = rc, cs_writer = w, cs_shared = g'\<rparr>) \<and>
    sent io out up w [encode (ClientHelloZeroRtt 1 (cc_client_pk ccfg) p)] \<and>
    length (encode (ClientHelloZeroRtt 1 (cc_client_pk ccfg) p)) \<le> MAX_FRAME \<and> rl_valid C (ce_record ce) \<and>
    (tag_fresh strike now (payload_tag (V1 C) p) \<longrightarrow>
      flight_served io C scfg src_ip now strike out up (cc_client_pk ccfg) p early ce)"
proof -
  let ?spk = "kem_public (V1 C) (sv_kem_secret scfg)"
  have "length early \<le> 2 ^ 36" using assms(5) by (simp add: MAX_EARLY_def)
  then obtain p ce g' where built: "build_payload C (V1 C) ccfg ?spk src_ip ts early g = (Ok (p, ce), g')"
      "payload_for C ccfg (sv_kem_secret scfg) src_ip ts early p ce"
    using build_payload_ok [OF assms(1-4)] by metis
  let ?f = "ClientHelloZeroRtt 1 (cc_client_pk ccfg) p"
  have fits: "frame_ok ?f" "length (encode ?f) \<le> MAX_FRAME"
    using honest_flight_fits [OF built(2) assms(4,5) good_client_pk_length [OF assms(1,3)], of ?f] by simp_all
  have zero: "client_zero_rtt C (V1 C) ccfg ?spk src_ip ts early g = (Ok (?f, ce), g')"
    using built(1) by (simp add: client_zero_rtt_def sbind_def)
  show ?thesis
    by (rule client_side_zero_rtt [OF zero assms(8), of X verifier rc])
      (use fits honest_flight_served [OF built(2) assms(7,6) _ fits] payload_for_valid [OF built(2)] in blast)
qed

text \<open>
  C15. A 0-RTT session over the wire. A client that knows the server's public key completes
  \<open>client_open\<close> by sending one frame; a server that receives exactly this frame from the
  client's address completes \<open>server_accept\<close>, hands over exactly the early data and sends
  exactly the acknowledgement that the client's outcome tells it to expect; the record layers
  of the two connections agree in both directions.
\<close>

theorem zero_rtt_session:
  assumes "crates_ok C" "rng_ok g" "good_client C ccfg" "length src_ip = 16"
    and "length early \<le> MAX_EARLY" "sc_ok strike"
    and "in_window now ts (sv_window_ms scfg) (sv_skew_ms scfg)"
    and "sent io out up wc []"
  shows "\<exists>p co s ack.
    client_open io C X ccfg src_ip (Some (kem_public (V1 C) (sv_kem_secret scfg))) False verifier ts early
      \<lparr>cs_reader = rc, cs_writer = wc, cs_shared = g\<rparr> = (Ok co, s) \<and>
    sent io out up (oc_writer (co_conn co)) [encode (ClientHelloZeroRtt 1 (cc_client_pk ccfg) p)] \<and>
    length (encode (ClientHelloZeroRtt 1 (cc_client_pk ccfg) p)) \<le> MAX_FRAME \<and>
    co_expect_ack co = Some ack \<and>
    (\<forall>rs ws later. tag_fresh strike now (payload_tag (V1 C) p) \<longrightarrow>
      pending io inc fin rs (encode (ClientHelloZeroRtt 1 (cc_client_pk ccfg) p) # later) \<longrightarrow> sent io out up ws [] \<longrightarrow>
      (\<exists>so s'. server_accept io C src_ip scfg now others now2
          \<lparr>cs_reader = rs, cs_writer = ws, cs_shared = strike\<rparr> = (Ok so, s') \<and>
        so_early_data so = early \<and> pending io inc fin (oc_reader (so_conn so)) later \<and>
        sent io out up (oc_writer (so_conn so)) [encode (ServerAck ack)] \<and>
        rl_same ClientToServer (oc_record (co_conn co)) (oc_record (so_conn so)) \<and>
        rl_same ServerToClient (oc_record (co_conn co)) (oc_record (so_conn so))))"
proof -
  obtain p ce w g' where run: "client_open io C X ccfg src_ip (Some (kem_public (V1 C) (sv_kem_secret scfg))) False verifier ts early
        \<lparr>cs_reader = rc, cs_writer = wc, cs_shared = g\<rparr> =
      (Ok \<lparr>co_conn = \<lparr>oc_reader = rc, oc_writer = w, oc_record = ce_record ce, oc_role = Client\<rparr>,
           co_expect_ack = Some (ce_expected_ek_hash ce), co_server_pk = kem_public (V1 C) (sv_kem_secret scfg)\<rparr>,
       \<lparr>cs_reader = rc, cs_writer = w, cs_shared = g'\<rparr>)"
      "sent io out up w [encode (ClientHelloZeroRtt 1 (cc_client_pk ccfg) p)]"
      "length (encode (ClientHelloZeroRtt 1 (cc_client_pk ccfg) p)) \<le> MAX_FRAME"
      "tag_fresh strike now (payload_tag (V1 C) p) \<longrightarrow>
        flight_served io C scfg src_ip now strike out up (cc_client_pk ccfg) p early ce"
    using zero_rtt_session_run [OF assms, where X = X and verifier = verifier and rc = rc] by (elim exE conjE)
  have srv: "\<exists>so s'. server_accept io C src_ip scfg now others now2
          \<lparr>cs_reader = rs, cs_writer = ws, cs_shared = strike\<rparr> = (Ok so, s') \<and>
        so_early_data so = early \<and> pending io inc fin (oc_reader (so_conn so)) later \<and>
        sent io out up (oc_writer (so_conn so)) [encode (ServerAck (ce_expected_ek_hash ce))] \<and>
        rl_same ClientToServer (ce_record ce) (oc_record (so_conn so)) \<and>
        rl_same ServerToClient (ce_record ce) (oc_record (so_conn so))"
    if net: "tag_fresh strike now (payload_tag (V1 C) p)"
      "pending io inc fin rs (encode (ClientHelloZeroRtt 1 (cc_client_pk ccfg) p) # later)" "sent io out up ws []" for rs ws later
    by (rule flight_servedE [OF run(4) [rule_format, OF net(1)] net(2,3), of others now2]) (simp add: session_agreed_def)
  define co where "co = \<lparr>co_conn = \<lparr>oc_reader = rc, oc_writer = w, oc_record = ce_record ce, oc_role = Client\<rparr>,
      co_expect_ack = Some (ce_expected_ek_hash ce), co_server_pk = kem_public (V1 C) (sv_kem_secret scfg)\<rparr>"
  have fields: "co_expect_ack co = Some (ce_expected_ek_hash ce)" "oc_writer (co_conn co) = w" "oc_record (co_conn co) = ce_record ce"
    by (simp_all add: co_def)
  show ?thesis
    by (rule exI [of _ p], rule exI [of _ co], rule exI, rule exI [of _ "ce_expected_ek_hash ce"])
      (use run(1) [folded co_def] run(2,3) srv fields in simp)
qed

lemma sample_sent: "sent sample_io fst snd ([], True) []"
  by (simp add: sent_def sample_io_ok)

lemma sample_pending:
  "(\<forall>b \<in> set bs. length b \<le> MAX_FRAME) \<Longrightarrow> pending sample_io fst snd (concat (map encode_framed bs), None) bs"
  by (simp add: pending_def sample_io_ok)

lemma sample_window:
  "in_window 1000000 1000900 (sv_window_ms sample_server) (sv_skew_ms sample_server)"
  by (simp add: in_window_def sample_server_def)

theorem zero_rtt_session_witness:
  "\<exists>co s body so s'.
    client_open sample_io sample_crates sample_x509 sample_client (replicate 16 1)
      (Some (kem_public (V1 sample_crates) (sv_kem_secret sample_server))) False TrustOnFirstUse 1000900 [1, 2]
      \<lparr>cs_reader = ([], None), cs_writer = ([], True), cs_shared = sample_rng\<rparr> = (Ok co, s) \<and>
    fst (oc_writer (co_conn co)) = encode_framed body \<and>
    server_accept sample_io sample_crates (replicate 16 1) sample_server 1000000 id 1000000
      \<lparr>cs_reader = (encode_framed body, None), cs_writer = ([], True), cs_shared = sc_new 2000\<rparr> = (Ok so, s') \<and>
    so_early_data so = [1, 2]"
proof -
  have "length [1, 2 :: u8] \<le> MAX_EARLY" by (simp add: MAX_EARLY_def)
  from zero_rtt_session [OF sample_crates_ok sample_rng_ok sample_client_good _ this sc_ok_new sample_window
      sample_sent, of "replicate 16 1" sample_x509 TrustOnFirstUse "([], None)" 2000 fst snd id 1000000]
  obtain p co s where client: "client_open sample_io sample_crates sample_x509 sample_client (replicate 16 1)
      (Some (kem_public (V1 sample_crates) (sv_kem_secret sample_server))) False TrustOnFirstUse 1000900 [1, 2]
      \<lparr>cs_reader = ([], None), cs_writer = ([], True), cs_shared = sample_rng\<rparr> = (Ok co, s)"
    and body: "sent sample_io fst snd (oc_writer (co_conn co)) [encode (ClientHelloZeroRtt 1 (cc_client_pk sample_client) p)]"
      "length (encode (ClientHelloZeroRtt 1 (cc_client_pk sample_client) p)) \<le> MAX_FRAME"
    and server: "\<And>rs ws. pending sample_io fst snd rs [encode (ClientHelloZeroRtt 1 (cc_client_pk sample_client) p)] \<Longrightarrow>
      sent sample_io fst snd ws [] \<Longrightarrow>
      \<exists>so s'. server_accept sample_io sample_crates (replicate 16 1) sample_server 1000000 id 1000000
          \<lparr>cs_reader = rs, cs_writer = ws, cs_shared = sc_new 2000\<rparr> = (Ok so, s') \<and> so_early_data so = [1, 2]"
    using tag_fresh_new by fastforce
  from server [OF sample_pending sample_sent] body client show ?thesis
    by (auto simp: sent_def)
qed

text \<open>The server on the two flights of an honest 1-RTT client.\<close>

lemma honest_second_flight_served:
  assumes "payload_for C ccfg (sv_kem_secret scfg) src_ip ts early p ce"
    and "in_window now2 ts (sv_window_ms scfg) (sv_skew_ms scfg)" "sc_ok (others strike)"
    and "tag_fresh (others strike) now2 (payload_tag (V1 C) p)"
    and fits: "length src_ip = 16" "length early \<le> MAX_EARLY" "length (cc_client_pk ccfg) = 1952"
    and net: "pending io inc fin rs (encode (client_one_rtt_hello (V1 C) ccfg) # encode (ClientData (cc_client_pk ccfg) p) # later)"
      "sent io out up ws []"
  obtains se r w s' where "server_accept io C src_ip scfg now1 others now2
      \<lparr>cs_reader = rs, cs_writer = ws, cs_shared = strike\<rparr> =
    (Ok \<lparr>so_conn = \<lparr>oc_reader = r, oc_writer = w, oc_record = se_record se, oc_role = Server\<rparr>, so_early_data = early\<rparr>, s')"
    "session_agreed C ce se"
    "sent io out up w [encode (ServerHello 1 (sv_server_pk scfg) (sv_certificate scfg) now1)]" "pending io inc fin r later"
proof -
  let ?h = "client_one_rtt_hello (V1 C) ccfg" and ?f = "ClientData (cc_client_pk ccfg) p"
  have h: "frame_ok ?h" "length (encode ?h) \<le> MAX_FRAME"
    using fits(3) by (simp_all add: client_one_rtt_hello_def encode_eq MAX_FRAME_def)
  have f: "frame_ok ?f" "length (encode ?f) \<le> MAX_FRAME"
    using honest_flight_fits [OF assms(1) fits, of ?f] by simp_all
  obtain se where se: "process_payload C (V1 C) scfg (cc_client_pk ccfg) p src_ip now2 (others strike) =
      (Ok se, snd (check_and_insert (payload_tag (V1 C) p) now2 (others strike)))"
      "se_early_data se = early" "session_agreed C ce se"
    using honest_payload_accepted [OF assms(1-4)] .
  have first: "server_on_first C (V1 C) scfg ?h src_ip now1 strike =
      (Ok (OneRtt (ServerHello 1 (sv_server_pk scfg) (sv_certificate scfg) now1)), strike)"
    by (simp add: server_on_first_one_rtt)
  have second: "server_on_client_data C (V1 C) scfg ?f src_ip now2 (others strike) =
      (Ok se, snd (check_and_insert (payload_tag (V1 C) p) now2 (others strike)))"
    using se(1) by (simp add: server_on_client_data_ClientData)
  show thesis
    by (rule server_side_one_rtt [where others = others, OF first second h f net]) (rule that [OF _ se(3)], simp_all add: se(2))
qed

text \<open>
  C27. A 1-RTT session over the wire. A client without a cached key sends the bare ClientHello;
  given a ServerHello with the server's key and a certificate that its policy accepts, it
  completes with the ClientData flight. The server that receives these two frames sends exactly
  that ServerHello, completes, and hands over exactly the early data, whatever other
  connections did to the strike cache in between; the record layers agree in both directions.
\<close>

theorem one_rtt_session:
  assumes "crates_ok C" "rng_ok g" "good_client C ccfg" "length src_ip = 16"
    and "length early \<le> MAX_EARLY" "sc_ok (others strike)"
    and "in_window now2 ts (sv_window_ms scfg) (sv_skew_ms scfg)"
    and "sv_server_pk scfg = kem_public (V1 C) (sv_kem_secret scfg)"
    and "length (sv_certificate scfg) \<le> MAX_EARLY"
    and "sv_verify X verifier (sv_server_pk scfg) (sv_certificate scfg) = Ok ()"
    and "hello = ServerHello 1 (sv_server_pk scfg) (sv_certificate scfg) now1"
    and "sent io out up wc []" "pending io inc fin rc [encode hello]"
  shows "\<exists>p co s.
    client_open io C X ccfg src_ip None force verifier ts early
      \<lparr>cs_reader = rc, cs_writer = wc, cs_shared = g\<rparr> = (Ok co, s) \<and>
    co_server_pk co = sv_server_pk scfg \<and> co_expect_ack co = None \<and>
    sent io out up (oc_writer (co_conn co)) [encode (client_one_rtt_hello (V1 C) ccfg), encode (ClientData (cc_client_pk ccfg) p)] \<and>
    (\<forall>rs ws. tag_fresh (others strike) now2 (payload_tag (V1 C) p) \<longrightarrow>
      pending io inc fin rs [encode (client_one_rtt_hello (V1 C) ccfg), encode (ClientData (cc_client_pk ccfg) p)] \<longrightarrow>
      sent io out up ws [] \<longrightarrow>
      (\<exists>so s'. server_accept io C src_ip scfg now1 others now2
          \<lparr>cs_reader = rs, cs_writer = ws, cs_shared = strike\<rparr> = (Ok so, s') \<and>
        so_early_data so = early \<and>
        sent io out up (oc_writer (so_conn so)) [encode hello] \<and>
        rl_same ClientToServer (oc_record (co_conn co)) (oc_record (so_conn so)) \<and>
        rl_same ServerToClient (oc_record (co_conn co)) (oc_record (so_conn so))))"
proof -
  let ?spk = "kem_public (V1 C) (sv_kem_secret scfg)"
  have "length early \<le> 2 ^ 36" using assms(5) by (simp add: MAX_EARLY_def)
  then obtain p ce g' where built: "build_payload C (V1 C) ccfg ?spk src_ip ts early g = (Ok (p, ce), g')"
      "payload_for C ccfg (sv_kem_secret scfg) src_ip ts early p ce"
    using build_payload_ok [OF assms(1-4)] by metis
  let ?f = "ClientData (cc_client_pk ccfg) p"
  have hello: "frame_ok hello" "length (encode hello) \<le> MAX_FRAME"
    using assms(8,9,11) v1.kem_public_length [OF assms(1)]
    by (simp_all add: encode_eq MAX_FRAME_def MAX_EARLY_def V1_def ML_KEM_768_EK_def)
  have fin: "client_one_rtt_finish C (V1 C) ccfg (sv_server_pk scfg) src_ip ts early g = (Ok (?f, ce), g')"
    using built(1) assms(8) by (simp add: client_one_rtt_finish_def sbind_def)
  obtain r w where client: "client_open io C X ccfg src_ip None force verifier ts early
        \<lparr>cs_reader = rc, cs_writer = wc, cs_shared = g\<rparr> =
      (Ok \<lparr>co_conn = \<lparr>oc_reader = r, oc_writer = w, oc_record = ce_record ce, oc_role = Client\<rparr>,
           co_expect_ack = None, co_server_pk = sv_server_pk scfg\<rparr>,
       \<lparr>cs_reader = r, cs_writer = w, cs_shared = g'\<rparr>)"
    "sent io out up w [encode (client_one_rtt_hello (V1 C) ccfg), encode ?f]"
    by (rule client_side_one_rtt [OF fin assms(11) hello assms(10,12,13)])
  have "\<exists>so s'. server_accept io C src_ip scfg now1 others now2
          \<lparr>cs_reader = rs, cs_writer = ws, cs_shared = strike\<rparr> = (Ok so, s') \<and>
        so_early_data so = early \<and> sent io out up (oc_writer (so_conn so)) [encode hello] \<and>
        rl_same ClientToServer (ce_record ce) (oc_record (so_conn so)) \<and>
        rl_same ServerToClient (ce_record ce) (oc_record (so_conn so))"
    if "tag_fresh (others strike) now2 (payload_tag (V1 C) p)"
      "pending io inc fin rs [encode (client_one_rtt_hello (V1 C) ccfg), encode ?f]" "sent io out up ws []" for rs ws
    by (rule honest_second_flight_served [OF built(2) assms(7), where others = others and strike = strike,
          OF assms(6) that(1) assms(4,5) good_client_pk_length [OF assms(1,3)] that(2,3), of now1])
      (auto simp: assms(11) session_agreed_def)
  with client show ?thesis by fastforce
qed

definition sample_hello :: frame where
  "sample_hello = ServerHello 1 (sv_server_pk sample_server) (sv_server_pk sample_server) 1000000"

theorem one_rtt_session_witness:
  "\<exists>co s. client_open sample_io sample_crates sample_x509 sample_client (replicate 16 1) None False (Strict None) 1000900 [1, 2]
      \<lparr>cs_reader = (encode_framed (encode sample_hello), None), cs_writer = ([], True), cs_shared = sample_rng\<rparr> = (Ok co, s) \<and>
    co_server_pk co = sv_server_pk sample_server"
proof -
  let ?scfg = "sample_server\<lparr>sv_certificate := sv_server_pk sample_server\<rparr>"
  have pk: "sv_server_pk sample_server = kem_public (V1 sample_crates) (sv_kem_secret sample_server)"
      "length (sv_server_pk sample_server) = 1184"
    using v1.kem_public_length [OF sample_crates_ok]
    by (simp_all add: sample_server_def V1_def ML_KEM_768_EK_def)
  have early: "length [1, 2 :: u8] \<le> MAX_EARLY" by (simp add: MAX_EARLY_def)
  have cert: "length (sv_certificate ?scfg) \<le> MAX_EARLY" using pk(2) by (simp add: MAX_EARLY_def)
  have "sv_server_pk sample_server \<noteq> []" using pk(2) by force
  then have trust: "sv_verify sample_x509 (Strict None) (sv_server_pk ?scfg) (sv_certificate ?scfg) = Ok ()"
    by (simp add: sv_verify_def sample_x509_def extract_bound_server_pk_def)
  have hello: "sample_hello = ServerHello 1 (sv_server_pk ?scfg) (sv_certificate ?scfg) 1000000"
    by (simp add: sample_hello_def)
  have "pending sample_io fst snd (encode_framed (encode sample_hello), None) [encode sample_hello]"
    using sample_pending [of "[encode sample_hello]"] pk(2)
    by (simp add: sample_hello_def encode_eq MAX_FRAME_def)
  with one_rtt_session [OF sample_crates_ok sample_rng_ok sample_client_good _ early, of "replicate 16 1" id "sc_new 2000"
      1000000 1000900 ?scfg sample_x509 "Strict None", OF _ _ _ _ cert trust hello sample_sent] sample_window pk(1)
  show ?thesis by fastforce
qed

text \<open>What both modes end in: the last flight is written.\<close>

definition opened_conn ::
    "'r \<Rightarrow> 'w \<Rightarrow> 'h client_established \<Rightarrow> bytes option \<Rightarrow> bytes \<Rightarrow> ('r, 'w, 'h) client_outcome" where
  "opened_conn r w est ack server_pk =
     \<lparr>co_conn = \<lparr>oc_reader = r, oc_writer = w, oc_record = ce_record est, oc_role = Client\<rparr>,
      co_expect_ack = ack, co_server_pk = server_pk\<rparr>"

definition last_flight ::
    "('r, 'w) tokio_io \<Rightarrow> frame \<Rightarrow> 'h client_established \<Rightarrow> bytes option \<Rightarrow> bytes \<Rightarrow>
      (('r, 'w, 'h) client_outcome, ort_error, ('r, 'w, os_rng) conn_state) sm" where
  "last_flight io frame est ack server_pk =
     sbind (on_writer Io (write_frame io (encode frame))) (\<lambda>_ s.
       (Ok (opened_conn (cs_reader s) (cs_writer s) est ack server_pk), s))"

lemma last_flight_eq:
  "last_flight io frame est ack server_pk \<lparr>cs_reader = r, cs_writer = w, cs_shared = g\<rparr> =
    (case write_frame io (encode frame) w of
       (Ok _, w') \<Rightarrow> (Ok (opened_conn r w' est ack server_pk), \<lparr>cs_reader = r, cs_writer = w', cs_shared = g\<rparr>)
     | (Err e, w') \<Rightarrow> (Err (Io e), \<lparr>cs_reader = r, cs_writer = w', cs_shared = g\<rparr>)
     | (Panic, w') \<Rightarrow> (Panic, \<lparr>cs_reader = r, cs_writer = w', cs_shared = g\<rparr>))"
  by (simp add: last_flight_def on_writer_def sbind_def split: prod.split result.split)

lemma client_open_zero_rtt:
  "client_open io C X ccfg src_ip (Some spk) False verifier now early =
    sbind (on_shared Core (client_zero_rtt C (V1 C) ccfg spk src_ip now early))
      (\<lambda>(frame, est). last_flight io frame est (Some (ce_expected_ek_hash est)) spk)"
  by (simp add: client_open_def last_flight_def opened_conn_def)

lemma client_open_OkD:
  assumes "client_open io C X ccfg src_ip cached force verifier now early s = (Ok co, s')"
  shows "(\<forall>pin. cached = Some pin \<longrightarrow> co_server_pk co = pin) \<and>
    (cached = None \<or> force \<longrightarrow> (\<exists>certificate. sv_verify X verifier (co_server_pk co) certificate = Ok ())) \<and>
    oc_role (co_conn co) = Client"
  using assms
  by (cases cached; cases force)
    (auto simp: client_open_def outcome_iff split: prod.splits frame.splits if_splits)

text \<open>The flight that carries the KEM payload for the key \<open>pk\<close>, in either mode.\<close>

definition client_flight ::
    "('dk, 'ek, 'sk, 'vk, 'sg, 'h) crates \<Rightarrow> 'sk client_config \<Rightarrow> bytes \<Rightarrow> bool \<Rightarrow> bytes \<Rightarrow> u64 \<Rightarrow> bytes \<Rightarrow>
      (frame \<times> 'h client_established, core_error, os_rng) sm" where
  "client_flight C ccfg src_ip one_rtt pk now early =
     (if one_rtt then client_one_rtt_finish C (V1 C) ccfg pk src_ip now early
      else client_zero_rtt C (V1 C) ccfg pk src_ip now early)"

text \<open>
  The key that a client may use: the pin, if there is one; and in 1-RTT a key that the server has
  presented in the hello that is read from \<open>r\<close>, with a certificate that the policy accepts for it.
\<close>

definition key_trusted ::
    "('r, 'w) tokio_io \<Rightarrow> ('c, 'k) x509 \<Rightarrow> server_verifier \<Rightarrow> bytes option \<Rightarrow> bool \<Rightarrow> 'r \<Rightarrow> bytes \<Rightarrow> bool" where
  "key_trusted io X verifier cached one_rtt r pk \<longleftrightarrow> (\<forall>pin. cached = Some pin \<longrightarrow> pk = pin) \<and>
     (one_rtt \<longrightarrow> (\<exists>body r' suite certificate ts. read_frame io r = (Ok (Some body), r') \<and>
       decode body = Ok (ServerHello suite pk certificate ts) \<and> sv_verify X verifier pk certificate = Ok ()))"

text \<open>The key in the server's hello, if it comes and is trusted.\<close>

definition hello_key ::
    "('c, 'k) x509 \<Rightarrow> server_verifier \<Rightarrow> bytes option \<Rightarrow> (bytes option, io_error) result \<Rightarrow> (bytes, ort_error) result" where
  "hello_key X verifier cached x =
     bind_result (map_err Io x) (\<lambda>b.
     bind_result (ok_or EarlyClose b) (\<lambda>body.
     bind_result (bind_result (map_err Proto (decode body)) (\<lambda>frame.
       case frame of
         ServerHello _ server_pk certificate _ \<Rightarrow> Ok (server_pk, certificate)
       | _ \<Rightarrow> Err (Unexpected ''expected ServerHello''))) (\<lambda>(server_pk, certificate).
     bind_result (sv_verify X verifier server_pk certificate) (\<lambda>_.
     bind_result (case cached of
         Some pin \<Rightarrow> if pin \<noteq> server_pk then Err PinMismatch else Ok ()
       | None \<Rightarrow> Ok ()) (\<lambda>_. Ok server_pk)))))"

lemma client_open_hello:
  assumes "cached = None \<or> force" "write_frame io (encode (client_one_rtt_hello (V1 C) ccfg)) (cs_writer s) = (y, w)"
    and "read_frame io (cs_reader s) = (x, r)"
  shows "client_open io C X ccfg src_ip cached force verifier now early s =
    (case y of
       Ok _ \<Rightarrow> (case hello_key X verifier cached x of
           Ok pk \<Rightarrow> sbind (on_shared Core (client_flight C ccfg src_ip True pk now early)) (\<lambda>(f, est). last_flight io f est None pk)
             (s\<lparr>cs_writer := w, cs_reader := r\<rparr>)
         | Err e \<Rightarrow> (Err e, s\<lparr>cs_writer := w, cs_reader := r\<rparr>)
         | Panic \<Rightarrow> (Panic, s\<lparr>cs_writer := w, cs_reader := r\<rparr>))
     | Err e \<Rightarrow> (Err (Io e), s\<lparr>cs_writer := w\<rparr>)
     | Panic \<Rightarrow> (Panic, s\<lparr>cs_writer := w\<rparr>))"
proof -
  let ?rest = "\<lambda>server_pk. sbind (on_shared Core (client_one_rtt_finish C (V1 C) ccfg server_pk src_ip now early)) (\<lambda>(f, est). last_flight io f est None server_pk)"
  have "client_open io C X ccfg src_ip cached force verifier now early =
    sbind (on_writer Io (write_frame io (encode (client_one_rtt_hello (V1 C) ccfg)))) (\<lambda>_.
    sbind (next_body io) (\<lambda>body.
    sbind (slift (bind_result (map_err Proto (decode body)) (\<lambda>frame.
            case frame of
              ServerHello _ server_pk certificate _ \<Rightarrow> Ok (server_pk, certificate)
            | _ \<Rightarrow> Err (Unexpected ''expected ServerHello'')))) (\<lambda>(server_pk, certificate).
    sbind (slift (sv_verify X verifier server_pk certificate)) (\<lambda>_.
    sbind (slift (case cached of
              Some pin \<Rightarrow> if pin \<noteq> server_pk then Err PinMismatch else Ok ()
            | None \<Rightarrow> Ok ())) (\<lambda>_. ?rest server_pk)))))"
    using assms(1) by (cases cached; cases force) (simp_all add: client_open_def last_flight_def opened_conn_def case_prod_unfold)
  moreover have "next_body io (s\<lparr>cs_writer := w\<rparr>) = (bind_result (map_err Io x) (ok_or EarlyClose), s\<lparr>cs_writer := w, cs_reader := r\<rparr>)"
    using assms(3) by (cases x) (simp_all add: next_body_def sbind_def on_reader_def)
  ultimately show ?thesis
    using assms(2)
    by (cases y)
      (simp_all add: hello_key_def client_flight_def sbind_def [of "on_writer Io _"] sbind_def [of "next_body io"] on_writer_def
        sbind_slift_cases bind_result_cases split: result.split prod.split)
qed

lemma hello_key_Ok:
  assumes "hello_key X verifier cached x = Ok pk" "read_frame io r = (x, r')"
  shows "key_trusted io X verifier cached True r pk"
proof -
  have hello: "(case f of ServerHello _ pk c _ \<Rightarrow> Ok (pk, c) | _ \<Rightarrow> Err e) = Ok (a, b) \<longleftrightarrow> (\<exists>suite t. f = ServerHello suite a b t)"
    for f a b and e :: ort_error
    by (cases f) auto
  show ?thesis
    using assms by (cases cached) (auto simp: hello_key_def key_trusted_def outcome_iff hello split: if_splits)
qed

lemma flight_sent:
  assumes "sbind (on_shared Core (client_flight C ccfg src_ip one_rtt pk now early)) (\<lambda>(f, est). last_flight io f est (ack est) pk) s = (x, s')"
  obtains "\<forall>co. x \<noteq> Ok co" "cs_writer s' = cs_writer s"
  | f est y where "client_flight C ccfg src_ip one_rtt pk now early (cs_shared s) = (Ok (f, est), cs_shared s')"
    "write_frame io (encode f) (cs_writer s) = (y, cs_writer s')"
    "\<forall>co. x = Ok co \<longrightarrow> y = Ok () \<and> oc_record (co_conn co) = ce_record est \<and> oc_writer (co_conn co) = cs_writer s' \<and>
      oc_role (co_conn co) = Client \<and> co_server_pk co = pk \<and>
      co_expect_ack co = ack est"
proof -
  obtain z g where z: "client_flight C ccfg src_ip one_rtt pk now early (cs_shared s) = (z, g)" by fastforce
  show thesis
  proof (cases z)
    case (Ok fe)
    obtain f est where fe: "fe = (f, est)" by (cases fe)
    obtain y w where "write_frame io (encode f) (cs_writer s) = (y, w)" by fastforce
    with z Ok fe assms show thesis
      by (cases y) (auto intro!: that(2) simp: sbind_def on_shared_def last_flight_def opened_conn_def on_writer_def)
  qed (use z assms in \<open>auto intro!: that(1) simp: sbind_def on_shared_def\<close>)
qed

lemma client_open_pinned_run:
  assumes "client_open io C X ccfg src_ip (Some spk) False verifier now early s = (x, s')"
  obtains "\<forall>co. x \<noteq> Ok co" "cs_writer s' = cs_writer s"
  | f est y where "client_flight C ccfg src_ip False spk now early (cs_shared s) = (Ok (f, est), cs_shared s')"
    "write_frames io [encode f] (cs_writer s) = (y, cs_writer s')"
    "\<forall>co. x = Ok co \<longrightarrow> y = Ok () \<and> oc_record (co_conn co) = ce_record est \<and> oc_writer (co_conn co) = cs_writer s' \<and>
      oc_role (co_conn co) = Client \<and> co_server_pk co = spk \<and> co_expect_ack co = Some (ce_expected_ek_hash est)"
proof -
  have "sbind (on_shared Core (client_flight C ccfg src_ip False spk now early))
      (\<lambda>(f, est). last_flight io f est (Some (ce_expected_ek_hash est)) spk) s = (x, s')"
    using assms by (simp add: client_open_zero_rtt client_flight_def)
  then show thesis
  proof (cases rule: flight_sent)
    case 1
    then show thesis by (rule that(1))
  next
    case (2 f est y)
    have "write_frames io [encode f] (cs_writer s) = (y, cs_writer s')" using 2(2) by (cases y) (simp_all add: sbind_def)
    from that(2) [OF 2(1) this 2(3)] show thesis .
  qed
qed

text \<open>
  C19. Which server key a client talks to. In every run of \<open>client_open\<close>, whatever the server sends
  and however the run ends, the client has written its hello, which holds its own public key only, in
  1-RTT, and nothing in 0-RTT; and beyond this at most one flight. The payload of this flight is made
  for a key that is the pin, if there is one, whatever the server presents; and in 1-RTT, which is
  taken without a pin or when forced, it is the key of the server's hello, and the policy has accepted
  it with the certificate in that hello. A run that succeeds has written such a flight, and the
  connection that it returns has the keys of this flight.
\<close>

theorem client_open_key_trusted:
  assumes "client_open io C X ccfg src_ip cached force verifier now early s = (x, s')"
    and "one_rtt \<longleftrightarrow> cached = None \<or> force" "hellos = (if one_rtt then [encode (client_one_rtt_hello (V1 C) ccfg)] else [])"
  shows "((\<forall>co. x \<noteq> Ok co) \<and> cs_writer s' = snd (write_frames io hellos (cs_writer s))) \<or>
    (\<exists>pk f est y. key_trusted io X verifier cached one_rtt (cs_reader s) pk \<and>
      client_flight C ccfg src_ip one_rtt pk now early (cs_shared s) = (Ok (f, est), cs_shared s') \<and>
      write_frames io (hellos @ [encode f]) (cs_writer s) = (y, cs_writer s') \<and>
      (\<forall>co. x = Ok co \<longrightarrow> y = Ok () \<and> oc_record (co_conn co) = ce_record est \<and> oc_writer (co_conn co) = cs_writer s' \<and>
        oc_role (co_conn co) = Client \<and> co_server_pk co = pk \<and>
        co_expect_ack co = (if one_rtt then None else Some (ce_expected_ek_hash est))))"
proof (cases one_rtt)
  case False
  then obtain spk where spk: "cached = Some spk" "\<not> force" using assms(2) by auto
  have trusted: "key_trusted io X verifier cached False (cs_reader s) spk" using spk by (simp add: key_trusted_def)
  have "client_open io C X ccfg src_ip (Some spk) False verifier now early s = (x, s')" using assms(1) spk by simp
  then show ?thesis
  proof (cases rule: client_open_pinned_run)
    case 1
    with False assms(3) show ?thesis by simp
  next
    case (2 f est y)
    with trusted False assms(3) show ?thesis by (simp del: write_frames.simps) blast
  qed
next
  case True
  obtain y w where y: "write_frame io (encode (client_one_rtt_hello (V1 C) ccfg)) (cs_writer s) = (y, w)" by fastforce
  obtain z r where z: "read_frame io (cs_reader s) = (z, r)" by fastforce
  note run = client_open_hello [OF _ y z, of cached force X src_ip verifier now early] 
  have first: "cached = None \<or> force" using True assms(2) by simp
  show ?thesis
  proof (cases "y = Ok () \<and> (\<exists>pk. hello_key X verifier cached z = Ok pk)")
    case False
    with run first assms(1) True assms(3) y show ?thesis
      by (auto simp: sbind_def split: result.splits)
  next
    case trusted: True
    then obtain pk where pk: "y = Ok ()" "hello_key X verifier cached z = Ok pk" by blast
    then have "sbind (on_shared Core (client_flight C ccfg src_ip True pk now early)) (\<lambda>(f, est). last_flight io f est None pk)
        (s\<lparr>cs_writer := w, cs_reader := r\<rparr>) = (x, s')"
      using run first assms(1) by simp
    then show ?thesis
    proof (cases rule: flight_sent)
      case 1
      with y pk(1) True assms(3) show ?thesis by (simp add: sbind_def)
    next
      case (2 f est v)
      moreover have "key_trusted io X verifier cached True (cs_reader s) pk" by (rule hello_key_Ok [OF pk(2) z])
      moreover have "write_frames io (hellos @ [encode f]) (cs_writer s) = (v, cs_writer s')"
        using 2(2) y pk(1) True assms(3) by (cases v) (simp_all add: sbind_def)
      ultimately show ?thesis using True by (simp del: write_frames.simps) blast
    qed
  qed
qed

text \<open>A client run, 1-RTT and strict, on the sample server's hello.\<close>

lemma sample_client_run:
  obtains co s where "client_open sample_io sample_crates sample_x509 sample_client (replicate 16 0) None False (Strict None) 7 []
    \<lparr>cs_reader = (encode_framed (encode sample_hello), None), cs_writer = ([], True), cs_shared = sample_rng\<rparr> = (Ok co, s)"
proof -
  have pk: "length (sv_server_pk sample_server) = 1184"
      "sv_server_pk sample_server = kem_public (V1 sample_crates) (sv_kem_secret sample_server)"
    using v1.kem_public_length [OF sample_crates_ok] by (simp_all add: sample_server_def V1_def ML_KEM_768_EK_def)
  obtain p ce g' where "build_payload sample_crates (V1 sample_crates) sample_client
      (kem_public (V1 sample_crates) (sv_kem_secret sample_server)) (replicate 16 0) 7 [] sample_rng = (Ok (p, ce), g')"
    using build_payload_ok [OF sample_crates_ok sample_rng_ok sample_client_good, of "replicate 16 0" "[]"]
    by (metis length_replicate list.size(3) zero_le)
  then have fin: "client_one_rtt_finish sample_crates (V1 sample_crates) sample_client (sv_server_pk sample_server)
      (replicate 16 0) 7 [] sample_rng = (Ok (ClientData (cc_client_pk sample_client) p, ce), g')"
    using pk(2) by (simp add: client_one_rtt_finish_def sbind_def)
  have hello: "frame_ok sample_hello" "length (encode sample_hello) \<le> MAX_FRAME"
    using pk(1) by (simp_all add: sample_hello_def encode_eq MAX_FRAME_def)
  have "sv_server_pk sample_server \<noteq> []" using pk(1) by force
  then have trust: "sv_verify sample_x509 (Strict None) (sv_server_pk sample_server) (sv_server_pk sample_server) = Ok ()"
    by (simp add: sv_verify_def sample_x509_def extract_bound_server_pk_def)
  have net: "pending sample_io fst snd (encode_framed (encode sample_hello), None) [encode sample_hello]"
    using sample_pending [of "[encode sample_hello]"] hello(2) by simp
  show thesis
    by (rule client_side_one_rtt [OF fin sample_hello_def hello trust sample_sent net]) (rule that)
qed

theorem client_open_key_trusted_witness:
  "\<exists>co s f est certificate. client_open sample_io sample_crates sample_x509 sample_client (replicate 16 0) None False (Strict None) 7 []
      \<lparr>cs_reader = (encode_framed (encode sample_hello), None), cs_writer = ([], True), cs_shared = sample_rng\<rparr> = (Ok co, s) \<and>
    sv_verify sample_x509 (Strict None) (co_server_pk co) certificate = Ok () \<and>
    client_one_rtt_finish sample_crates (V1 sample_crates) sample_client (co_server_pk co) (replicate 16 0) 7 [] sample_rng = (Ok (f, est), cs_shared s) \<and>
    write_frames sample_io [encode (client_one_rtt_hello (V1 sample_crates) sample_client), encode f] ([], True) = (Ok (), cs_writer s)"
proof -
  obtain co s where run: "client_open sample_io sample_crates sample_x509 sample_client (replicate 16 0) None False (Strict None) 7 []
      \<lparr>cs_reader = (encode_framed (encode sample_hello), None), cs_writer = ([], True), cs_shared = sample_rng\<rparr> = (Ok co, s)"
    by (rule sample_client_run)
  have "True \<longleftrightarrow> None = (None :: bytes option) \<or> False" by simp
  from client_open_key_trusted [OF run this refl] run show ?thesis
    by (auto simp: key_trusted_def client_flight_def simp del: write_frames.simps)
qed

lemma on_part_Ok_iff:
  "on_reader conv m s = (Ok x, s') \<longleftrightarrow> (\<exists>r. m (cs_reader s) = (Ok x, r) \<and> s' = s\<lparr>cs_reader := r\<rparr>)"
  "on_writer conv m' s = (Ok x, s') \<longleftrightarrow> (\<exists>w. m' (cs_writer s) = (Ok x, w) \<and> s' = s\<lparr>cs_writer := w\<rparr>)"
  "on_shared conv m'' s = (Ok x, s') \<longleftrightarrow> (\<exists>y. m'' (cs_shared s) = (Ok x, y) \<and> s' = s\<lparr>cs_shared := y\<rparr>)"
  by (auto simp: on_reader_def on_writer_def on_shared_def outcome_iff split: prod.splits)

lemma next_body_Ok: "next_body io s = (Ok b, s') \<Longrightarrow> \<exists>r. read_frame io (cs_reader s) = (Ok (Some b), r) \<and> s' = s\<lparr>cs_reader := r\<rparr>"
  by (auto simp: next_body_def outcome_iff on_part_Ok_iff)

lemma server_on_first_OkD:
  assumes "server_on_first C S cfg frame peer now strike = (Ok step, strike')"
  shows "case step of
      ZeroRtt ack se \<Rightarrow> (\<exists>suite pk p. frame = ClientHelloZeroRtt suite pk p \<and>
        process_payload C S cfg pk p peer now strike = (Ok se, strike'))
    | OneRtt hello \<Rightarrow> (\<exists>suite pk. frame = ClientHelloOneRtt suite pk) \<and> strike' = strike"
proof (cases frame)
  case (ClientHelloZeroRtt suite_id pk p)
  with assms obtain se where "process_payload C S cfg pk p peer now strike = (Ok se, strike')"
      "step = ZeroRtt (ServerAck (enc_key_hash S (se_record se))) se"
    by (auto simp: server_on_first_def outcome_iff)
  with ClientHelloZeroRtt show ?thesis by auto
qed (use assms in \<open>auto simp: server_on_first_def outcome_iff\<close>)

lemma server_on_client_data_OkD:
  assumes "server_on_client_data C S cfg frame peer now strike = (Ok se, strike')"
  shows "\<exists>pk p. frame = ClientData pk p \<and> process_payload C S cfg pk p peer now strike = (Ok se, strike')"
  using assms by (auto simp: server_on_client_data_def split: frame.splits)

text \<open>The payload that the peer has sent, in its first frame or, after a 1-RTT hello, in its second.\<close>

definition payload_in :: "('r, 'w) tokio_io \<Rightarrow> 'r \<Rightarrow> bool \<Rightarrow> bytes \<Rightarrow> kem_payload \<Rightarrow> bool" where
  "payload_in io r second pk p \<longleftrightarrow> (\<exists>body r' suite. read_frame io r = (Ok (Some body), r') \<and>
     (if second then \<exists>cpk body2 r''. decode body = Ok (ClientHelloOneRtt suite cpk) \<and>
        read_frame io r' = (Ok (Some body2), r'') \<and> decode body2 = Ok (ClientData pk p)
      else decode body = Ok (ClientHelloZeroRtt suite pk p)))"

text \<open>
  A successful server run has processed the payload that the peer has sent, at one of its two clock
  readings, and has written one frame, the acknowledgement or the hello.
\<close>

definition server_second ::
    "('r, 'w) tokio_io \<Rightarrow> ('dk, 'ek, 'sk, 'vk, 'sg, 'h) crates \<Rightarrow> bytes \<Rightarrow> 'dk server_config \<Rightarrow>
      (strike_cache \<Rightarrow> strike_cache) \<Rightarrow> u64 \<Rightarrow> (('r, 'w, 'h) server_outcome, ort_error, ('r, 'w, strike_cache) conn_state) sm" where
  "server_second io C peer scfg others now2 =
     sbind (next_body io) (\<lambda>body2.
     sbind (slift (map_err Proto (decode body2))) (\<lambda>frame2.
     sbind (on_shared Core (\<lambda>strike. server_on_client_data C (V1 C) scfg frame2 peer now2 (others strike))) (\<lambda>established s.
     (Ok \<lparr>so_conn = \<lparr>oc_reader = cs_reader s, oc_writer = cs_writer s, oc_record = se_record established, oc_role = Server\<rparr>,
          so_early_data = se_early_data established\<rparr>, s))))"

lemma server_second_Ok:
  assumes "server_second io C peer scfg others now2 s = (Ok so, s')"
  obtains body r pk p se where "read_frame io (cs_reader s) = (Ok (Some body), r)" "decode body = Ok (ClientData pk p)"
    "process_payload C (V1 C) scfg pk p peer now2 (others (cs_shared s)) = (Ok se, cs_shared s')"
    "oc_record (so_conn so) = se_record se" "so_early_data so = se_early_data se" "oc_writer (so_conn so) = cs_writer s"
proof -
  from assms obtain body r frame se where run: "read_frame io (cs_reader s) = (Ok (Some body), r)" "decode body = Ok frame"
      "server_on_client_data C (V1 C) scfg frame peer now2 (others (cs_shared s)) = (Ok se, cs_shared s')"
      "oc_record (so_conn so) = se_record se" "so_early_data so = se_early_data se" "oc_writer (so_conn so) = cs_writer s"
    by (auto simp: server_second_def sbind_Ok_iff on_part_Ok_iff outcome_iff dest!: next_body_Ok)
  from server_on_client_data_OkD [OF run(3)] run show thesis by (auto intro: that)
qed

lemma server_accept_run:
  assumes "server_accept io C peer scfg now1 others now2 s = (Ok so, s')"
  obtains second pk p now strike se where "payload_in io (cs_reader s) second pk p"
    "(now, strike) = (if second then (now2, others (cs_shared s)) else (now1, cs_shared s))"
    "process_payload C (V1 C) scfg pk p peer now strike = (Ok se, cs_shared s')"
    "oc_record (so_conn so) = se_record se" "so_early_data so = se_early_data se"
    "\<exists>f. write_frame io (encode f) (cs_writer s) = (Ok (), oc_writer (so_conn so)) \<and>
      (f = ServerAck (enc_key_hash (V1 C) (se_record se)) \<or> f = server_hello (V1 C) scfg now1)"
proof -
  from assms obtain body s1 frame step s2 where
      1: "next_body io s = (Ok body, s1)" "decode body = Ok frame"
        "on_shared Core (server_on_first C (V1 C) scfg frame peer now1) s1 = (Ok step, s2)"
    and tail: "(case step of
       ZeroRtt ack established \<Rightarrow>
         sbind (on_writer Io (write_frame io (encode ack))) (\<lambda>_ s.
         (Ok \<lparr>so_conn = \<lparr>oc_reader = cs_reader s, oc_writer = cs_writer s,
                oc_record = se_record established, oc_role = Server\<rparr>,
              so_early_data = se_early_data established\<rparr>, s))
     | OneRtt hello \<Rightarrow>
         sbind (on_writer Io (write_frame io (encode hello))) (\<lambda>_. server_second io C peer scfg others now2)) s2 = (Ok so, s')"
    unfolding server_accept_def sbind_Ok_iff server_second_def by (fastforce simp: outcome_iff)
  obtain r where r: "read_frame io (cs_reader s) = (Ok (Some body), r)" "cs_reader s2 = r" "cs_writer s2 = cs_writer s"
      "server_on_first C (V1 C) scfg frame peer now1 (cs_shared s) = (Ok step, cs_shared s2)"
    using 1 by (auto simp: on_part_Ok_iff dest!: next_body_Ok)
  have frame: "case step of ZeroRtt ack se \<Rightarrow> ack = ServerAck (enc_key_hash (V1 C) (se_record se))
      | OneRtt hello \<Rightarrow> hello = server_hello (V1 C) scfg now1"
    using r(4) by (auto simp: server_on_first_def outcome_iff split: frame.splits)
  show thesis
  proof (cases step)
    case (ZeroRtt ack se)
    with server_on_first_OkD [OF r(4)] obtain suite pk p where p: "frame = ClientHelloZeroRtt suite pk p"
      "process_payload C (V1 C) scfg pk p peer now1 (cs_shared s) = (Ok se, cs_shared s2)" by auto
    then have "payload_in io (cs_reader s) False pk p" using r(1) 1(2) by (auto simp: payload_in_def)
    with p(2) tail ZeroRtt frame r(3) show thesis
      by (intro that [of False]) (auto simp: sbind_Ok_iff on_part_Ok_iff)
  next
    case (OneRtt hello)
    then obtain suite cpk where hello: "hello = server_hello (V1 C) scfg now1" "frame = ClientHelloOneRtt suite cpk" "cs_shared s2 = cs_shared s"
      using server_on_first_OkD [OF r(4)] frame by auto
    from tail OneRtt obtain w where w: "write_frame io (encode hello) (cs_writer s) = (Ok (), w)"
        "server_second io C peer scfg others now2 (s2\<lparr>cs_writer := w\<rparr>) = (Ok so, s')"
      using r(3) by (auto simp: sbind_Ok_iff on_part_Ok_iff)
    obtain body2 r2 pk p se where run: "read_frame io r = (Ok (Some body2), r2)" "decode body2 = Ok (ClientData pk p)"
        "process_payload C (V1 C) scfg pk p peer now2 (others (cs_shared s)) = (Ok se, cs_shared s')"
        "oc_record (so_conn so) = se_record se" "so_early_data so = se_early_data se" "oc_writer (so_conn so) = w"
      by (rule server_second_Ok [OF w(2)]) (use hello(3) r(2) in simp)
    then have "payload_in io (cs_reader s) True pk p" using r(1) 1(2) hello(2) by (auto simp: payload_in_def)
    with run(3-6) w(1) hello(1) show thesis
      by (intro that [of True]) auto
  qed
qed

text \<open>
  C17. What a server has checked before it forwards anything. Whenever \<open>server_accept\<close> succeeds,
  the peer has sent a payload, in its first frame or after a 1-RTT hello in its second; the payload
  claims the peer's address, its timestamp was within the window when it was processed, and the
  presented client key verifies its signature; its tag was not live in the strike cache as it was at
  that moment, and is recorded in it now; and the record layer and early data of the outcome are
  those unwrapped from this payload.
\<close>

theorem server_accept_authenticated:
  assumes "sc_ok strike" "sc_ok (others strike)"
    and "server_accept io C peer scfg now1 others now2 \<lparr>cs_reader = rs, cs_writer = ws, cs_shared = strike\<rparr> = (Ok so, s')"
  shows "\<exists>second pk p now c. payload_in io rs second pk p \<and>
    (now, c) = (if second then (now2, others strike) else (now1, strike)) \<and>
    payload_checked (V1 C) scfg pk p peer now \<and> tag_fresh c now (payload_tag (V1 C) p) \<and>
    cs_shared s' = snd (check_and_insert (payload_tag (V1 C) p) now c) \<and>
    seen_at (cs_shared s') (payload_tag (V1 C) p) = Some now \<and>
    unwrap_payload C (V1 C) (sv_kem_secret scfg) p =
      Ok \<lparr>se_record = oc_record (so_conn so), se_early_data = so_early_data so\<rparr>"
proof -
  obtain second pk p now c se where run: "payload_in io rs second pk p"
      "(now, c) = (if second then (now2, others strike) else (now1, strike))"
      "process_payload C (V1 C) scfg pk p peer now c = (Ok se, cs_shared s')"
      "oc_record (so_conn so) = se_record se" "so_early_data so = se_early_data se"
    by (rule server_accept_run [OF assms(3), unfolded conn_state.select_convs])
  with assms(1,2) have ok: "sc_ok c" by (simp split: if_splits)
  have "cs_shared s' = snd (check_and_insert (payload_tag (V1 C) p) now c)"
    using run(3) process_payload_Ok_iff [OF ok] by blast
  with process_payload_OkD [OF ok run(3)] run(1,2,4,5) show ?thesis
    by (intro exI [of _ second] exI [of _ pk] exI [of _ p] exI [of _ now] exI [of _ c]) simp
qed

text \<open>A server run on the flight of the sample client.\<close>

lemma sample_flight:
  obtains p se where
    "process_payload sample_crates (V1 sample_crates) sample_server (cc_client_pk sample_client) p (replicate 16 1) 1000000 (sc_new 2000) =
      (Ok se, snd (check_and_insert (payload_tag (V1 sample_crates) p) 1000000 (sc_new 2000)))"
    "frame_ok (ClientHelloZeroRtt 1 (cc_client_pk sample_client) p)"
    "length (encode (ClientHelloZeroRtt 1 (cc_client_pk sample_client) p)) \<le> MAX_FRAME"
proof -
  have "length ([] :: bytes) \<le> 2 ^ 36" by simp
  then obtain p ce g' where p: "payload_for sample_crates sample_client (sv_kem_secret sample_server) (replicate 16 1) 1000900 [] p ce"
    using build_payload_ok [OF sample_crates_ok sample_rng_ok sample_client_good, of "replicate 16 1" "[]"]
    by (metis length_replicate)
  obtain se where se: "process_payload sample_crates (V1 sample_crates) sample_server (cc_client_pk sample_client) p
      (replicate 16 1) 1000000 (sc_new 2000) =
      (Ok se, snd (check_and_insert (payload_tag (V1 sample_crates) p) 1000000 (sc_new 2000)))"
    using honest_payload_accepted [OF p sample_window sc_ok_new tag_fresh_new] .
  have fits: "frame_ok (ClientHelloZeroRtt 1 (cc_client_pk sample_client) p)"
      "length (encode (ClientHelloZeroRtt 1 (cc_client_pk sample_client) p)) \<le> MAX_FRAME"
    using honest_flight_fits [OF p _ _ good_client_pk_length [OF sample_crates_ok sample_client_good],
        of "ClientHelloZeroRtt 1 (cc_client_pk sample_client) p"] by simp_all
  show thesis by (rule that [OF se fits])
qed

lemma sample_server_run:
  obtains rs ws so s' where
    "server_accept sample_io sample_crates (replicate 16 1) sample_server 1000000 id 1000000
        \<lparr>cs_reader = rs, cs_writer = ws, cs_shared = sc_new 2000\<rparr> = (Ok so, s')"
proof -
  obtain p se where se: "process_payload sample_crates (V1 sample_crates) sample_server (cc_client_pk sample_client) p
      (replicate 16 1) 1000000 (sc_new 2000) =
      (Ok se, snd (check_and_insert (payload_tag (V1 sample_crates) p) 1000000 (sc_new 2000)))"
    and fits: "frame_ok (ClientHelloZeroRtt 1 (cc_client_pk sample_client) p)"
      "length (encode (ClientHelloZeroRtt 1 (cc_client_pk sample_client) p)) \<le> MAX_FRAME"
    by (rule sample_flight)
  have net: "pending sample_io fst snd (encode_framed (encode (ClientHelloZeroRtt 1 (cc_client_pk sample_client) p)), None)
      [encode (ClientHelloZeroRtt 1 (cc_client_pk sample_client) p)]"
    using sample_pending [of "[encode (ClientHelloZeroRtt 1 (cc_client_pk sample_client) p)]"] fits(2) by simp
  show thesis
    by (rule server_side_zero_rtt [OF server_on_first_zero_rtt [OF se] fits net sample_sent, of id 1000000])
      (rule that)
qed

theorem server_accept_authenticated_witness:
  "\<exists>rs ws so s' second pk p now.
    server_accept sample_io sample_crates (replicate 16 1) sample_server 1000000 id 1000000
      \<lparr>cs_reader = rs, cs_writer = ws, cs_shared = sc_new 2000\<rparr> = (Ok so, s') \<and> payload_in sample_io rs second pk p \<and>
    payload_checked (V1 sample_crates) sample_server pk p (replicate 16 1) now \<and>
    tag_fresh (sc_new 2000) now (payload_tag (V1 sample_crates) p)"
proof -
  obtain rs ws so s' where run: "server_accept sample_io sample_crates (replicate 16 1) sample_server 1000000 id 1000000
        \<lparr>cs_reader = rs, cs_writer = ws, cs_shared = sc_new 2000\<rparr> = (Ok so, s')"
    by (rule sample_server_run)
  have "sc_ok (id (sc_new 2000))" by simp
  from server_accept_authenticated [OF sc_ok_new this run] obtain second pk p now c where
      p: "payload_in sample_io rs second pk p" "(now, c) = (if second then (1000000, id (sc_new 2000)) else (1000000, sc_new 2000))"
      "payload_checked (V1 sample_crates) sample_server pk p (replicate 16 1) now" "tag_fresh c now (payload_tag (V1 sample_crates) p)"
    by (elim exE conjE)
  from p(2) have "c = sc_new 2000" by (simp split: if_splits)
  with run p(1,3,4) show ?thesis by blast
qed

end
