(* ===== verification/Forward.thy ===== *)
theory Forward
  imports Session
begin

text \<open>
  The forwarder of \<open>ort-net/src/forward.rs\<close>: two tasks that share the record layer behind a
  mutex, one from the plaintext socket into the tunnel (up), one out of the tunnel (down).
  Each task is a program counter with one step per await point or critical section; the step
  relation interleaves them in any order, and stops as \<open>try_join!\<close> does.
\<close>

section \<open>State\<close>

definition CHUNK :: nat where
  "CHUNK = 16 * 1024"

datatype up_pc =
    UpRead
  | UpSeal bytes
  | UpWrite bytes
  | UpClose
  | UpShutdown
  | UpDone "(unit, ort_error) result"

datatype down_pc =
    DownAck bytes
  | DownRead
  | DownOpen bytes
  | DownWrite bytes
  | DownShutdown
  | DownDone "(unit, ort_error) result"

record ('r, 'w, 'h) fwd =
  fw_plain_r :: 'r
  fw_plain_w :: 'w
  fw_tun_r :: 'r
  fw_tun_w :: 'w
  fw_record :: "'h record_layer"
  fw_role :: role
  fw_up :: up_pc
  fw_down :: down_pc

text \<open>\<open>invalid\<close>: the text of the error it wraps is represented by the error.\<close>

definition invalid :: "core_error \<Rightarrow> io_error" where
  "invalid e = IoError InvalidData (CoreCause e)"


section \<open>Operations\<close>

definition forward_start ::
    "('r, 'w) tokio_io \<Rightarrow> 'r \<Rightarrow> 'w \<Rightarrow> ('r, 'w, 'h) ort_conn \<Rightarrow> bytes option \<Rightarrow> bytes \<Rightarrow>
      (('r, 'w, 'h) fwd, ort_error) result" where
  "forward_start io pr pw conn expect_ack early_to_plain =
     bind_result
       (if early_to_plain \<noteq> []
        then (case io_write_all io early_to_plain pw of (x, pw) \<Rightarrow>
          bind_result (map_err Io x) (\<lambda>_. Ok pw))
        else Ok pw) (\<lambda>pw.
     Ok \<lparr>fw_plain_r = pr, fw_plain_w = pw, fw_tun_r = oc_reader conn, fw_tun_w = oc_writer conn,
         fw_record = oc_record conn, fw_role = oc_role conn, fw_up = UpRead,
         fw_down = (case expect_ack of Some expected \<Rightarrow> DownAck expected | None \<Rightarrow> DownRead)\<rparr>)"

fun up_step ::
    "('r, 'w) tokio_io \<Rightarrow> ('dk, 'ek, 'sk, 'vk, 'sg, 'h) crates \<Rightarrow> up_pc \<Rightarrow> ('r, 'w, 'h) fwd \<Rightarrow> ('r, 'w, 'h) fwd"
  where
  "up_step io C UpRead s =
     (case io_read io CHUNK (fw_plain_r s) of
        (Ok buf, r) \<Rightarrow> s\<lparr>fw_plain_r := r, fw_up := if buf = [] then UpClose else UpSeal buf\<rparr>
      | (Err e, r) \<Rightarrow> s\<lparr>fw_plain_r := r, fw_up := UpDone (Err (Io e))\<rparr>
      | (Panic, r) \<Rightarrow> s\<lparr>fw_plain_r := r, fw_up := UpDone Panic\<rparr>)"
| "up_step io C (UpSeal buf) s =
     (let dir = send_dir (fw_role s) in
      case rl_seal C (V1 C) dir buf (fw_record s) of
        (Ok ct, rec) \<Rightarrow> s\<lparr>fw_record := rec, fw_up := UpWrite (encode (DataRecord (dir_code dir) ct))\<rparr>
      | (Err e, rec) \<Rightarrow> s\<lparr>fw_record := rec, fw_up := UpDone Panic\<rparr>
      | (Panic, rec) \<Rightarrow> s\<lparr>fw_record := rec, fw_up := UpDone Panic\<rparr>)"
| "up_step io C (UpWrite body) s =
     (case write_frame io body (fw_tun_w s) of
        (Ok _, w) \<Rightarrow> s\<lparr>fw_tun_w := w, fw_up := UpRead\<rparr>
      | (Err e, w) \<Rightarrow> s\<lparr>fw_tun_w := w, fw_up := UpDone (Err (Io e))\<rparr>
      | (Panic, w) \<Rightarrow> s\<lparr>fw_tun_w := w, fw_up := UpDone Panic\<rparr>)"
| "up_step io C UpClose s =
     (case write_frame io (encode Close) (fw_tun_w s) of
        (Panic, w) \<Rightarrow> s\<lparr>fw_tun_w := w, fw_up := UpDone Panic\<rparr>
      | (_, w) \<Rightarrow> s\<lparr>fw_tun_w := w, fw_up := UpShutdown\<rparr>)"
| "up_step io C UpShutdown s =
     (case fw_shutdown io (fw_tun_w s) of
        (Panic, w) \<Rightarrow> s\<lparr>fw_tun_w := w, fw_up := UpDone Panic\<rparr>
      | (_, w) \<Rightarrow> s\<lparr>fw_tun_w := w, fw_up := UpDone (Ok ())\<rparr>)"
| "up_step io C (UpDone x) s = s"

fun down_step ::
    "('r, 'w) tokio_io \<Rightarrow> ('dk, 'ek, 'sk, 'vk, 'sg, 'h) crates \<Rightarrow> down_pc \<Rightarrow> ('r, 'w, 'h) fwd \<Rightarrow> ('r, 'w, 'h) fwd"
  where
  "down_step io C (DownAck expected) s =
     (case read_frame io (fw_tun_r s) of
        (Ok None, r) \<Rightarrow> s\<lparr>fw_tun_r := r, fw_down := DownDone (Ok ())\<rparr>
      | (Ok (Some body), r) \<Rightarrow>
          s\<lparr>fw_tun_r := r, fw_down :=
            (case decode body of
               Ok (ServerAck ek_hash) \<Rightarrow>
                 if ek_hash \<noteq> expected then DownDone (Err KeyConfirmation) else DownRead
             | Ok _ \<Rightarrow> DownDone (Err (Unexpected ''expected ServerAck''))
             | Err e \<Rightarrow> DownDone (Err (Proto e))
             | Panic \<Rightarrow> DownDone Panic)\<rparr>
      | (Err e, r) \<Rightarrow> s\<lparr>fw_tun_r := r, fw_down := DownDone (Err (Io e))\<rparr>
      | (Panic, r) \<Rightarrow> s\<lparr>fw_tun_r := r, fw_down := DownDone Panic\<rparr>)"
| "down_step io C DownRead s =
     (case read_frame io (fw_tun_r s) of
        (Ok None, r) \<Rightarrow> s\<lparr>fw_tun_r := r, fw_down := DownShutdown\<rparr>
      | (Ok (Some body), r) \<Rightarrow>
          s\<lparr>fw_tun_r := r, fw_down :=
            (case decode body of
               Ok (DataRecord _ ciphertext) \<Rightarrow> DownOpen ciphertext
             | Ok Close \<Rightarrow> DownShutdown
             | Ok _ \<Rightarrow> DownDone (Err (Unexpected ''expected DataRecord''))
             | Err e \<Rightarrow> DownDone (Err (Proto e))
             | Panic \<Rightarrow> DownDone Panic)\<rparr>
      | (Err e, r) \<Rightarrow> s\<lparr>fw_tun_r := r, fw_down := DownDone (Err (Io e))\<rparr>
      | (Panic, r) \<Rightarrow> s\<lparr>fw_tun_r := r, fw_down := DownDone Panic\<rparr>)"
| "down_step io C (DownOpen ciphertext) s =
     (case rl_open C (V1 C) (recv_dir (fw_role s)) ciphertext (fw_record s) of
        (Ok pt, rec) \<Rightarrow> s\<lparr>fw_record := rec, fw_down := DownWrite pt\<rparr>
      | (Err e, rec) \<Rightarrow> s\<lparr>fw_record := rec, fw_down := DownDone (Err (Io (invalid e)))\<rparr>
      | (Panic, rec) \<Rightarrow> s\<lparr>fw_record := rec, fw_down := DownDone Panic\<rparr>)"
| "down_step io C (DownWrite pt) s =
     (case io_write_all io pt (fw_plain_w s) of
        (Ok _, w) \<Rightarrow> s\<lparr>fw_plain_w := w, fw_down := DownRead\<rparr>
      | (Err e, w) \<Rightarrow> s\<lparr>fw_plain_w := w, fw_down := DownDone (Err (Io e))\<rparr>
      | (Panic, w) \<Rightarrow> s\<lparr>fw_plain_w := w, fw_down := DownDone Panic\<rparr>)"
| "down_step io C DownShutdown s =
     (case io_shutdown io (fw_plain_w s) of
        (Panic, w) \<Rightarrow> s\<lparr>fw_plain_w := w, fw_down := DownDone Panic\<rparr>
      | (_, w) \<Rightarrow> s\<lparr>fw_plain_w := w, fw_down := DownDone (Ok ())\<rparr>)"
| "down_step io C (DownDone x) s = s"

text \<open>
  \<open>try_join!\<close> returns as soon as one task has failed, and otherwise when both have ended.
\<close>

fun forward_result :: "up_pc \<Rightarrow> down_pc \<Rightarrow> (unit, ort_error) result option" where
  "forward_result (UpDone (Err e)) d = Some (Err e)"
| "forward_result (UpDone Panic) d = Some Panic"
| "forward_result u (DownDone (Err e)) = Some (Err e)"
| "forward_result u (DownDone Panic) = Some Panic"
| "forward_result (UpDone (Ok _)) (DownDone (Ok _)) = Some (Ok ())"
| "forward_result u d = None"

inductive fstep ::
    "('r, 'w) tokio_io \<Rightarrow> ('dk, 'ek, 'sk, 'vk, 'sg, 'h) crates \<Rightarrow> ('r, 'w, 'h) fwd \<Rightarrow> ('r, 'w, 'h) fwd \<Rightarrow> bool"
  for io C where
  up: "forward_result (fw_up s) (fw_down s) = None \<Longrightarrow> \<forall>x. fw_up s \<noteq> UpDone x \<Longrightarrow>
    fstep io C s (up_step io C (fw_up s) s)"
| down: "forward_result (fw_up s) (fw_down s) = None \<Longrightarrow> \<forall>x. fw_down s \<noteq> DownDone x \<Longrightarrow>
    fstep io C s (down_step io C (fw_down s) s)"

inductive_cases fstepE: "fstep io C s t"


section \<open>The two tasks do not disturb each other\<close>

lemma recv_dir_neq [simp]: "recv_dir r \<noteq> send_dir r" "send_dir r \<noteq> recv_dir r"
  by (cases r; simp add: recv_dir_def)+

lemma up_step_record:
  "fw_record (up_step io C pc s) =
    (case pc of UpSeal buf \<Rightarrow> snd (rl_seal C (V1 C) (send_dir (fw_role s)) buf (fw_record s)) | _ \<Rightarrow> fw_record s)"
  by (cases pc) (auto simp: Let_def split: prod.split result.split)

lemma down_step_record:
  "fw_record (down_step io C pc s) =
    (case pc of DownOpen ct \<Rightarrow> snd (rl_open C (V1 C) (recv_dir (fw_role s)) ct (fw_record s)) | _ \<Rightarrow> fw_record s)"
  by (cases pc) (auto split: prod.split result.split option.split)

lemma up_step_frame:
  "fw_plain_w (up_step io C pc s) = fw_plain_w s" "fw_tun_r (up_step io C pc s) = fw_tun_r s"
  "fw_role (up_step io C pc s) = fw_role s" "fw_down (up_step io C pc s) = fw_down s"
  by (cases pc; auto simp: Let_def split: prod.split result.split)+

lemma up_step_channel:
  "rl_same (recv_dir (fw_role s)) (fw_record (up_step io C pc s)) (fw_record s)"
  "rl_valid C (fw_record s) \<Longrightarrow> rl_valid C (fw_record (up_step io C pc s))"
  by (auto simp: up_step_record rl.same_refl rl.seal_frame rl.valid_seal split: up_pc.split)

lemma down_step_frame:
  "fw_plain_r (down_step io C pc s) = fw_plain_r s" "fw_tun_w (down_step io C pc s) = fw_tun_w s"
  "fw_role (down_step io C pc s) = fw_role s" "fw_up (down_step io C pc s) = fw_up s"
  by (cases pc; auto split: prod.split result.split option.split)+

lemma down_step_channel:
  "rl_same (send_dir (fw_role s)) (fw_record (down_step io C pc s)) (fw_record s)"
  "rl_valid C (fw_record s) \<Longrightarrow> rl_valid C (fw_record (down_step io C pc s))"
  by (auto simp: down_step_record rl.same_refl rl.open_frame rl.valid_open split: down_pc.split)

lemma fstep_frame:
  assumes "fstep io C s t"
  shows "fw_role t = fw_role s" "rl_valid C (fw_record s) \<Longrightarrow> rl_valid C (fw_record t)"
  using assms by (auto elim!: fstepE simp: up_step_frame down_step_frame up_step_channel down_step_channel)


section \<open>Invariant of the sending task\<close>

definition record_body :: "direction \<Rightarrow> bytes \<Rightarrow> bytes" where
  "record_body d ct = encode (DataRecord (dir_code d) ct)"

text \<open>
  \<open>q\<close> lists the records the task has sealed, with their plaintexts, as a peer in state \<open>b\<close> will
  open them; \<open>D\<close> is all the plaintext of the session, \<open>B\<close> what the connection carried before.
\<close>

definition up_carried :: "up_pc \<Rightarrow> direction \<Rightarrow> (bytes \<times> bytes) list \<Rightarrow> bytes list \<Rightarrow> bool" where
  "up_carried pc d q bodies \<longleftrightarrow>
     (case pc of
        UpRead \<Rightarrow> bodies = map (record_body d \<circ> fst) q
      | UpSeal buf \<Rightarrow> bodies = map (record_body d \<circ> fst) q
      | UpWrite body \<Rightarrow> bodies @ [body] = map (record_body d \<circ> fst) q
      | UpClose \<Rightarrow> bodies = map (record_body d \<circ> fst) q
      | UpShutdown \<Rightarrow> bodies = map (record_body d \<circ> fst) q @ [encode Close]
      | UpDone x \<Rightarrow> x = Ok () \<and> bodies = map (record_body d \<circ> fst) q @ [encode Close])"

definition up_unread :: "up_pc \<Rightarrow> bytes \<Rightarrow> bytes" where
  "up_unread pc left = (case pc of UpRead \<Rightarrow> left | UpSeal buf \<Rightarrow> buf @ left | UpWrite _ \<Rightarrow> left | _ \<Rightarrow> [])"

definition up_inv where
  "up_inv io C inc fin out up b B D s \<longleftrightarrow> rl_valid C (fw_record s) \<and> fin (fw_plain_r s) = None \<and>
     (\<forall>buf. fw_up s = UpSeal buf \<longrightarrow> length buf \<le> CHUNK) \<and>
     ((\<forall>x. fw_up s \<noteq> UpDone x) \<longrightarrow> up (fw_tun_w s)) \<and>
     (\<exists>q bodies. records_in_flight C (send_dir (fw_role s)) (fw_record s) b q \<and>
       (\<forall>(ct, pt) \<in> set q. length ct \<le> CHUNK + 16) \<and>
       up_carried (fw_up s) (send_dir (fw_role s)) q bodies \<and>
       concat (map snd q) @ up_unread (fw_up s) (inc (fw_plain_r s)) = D \<and>
       out (fw_tun_w s) = concat (map encode_framed (B @ bodies)))"

text \<open>The behaviour of the streams that forwarding relies on, and of sockets that stay up.\<close>

definition io_laws where
  "io_laws io inc fin out up \<longleftrightarrow> read_exact_ok io inc fin \<and> read_ok io inc fin \<and> write_ok io out up \<and> shutdown_ok io out up"

lemma io_lawsD:
  assumes "io_laws io inc fin out up"
  shows "read_exact_ok io inc fin" "read_ok io inc fin" "write_ok io out up" "shutdown_ok io out up"
  using assms by (simp_all add: io_laws_def)

lemma up_inv_down:
  assumes "up_inv io C inc fin out up b B D s"
  shows "up_inv io C inc fin out up b B D (down_step io C pc s)"
proof -
  have "records_in_flight C (send_dir (fw_role s)) (fw_record (down_step io C pc s)) b q"
    if "records_in_flight C (send_dir (fw_role s)) (fw_record s) b q" for q
    using rl.in_flight_sender_cong [OF that rl.same_sym [OF down_step_channel(1)]] .
  then show ?thesis
    using assms unfolding up_inv_def down_step_frame by (metis down_step_channel(2))
qed

lemma up_inv_read:
  assumes inv: "up_inv io C inc fin out up b B D s" and laws: "io_laws io inc fin out up" and pc: "fw_up s = UpRead"
  shows "up_inv io C inc fin out up b B D (up_step io C UpRead s)"
proof (cases "inc (fw_plain_r s)")
  case Nil
  moreover have "fin (fw_plain_r s) = None" using inv by (simp add: up_inv_def)
  ultimately obtain r where r: "io_read io CHUNK (fw_plain_r s) = (Ok [], r)" "inc r = []" "fin r = None"
    using io_lawsD(2) [OF laws] unfolding read_ok_def by (metis CHUNK_def zero_less_numeral mult_pos_pos)
  then show ?thesis
    using inv Nil pc by (auto simp: up_inv_def up_carried_def up_unread_def)
next
  case (Cons x xs)
  moreover have "fin (fw_plain_r s) = None" using inv by (simp add: up_inv_def)
  moreover have "0 < CHUNK" by (simp add: CHUNK_def)
  ultimately obtain k r where "0 < k" "k \<le> CHUNK" "k \<le> length (inc (fw_plain_r s))"
      "io_read io CHUNK (fw_plain_r s) = (Ok (take k (inc (fw_plain_r s))), r)"
      "inc r = drop k (inc (fw_plain_r s))" "fin r = None"
    using io_lawsD(2) [OF laws] unfolding read_ok_def by (metis list.discI)
  then show ?thesis
    using inv Cons pc by (auto simp: up_inv_def up_carried_def up_unread_def)
qed

lemma up_inv_seal:
  assumes inv: "up_inv io C inc fin out up b B D s" and pc: "fw_up s = UpSeal buf"
  shows "up_inv io C inc fin out up b B D (up_step io C (UpSeal buf) s)"
proof -
  let ?d = "send_dir (fw_role s)"
  from inv pc obtain q bodies where
      v: "rl_valid C (fw_record s)" "fin (fw_plain_r s) = None" "length buf \<le> CHUNK" "up (fw_tun_w s)"
    and q: "records_in_flight C ?d (fw_record s) b q" "\<forall>(ct, pt) \<in> set q. length ct \<le> CHUNK + 16"
      "bodies = map (record_body ?d \<circ> fst) q" "concat (map snd q) @ buf @ inc (fw_plain_r s) = D"
      "out (fw_tun_w s) = concat (map encode_framed (B @ bodies))"
    by (auto simp: up_inv_def up_carried_def up_unread_def)
  have "rl_fits buf" using v(3) by (simp add: rl_fits_def CHUNK_def)
  from rl.in_flight_send [OF q(1) v(1) this] obtain ct rec where
      ct: "rl_seal C (V1 C) ?d buf (fw_record s) = (Ok ct, rec)" "records_in_flight C ?d rec b (q @ [(ct, buf)])"
      "length ct = length buf + 16" by blast
  moreover have "rl_valid C rec"
    using rl.valid_seal [OF v(1), of ?d buf] ct(1) by simp
  ultimately show ?thesis
    unfolding up_inv_def using v q
    by (intro conjI exI [of _ "q @ [(ct, buf)]"] exI [of _ bodies])
      (auto simp: up_carried_def up_unread_def record_body_def Let_def)
qed

lemma up_inv_write:
  assumes inv: "up_inv io C inc fin out up b B D s" and laws: "io_laws io inc fin out up" and pc: "fw_up s = UpWrite body"
  shows "up_inv io C inc fin out up b B D (up_step io C (UpWrite body) s)"
proof -
  have "up (fw_tun_w s)" using inv pc by (simp add: up_inv_def)
  then obtain w where w: "write_frame io body (fw_tun_w s) = (Ok (), w)"
      "out w = out (fw_tun_w s) @ encode_framed body" "up w"
    using write_frame_ok [OF io_lawsD(3) [OF laws]] by metis
  from inv pc obtain q bodies where q: "records_in_flight C (send_dir (fw_role s)) (fw_record s) b q"
      "\<forall>(ct, pt) \<in> set q. length ct \<le> CHUNK + 16"
      "bodies @ [body] = map (record_body (send_dir (fw_role s)) \<circ> fst) q"
      "concat (map snd q) @ inc (fw_plain_r s) = D" "out (fw_tun_w s) = concat (map encode_framed (B @ bodies))"
    by (auto simp: up_inv_def up_carried_def up_unread_def)
  have "out w = concat (map encode_framed (B @ map (record_body (send_dir (fw_role s)) \<circ> fst) q))"
    unfolding q(3) [symmetric] using w(2) q(5) by simp
  moreover have "rl_valid C (fw_record s)" "fin (fw_plain_r s) = None"
    using inv by (simp_all add: up_inv_def)
  ultimately show ?thesis
    unfolding up_inv_def using w(1,3) q(1,2,4)
    by (intro conjI exI [of _ q] exI [of _ "map (record_body (send_dir (fw_role s)) \<circ> fst) q"])
      (simp_all add: up_carried_def up_unread_def)
qed

lemma up_inv_close:
  assumes inv: "up_inv io C inc fin out up b B D s" and laws: "io_laws io inc fin out up" and pc: "fw_up s = UpClose"
  shows "up_inv io C inc fin out up b B D (up_step io C UpClose s)"
proof -
  have "up (fw_tun_w s)" using inv pc by (simp add: up_inv_def)
  then obtain w where w: "write_frame io (encode Close) (fw_tun_w s) = (Ok (), w)"
      "out w = out (fw_tun_w s) @ encode_framed (encode Close)" "up w"
    using write_frame_ok [OF io_lawsD(3) [OF laws]] by metis
  from inv pc obtain q where q: "records_in_flight C (send_dir (fw_role s)) (fw_record s) b q"
      "\<forall>(ct, pt) \<in> set q. length ct \<le> CHUNK + 16" "concat (map snd q) = D"
      "out (fw_tun_w s) = concat (map encode_framed (B @ map (record_body (send_dir (fw_role s)) \<circ> fst) q))"
    by (auto simp: up_inv_def up_carried_def up_unread_def)
  show ?thesis
    unfolding up_inv_def using inv w q pc
    by (intro conjI exI [of _ q] exI [of _ "map (record_body (send_dir (fw_role s)) \<circ> fst) q @ [encode Close]"])
      (auto simp: up_carried_def up_unread_def up_inv_def)
qed

lemma up_inv_shutdown:
  assumes inv: "up_inv io C inc fin out up b B D s" and laws: "io_laws io inc fin out up" and pc: "fw_up s = UpShutdown"
  shows "up_inv io C inc fin out up b B D (up_step io C UpShutdown s)"
proof -
  have "up (fw_tun_w s)" using inv pc by (simp add: up_inv_def)
  then obtain w where "fw_shutdown io (fw_tun_w s) = (Ok (), w)" "out w = out (fw_tun_w s)"
    using io_lawsD(4) [OF laws] unfolding shutdown_ok_def fw_shutdown_def by blast
  then show ?thesis
    using inv pc by (auto simp: up_inv_def up_carried_def up_unread_def)
qed

lemma up_inv_step:
  assumes "up_inv io C inc fin out up b B D s" "io_laws io inc fin out up" "fstep io C s t"
  shows "up_inv io C inc fin out up b B D t"
  using assms(3)
proof (cases rule: fstep.cases)
  case up
  then show ?thesis
    using up_inv_read [OF assms(1,2)] up_inv_seal [OF assms(1)] up_inv_write [OF assms(1,2)]
      up_inv_close [OF assms(1,2)] up_inv_shutdown [OF assms(1,2)] assms(1)
    by (cases "fw_up s") simp_all
next
  case down
  then show ?thesis using up_inv_down [OF assms(1)] by simp
qed

lemma up_inv_reachable:
  "(fstep io C)\<^sup>*\<^sup>* s t \<Longrightarrow> up_inv io C inc fin out up b B D s \<Longrightarrow> io_laws io inc fin out up \<Longrightarrow>
    up_inv io C inc fin out up b B D t"
  by (induction rule: rtranclp_induct) (auto intro: up_inv_step)


section \<open>Invariant of the receiving task\<close>

text \<open>
  \<open>q\<close> lists the records still to be opened, \<open>ending\<close> what follows them on the stream (the Close
  frame or nothing), \<open>D\<close> all that is to be delivered to the plaintext socket.
\<close>

definition down_pending :: "down_pc \<Rightarrow> direction \<Rightarrow> (bytes \<times> bytes) list \<Rightarrow> bytes list \<Rightarrow> bytes list \<Rightarrow> bool" where
  "down_pending pc d q ending bodies \<longleftrightarrow>
     (case pc of
        DownAck h \<Rightarrow> length h = 64 \<and> bodies = encode (ServerAck h) # map (record_body d \<circ> fst) q @ ending
      | DownRead \<Rightarrow> bodies = map (record_body d \<circ> fst) q @ ending
      | DownOpen ct \<Rightarrow> q \<noteq> [] \<and> fst (hd q) = ct \<and> bodies = map (record_body d \<circ> fst) (tl q) @ ending
      | DownWrite pt \<Rightarrow> bodies = map (record_body d \<circ> fst) q @ ending
      | DownShutdown \<Rightarrow> q = []
      | DownDone x \<Rightarrow> x = Ok () \<and> q = [])"

definition down_unwritten :: "down_pc \<Rightarrow> bytes" where
  "down_unwritten pc = (case pc of DownWrite pt \<Rightarrow> pt | _ \<Rightarrow> [])"

definition down_inv where
  "down_inv io C inc fin out up a ending D s \<longleftrightarrow> rl_valid C (fw_record s) \<and> ending \<in> {[], [encode Close]} \<and>
     ((\<forall>x. fw_down s \<noteq> DownDone x) \<longrightarrow> up (fw_plain_w s)) \<and>
     (\<exists>q bodies. records_in_flight C (recv_dir (fw_role s)) a (fw_record s) q \<and>
       (\<forall>(ct, pt) \<in> set q. length ct \<le> CHUNK + 16) \<and>
       down_pending (fw_down s) (recv_dir (fw_role s)) q ending bodies \<and>
       out (fw_plain_w s) @ down_unwritten (fw_down s) @ concat (map snd q) = D \<and>
       (fw_down s \<noteq> DownShutdown \<longrightarrow> (\<forall>x. fw_down s \<noteq> DownDone x) \<longrightarrow> pending io inc fin (fw_tun_r s) bodies))"

lemma down_inv_up:
  assumes "down_inv io C inc fin out up a ending D s"
  shows "down_inv io C inc fin out up a ending D (up_step io C pc s)"
proof -
  have "records_in_flight C (recv_dir (fw_role s)) a (fw_record (up_step io C pc s)) q"
    if "records_in_flight C (recv_dir (fw_role s)) a (fw_record s) q" for q
    using rl.in_flight_receiver_cong [OF that rl.same_sym [OF up_step_channel(1)]] .
  then show ?thesis
    using assms unfolding down_inv_def up_step_frame by (metis up_step_channel(2))
qed

lemma record_body_decodes:
  "length ct \<le> CHUNK + 16 \<Longrightarrow> decode (record_body d ct) = Ok (DataRecord (dir_code d) ct)"
  unfolding record_body_def
  by (rule decode_encode) (simp_all add: encode_eq CHUNK_def MAX_FRAME_def)

lemma close_decodes: "decode (encode Close) = Ok Close"
  by (rule decode_encode) (simp_all add: encode_eq MAX_FRAME_def)

lemma ack_decodes: "length h = 64 \<Longrightarrow> decode (encode (ServerAck h)) = Ok (ServerAck h)"
  by (rule decode_encode) (simp_all add: encode_eq MAX_FRAME_def)

lemma down_inv_ack:
  assumes inv: "down_inv io C inc fin out up a ending D s" and pc: "fw_down s = DownAck h"
  shows "down_inv io C inc fin out up a ending D (down_step io C (DownAck h) s)"
proof -
  let ?d = "recv_dir (fw_role s)"
  from inv pc obtain q where q: "records_in_flight C ?d a (fw_record s) q" "\<forall>(ct, pt) \<in> set q. length ct \<le> CHUNK + 16"
      "out (fw_plain_w s) @ concat (map snd q) = D" "length h = 64"
      "pending io inc fin (fw_tun_r s) (encode (ServerAck h) # map (record_body ?d \<circ> fst) q @ ending)"
    by (auto simp: down_inv_def down_pending_def down_unwritten_def)
  from source.recv_next [OF q(5)] obtain r where
    "read_frame io (fw_tun_r s) = (Ok (Some (encode (ServerAck h))), r)"
    "pending io inc fin r (map (record_body ?d \<circ> fst) q @ ending)" by blast
  then show ?thesis
    using inv pc q(1-4) by (auto simp: down_inv_def down_pending_def down_unwritten_def ack_decodes)
qed

lemma down_inv_read:
  assumes inv: "down_inv io C inc fin out up a ending D s" and pc: "fw_down s = DownRead"
  shows "down_inv io C inc fin out up a ending D (down_step io C DownRead s)"
proof -
  let ?d = "recv_dir (fw_role s)"
  from inv pc obtain q where q: "records_in_flight C ?d a (fw_record s) q" "\<forall>(ct, pt) \<in> set q. length ct \<le> CHUNK + 16"
      "out (fw_plain_w s) @ concat (map snd q) = D"
      "pending io inc fin (fw_tun_r s) (map (record_body ?d \<circ> fst) q @ ending)"
    and s: "rl_valid C (fw_record s)" "up (fw_plain_w s)" "ending \<in> {[], [encode Close]}"
    by (auto simp: down_inv_def down_pending_def down_unwritten_def)
  show ?thesis
  proof (cases q)
    case Nil
    show ?thesis
    proof (cases "ending = []")
      case True
      with q(4) Nil have "fst (read_frame io (fw_tun_r s)) = Ok None"
        using source.recv_end [of io inc fin] by simp
      then obtain r where "read_frame io (fw_tun_r s) = (Ok None, r)" by (rule fst_eqE)
      then show ?thesis
        using q(1-3) s Nil by (auto simp: down_inv_def down_pending_def down_unwritten_def)
    next
      case False
      with s(3) q(4) Nil obtain r where "read_frame io (fw_tun_r s) = (Ok (Some (encode Close)), r)"
        using source.recv_next [of io inc fin "fw_tun_r s" "encode Close" "[]"] by auto
      then show ?thesis
        using q(1-3) s Nil by (auto simp: down_inv_def down_pending_def down_unwritten_def close_decodes)
    qed
  next
    case (Cons x q')
    obtain ct pt where x: "x = (ct, pt)" by fastforce
    from q(4) Cons x obtain r where "read_frame io (fw_tun_r s) = (Ok (Some (record_body ?d ct)), r)"
        "pending io inc fin r (map (record_body ?d \<circ> fst) q' @ ending)"
      using source.recv_next [of io inc fin "fw_tun_r s" "record_body ?d ct"] by auto
    moreover have "length ct \<le> CHUNK + 16" using q(2) Cons x by simp
    ultimately show ?thesis
      using q(1-3) s Cons x
      by (auto simp: down_inv_def down_pending_def down_unwritten_def record_body_decodes
          intro!: exI [of _ "(ct, pt) # q'"])
  qed
qed

lemma down_inv_open:
  assumes inv: "down_inv io C inc fin out up a ending D s" and pc: "fw_down s = DownOpen ct"
  shows "down_inv io C inc fin out up a ending D (down_step io C (DownOpen ct) s)"
proof -
  let ?d = "recv_dir (fw_role s)"
  from inv pc obtain pt q where q: "records_in_flight C ?d a (fw_record s) ((ct, pt) # q)" "\<forall>(ct, pt) \<in> set q. length ct \<le> CHUNK + 16"
      "out (fw_plain_w s) @ pt @ concat (map snd q) = D"
      "pending io inc fin (fw_tun_r s) (map (record_body ?d \<circ> fst) q @ ending)"
    and s: "rl_valid C (fw_record s)" "up (fw_plain_w s)" "ending \<in> {[], [encode Close]}"
    by (auto simp: down_inv_def down_pending_def down_unwritten_def neq_Nil_conv)
  from rl.in_flight_recv [OF q(1)] obtain rec where
    rec: "rl_open C (V1 C) ?d ct (fw_record s) = (Ok pt, rec)" "records_in_flight C ?d a rec q" by blast
  moreover have "rl_valid C rec" using rl.valid_open [OF s(1), of ?d ct] rec(1) by simp
  ultimately show ?thesis
    using q(2-4) s(2,3) by (auto simp: down_inv_def down_pending_def down_unwritten_def)
qed

lemma down_inv_write:
  assumes inv: "down_inv io C inc fin out up a ending D s" and laws: "io_laws io inc fin out up" and pc: "fw_down s = DownWrite pt"
  shows "down_inv io C inc fin out up a ending D (down_step io C (DownWrite pt) s)"
proof -
  have "up (fw_plain_w s)" using inv pc by (simp add: down_inv_def)
  then obtain w where "io_write_all io pt (fw_plain_w s) = (Ok (), w)" "out w = out (fw_plain_w s) @ pt" "up w"
    using io_lawsD(3) [OF laws] unfolding write_ok_def by blast
  then show ?thesis
    using inv pc by (auto simp: down_inv_def down_pending_def down_unwritten_def)
qed

lemma down_inv_shutdown:
  assumes inv: "down_inv io C inc fin out up a ending D s" and laws: "io_laws io inc fin out up" and pc: "fw_down s = DownShutdown"
  shows "down_inv io C inc fin out up a ending D (down_step io C DownShutdown s)"
proof -
  have "up (fw_plain_w s)" using inv pc by (simp add: down_inv_def)
  then obtain w where "io_shutdown io (fw_plain_w s) = (Ok (), w)" "out w = out (fw_plain_w s)"
    using io_lawsD(4) [OF laws] unfolding shutdown_ok_def by blast
  then show ?thesis
    using inv pc by (auto simp: down_inv_def down_pending_def down_unwritten_def)
qed

lemma down_inv_step:
  assumes "down_inv io C inc fin out up a ending D s" "io_laws io inc fin out up" "fstep io C s t"
  shows "down_inv io C inc fin out up a ending D t"
  using assms(3)
proof (cases rule: fstep.cases)
  case down
  then show ?thesis
    using down_inv_ack [OF assms(1)] down_inv_read [OF assms(1)] down_inv_open [OF assms(1)]
      down_inv_write [OF assms(1,2)] down_inv_shutdown [OF assms(1,2)] assms(1)
    by (cases "fw_down s") simp_all
next
  case up
  then show ?thesis using down_inv_up [OF assms(1)] by simp
qed

lemma down_inv_reachable:
  "(fstep io C)\<^sup>*\<^sup>* s t \<Longrightarrow> down_inv io C inc fin out up a ending D s \<Longrightarrow> io_laws io inc fin out up \<Longrightarrow>
    down_inv io C inc fin out up a ending D t"
  by (induction rule: rtranclp_induct) (auto intro: down_inv_step)


section \<open>From one end to the other\<close>

definition ack_bodies :: "bytes option \<Rightarrow> bytes list" where
  "ack_bodies wanted = (case wanted of None \<Rightarrow> [] | Some h \<Rightarrow> [encode (ServerAck h)])"

lemma forward_start_eq:
  assumes "write_ok io out up" "up pw"
  obtains w where "up w" "out w = out pw @ early"
    "forward_start io pr pw conn wanted early =
      Ok \<lparr>fw_plain_r = pr, fw_plain_w = w, fw_tun_r = oc_reader conn, fw_tun_w = oc_writer conn,
          fw_record = oc_record conn, fw_role = oc_role conn, fw_up = UpRead,
          fw_down = (case wanted of Some expected \<Rightarrow> DownAck expected | None \<Rightarrow> DownRead)\<rparr>"
proof (cases "early = []")
  case True
  then show thesis using that [of pw] assms(2) by (simp add: forward_start_def)
next
  case False
  obtain w where "io_write_all io early pw = (Ok (), w)" "out w = out pw @ early" "up w"
    using assms unfolding write_ok_def by blast
  then show thesis using that [of w] False by (simp add: forward_start_def)
qed

text \<open>Any start puts the two tasks at their beginnings.\<close>

lemma forward_start_fields:
  assumes "forward_start io pr pw conn wanted early = Ok s"
  shows "fw_plain_r s = pr" "fw_tun_r s = oc_reader conn" "fw_tun_w s = oc_writer conn"
    "fw_record s = oc_record conn" "fw_role s = oc_role conn" "fw_up s = UpRead"
    "fw_down s = (case wanted of Some expected \<Rightarrow> DownAck expected | None \<Rightarrow> DownRead)"
  using assms by (auto simp: forward_start_def outcome_iff split: if_splits prod.splits)

lemma up_inv_start:
  assumes "forward_start io pr pw conn wanted early = Ok s"
    and "rl_valid C (oc_record conn)" "rl_same (send_dir (oc_role conn)) (oc_record conn) b"
    and "fin pr = None" "up (oc_writer conn)" "out (oc_writer conn) = concat (map encode_framed B)"
  shows "up_inv io C inc fin out up b B (inc pr) s"
  using assms(2-6)
  by (auto simp: up_inv_def forward_start_fields [OF assms(1)] up_carried_def up_unread_def intro!: exI [of _ "[]"])

lemma up_inv_done:
  assumes "up_inv io C inc fin out up b B D s" "fw_up s = UpDone x"
  obtains q where "x = Ok ()" "records_in_flight C (send_dir (fw_role s)) (fw_record s) b q"
    "\<forall>(ct, pt) \<in> set q. length ct \<le> CHUNK + 16" "concat (map snd q) = D"
    "out (fw_tun_w s) = concat (map encode_framed (B @ map (record_body (send_dir (fw_role s)) \<circ> fst) q @ [encode Close]))"
  using assms by (auto simp: up_inv_def up_carried_def up_unread_def)

lemma bodies_fit:
  assumes "\<forall>(ct, pt) \<in> set q. length ct \<le> CHUNK + 16" "ending \<in> {[], [encode Close]}" "\<forall>h. wanted = Some h \<longrightarrow> length h = 64"
  shows "\<forall>b \<in> set (ack_bodies wanted @ map (record_body d \<circ> fst) q @ ending). length b \<le> MAX_FRAME"
proof -
  have "length (record_body d ct) \<le> MAX_FRAME" if "(ct, pt) \<in> set q" for ct pt
    using assms(1) that by (auto simp: record_body_def encode_eq CHUNK_def MAX_FRAME_def)
  moreover have "length (encode Close) \<le> MAX_FRAME" "wanted = Some h \<Longrightarrow> length (encode (ServerAck h)) \<le> MAX_FRAME" for h
    using assms(3) by (simp_all add: encode_eq MAX_FRAME_def)
  ultimately show ?thesis
    using assms(2) by (auto simp: ack_bodies_def split: option.splits)
qed

lemma down_inv_start:
  assumes start: "forward_start io pr pw conn wanted early = Ok s" and laws: "io_laws io inc fin out up" and "up pw"
    and "rl_valid C (oc_record conn)" "records_in_flight C (recv_dir (oc_role conn)) a (oc_record conn) q"
    and q: "\<forall>(ct, pt) \<in> set q. length ct \<le> CHUNK + 16" "ending \<in> {[], [encode Close]}" "\<forall>h. wanted = Some h \<longrightarrow> length h = 64"
    and "inc (oc_reader conn) = concat (map encode_framed (ack_bodies wanted @ map (record_body (recv_dir (oc_role conn)) \<circ> fst) q @ ending))"
    and "fin (oc_reader conn) = None"
  shows "down_inv io C inc fin out up a ending (out pw @ early @ concat (map snd q)) s"
proof -
  obtain w where w: "up w" "out w = out pw @ early" "fw_plain_w s = w"
    using forward_start_eq [OF io_lawsD(3) [OF laws] \<open>up pw\<close>, where early = early and pr = pr and conn = conn and wanted = wanted]
      start by (metis fwd.select_convs(2) result.inject(1))
  have "pending io inc fin (oc_reader conn) (ack_bodies wanted @ map (record_body (recv_dir (oc_role conn)) \<circ> fst) q @ ending)"
    using bodies_fit [OF q, of "recv_dir (oc_role conn)"] assms(9,10) io_lawsD(1) [OF laws] unfolding pending_def by blast
  then show ?thesis
    unfolding down_inv_def forward_start_fields [OF start] w(3) using assms(4,5) w(1,2) q
    by (cases wanted)
      (auto simp: down_pending_def down_unwritten_def ack_bodies_def intro!: exI [of _ q])
qed

lemma down_inv_outcome:
  assumes "down_inv io C inc fin out up a ending D s"
  shows "\<exists>k. out (fw_plain_w s) = take k D" "fw_down s = DownDone y \<Longrightarrow> y = Ok () \<and> out (fw_plain_w s) = D"
proof -
  show "\<exists>k. out (fw_plain_w s) = take k D"
    using assms unfolding down_inv_def by (metis append_eq_conv_conj)
  show "fw_down s = DownDone y \<Longrightarrow> y = Ok () \<and> out (fw_plain_w s) = D"
    using assms by (auto simp: down_inv_def down_pending_def down_unwritten_def)
qed

text \<open>The first \<open>n\<close> records in flight bring the receiver level with some state.\<close>

lemma in_flight_take:
  "records_in_flight C d a b q \<Longrightarrow> \<exists>a'. records_in_flight C d a' b (take n q)"
proof (induction q arbitrary: b n)
  case (Cons x q)
  show ?case
  proof (cases n)
    case 0
    then show ?thesis using rl.same_refl by auto
  next
    case (Suc m)
    then show ?thesis using Cons by (cases x) auto
  qed
qed (use rl.same_refl in auto)


section \<open>Progress\<close>

definition up_measure :: "('r \<Rightarrow> bytes) \<Rightarrow> ('r, 'w, 'h) fwd \<Rightarrow> nat" where
  "up_measure inc s =
     (case fw_up s of
        UpRead \<Rightarrow> 3 * length (inc (fw_plain_r s)) + 3
      | UpSeal _ \<Rightarrow> 3 * length (inc (fw_plain_r s)) + 5
      | UpWrite _ \<Rightarrow> 3 * length (inc (fw_plain_r s)) + 4
      | UpClose \<Rightarrow> 2
      | UpShutdown \<Rightarrow> 1
      | UpDone _ \<Rightarrow> 0)"

definition down_measure :: "('r \<Rightarrow> bytes) \<Rightarrow> ('r, 'w, 'h) fwd \<Rightarrow> nat" where
  "down_measure inc s =
     (case fw_down s of
        DownAck _ \<Rightarrow> 3 * length (inc (fw_tun_r s)) + 3
      | DownRead \<Rightarrow> 3 * length (inc (fw_tun_r s)) + 3
      | DownOpen _ \<Rightarrow> 3 * length (inc (fw_tun_r s)) + 5
      | DownWrite _ \<Rightarrow> 3 * length (inc (fw_tun_r s)) + 4
      | DownShutdown \<Rightarrow> 1
      | DownDone _ \<Rightarrow> 0)"

lemma read_progress:
  assumes "read_ok io inc fin" "fin r = None" "io_read io CHUNK r = (Ok buf, r')"
  shows "if buf = [] then inc r = [] else length (inc r') < length (inc r)"
proof (cases "inc r = []")
  case True
  then have "\<exists>r'. io_read io CHUNK r = (Ok [], r')"
    using assms(1,2) unfolding read_ok_def by (metis CHUNK_def zero_less_numeral mult_pos_pos)
  with True assms(3) show ?thesis by simp
next
  case False
  then obtain k r'' where "0 < k" "k \<le> length (inc r)" "io_read io CHUNK r = (Ok (take k (inc r)), r'')"
      "inc r'' = drop k (inc r)"
    using assms(1,2) unfolding read_ok_def by (metis CHUNK_def zero_less_numeral mult_pos_pos)
  with assms(3) show ?thesis by auto
qed

lemma up_measure_decreases:
  assumes "up_inv io C inc fin out up b B D s" "io_laws io inc fin out up" "\<forall>x. fw_up s \<noteq> UpDone x"
  shows "up_measure inc (up_step io C (fw_up s) s) < up_measure inc s"
proof (cases "fw_up s")
  case UpRead
  have "fin (fw_plain_r s) = None" using assms(1) by (simp add: up_inv_def)
  then show ?thesis
    using read_progress [OF io_lawsD(2) [OF assms(2)], of "fw_plain_r s"] UpRead
    by (auto simp: up_measure_def split: prod.split result.split if_splits)
qed (use assms(3) in \<open>auto simp: up_measure_def Let_def split: prod.split result.split\<close>)

lemma frame_progress:
  assumes "pending io inc fin r (b # bs)" "read_frame io r = (x, r')"
  shows "length (inc r') < length (inc r)"
proof -
  from source.recv_next [OF assms(1)] assms(2) have "pending io inc fin r' bs" by auto
  with assms(1) show ?thesis by (simp add: pending_def encode_framed_def)
qed

lemma down_measure_le: "down_measure inc s \<le> 3 * length (inc (fw_tun_r s)) + 5"
  by (simp add: down_measure_def split: down_pc.split)

lemma down_step_reads:
  "fw_tun_r (down_step io C DownRead s) = snd (read_frame io (fw_tun_r s))"
  "fw_tun_r (down_step io C (DownAck h) s) = snd (read_frame io (fw_tun_r s))"
  by (auto split: prod.split result.split option.split)

lemma down_measure_read:
  assumes "pending io inc fin (fw_tun_r s) (b # bs)" "pc = DownRead \<or> pc = DownAck h"
  shows "down_measure inc (down_step io C pc s) < 3 * length (inc (fw_tun_r s)) + 3"
  using down_measure_le [of inc "down_step io C pc s"] assms(2)
    frame_progress [OF assms(1), of "fst (read_frame io (fw_tun_r s))" "snd (read_frame io (fw_tun_r s))"]
  by (auto simp: down_step_reads simp del: down_step.simps)

lemma down_measure_decreases:
  assumes "down_inv io C inc fin out up a ending D s" "\<forall>x. fw_down s \<noteq> DownDone x"
  shows "down_measure inc (down_step io C (fw_down s) s) < down_measure inc s"
proof (cases "fw_down s")
  case (DownAck h)
  with assms(1) obtain b bs where "pending io inc fin (fw_tun_r s) (b # bs)"
    by (auto simp: down_inv_def down_pending_def)
  from down_measure_read [OF this, of "DownAck h" h C] show ?thesis
    unfolding DownAck by (simp add: down_measure_def [of inc s] DownAck del: down_step.simps)
next
  case DownRead
  with assms(1) obtain bodies where p: "pending io inc fin (fw_tun_r s) bodies"
    by (auto simp: down_inv_def)
  show ?thesis
  proof (cases bodies)
    case Nil
    from source.recv_end [OF p [unfolded Nil]] show ?thesis
      unfolding DownRead by (auto simp: down_measure_def DownRead split: prod.split)
  next
    case (Cons b bs)
    from down_measure_read [OF p [unfolded Cons], of DownRead] show ?thesis
      unfolding DownRead by (simp add: down_measure_def [of inc s] DownRead del: down_step.simps)
  qed
qed (use assms(2) in \<open>auto simp: down_measure_def split: prod.split result.split\<close>)

lemma down_measure_up: "down_measure inc (up_step io C pc s) = down_measure inc s"
  by (simp only: down_measure_def up_step_frame)

lemma up_measure_down: "up_measure inc (down_step io C pc s) = up_measure inc s"
  by (simp only: up_measure_def down_step_frame)

lemma forward_result_None:
  "(\<forall>x. u = UpDone x \<longrightarrow> x = Ok ()) \<Longrightarrow> (\<forall>y. d = DownDone y \<longrightarrow> y = Ok ()) \<Longrightarrow>
    forward_result u d = (if (\<exists>x. u = UpDone x) \<and> (\<exists>y. d = DownDone y) then Some (Ok ()) else None)"
  by (cases u; cases d) simp_all

lemma fstep_measure:
  assumes "up_inv io C inc fin out up b B Du s" "down_inv io C inc fin out up a ending Dd s"
    and "io_laws io inc fin out up" "fstep io C s t"
  shows "up_measure inc t + down_measure inc t < up_measure inc s + down_measure inc s"
  using assms(4)
proof (cases rule: fstep.cases)
  case up
  then show ?thesis
    using up_measure_decreases [OF assms(1,3)] by (simp add: down_measure_up)
next
  case down
  then show ?thesis
    using down_measure_decreases [OF assms(2)] by (simp add: up_measure_down)
qed

lemma fstep_bound:
  "(fstep io C ^^ n) s t \<Longrightarrow> up_inv io C inc fin out up b B Du s \<Longrightarrow> down_inv io C inc fin out up a ending Dd s \<Longrightarrow>
    io_laws io inc fin out up \<Longrightarrow> n + up_measure inc t + down_measure inc t \<le> up_measure inc s + down_measure inc s"
proof (induction n arbitrary: s)
  case (Suc n)
  from Suc.prems(1) obtain r where step: "fstep io C s r" and run: "(fstep io C ^^ n) r t"
    by (rule relpowp_Suc_E2)
  show ?case
    using Suc.IH [OF run up_inv_step [OF Suc.prems(2,4) step] down_inv_step [OF Suc.prems(3,4) step] Suc.prems(4)]
      fstep_measure [OF Suc.prems(2,3,4) step] by simp
qed simp

text \<open>The up task alone can run to its end, as long as the down task has not ended.\<close>

lemma up_completes_from:
  assumes "up_inv io C inc fin out up b B D s" "io_laws io inc fin out up" "\<forall>y. fw_down s \<noteq> DownDone y"
  shows "\<exists>t. (fstep io C)\<^sup>*\<^sup>* s t \<and> fw_up t = UpDone (Ok ())"
  using assms(1,3)
proof (induction "up_measure inc s" arbitrary: s rule: less_induct)
  case less
  show ?case
  proof (cases "\<exists>x. fw_up s = UpDone x")
    case True
    with less.prems(1) show ?thesis by (auto simp: up_inv_def up_carried_def)
  next
    case False
    then have step: "fstep io C s (up_step io C (fw_up s) s)"
      using forward_result_None [of "fw_up s" "fw_down s"] less.prems(2) by (intro fstep.up) auto
    have "up_measure inc (up_step io C (fw_up s) s) < up_measure inc s"
      using up_measure_decreases [OF less.prems(1) assms(2)] False by blast
    from less.hyps [OF this up_inv_step [OF less.prems(1) assms(2) step]] less.prems(2) step show ?thesis
      unfolding up_step_frame by (meson converse_rtranclp_into_rtranclp)
  qed
qed

text \<open>With both invariants, every state has a continuation to the orderly end of both tasks.\<close>

lemma forward_completes_from:
  assumes "up_inv io C inc fin out up b B Du s" "down_inv io C inc fin out up a ending Dd s"
    and laws: "io_laws io inc fin out up"
  shows "\<exists>t. (fstep io C)\<^sup>*\<^sup>* s t \<and> fw_up t = UpDone (Ok ()) \<and> fw_down t = DownDone (Ok ())"
  using assms(1,2)
proof (induction "up_measure inc s + down_measure inc s" arbitrary: s rule: less_induct)
  case less
  have u: "fw_up s = UpDone x \<Longrightarrow> x = Ok ()" for x
    using less.prems(1) by (auto simp: up_inv_def up_carried_def)
  have d: "fw_down s = DownDone y \<Longrightarrow> y = Ok ()" for y
    using less.prems(2) by (auto simp: down_inv_def down_pending_def)
  consider "\<forall>x. fw_up s \<noteq> UpDone x" | "\<forall>y. fw_down s \<noteq> DownDone y" | x y where "fw_up s = UpDone x" "fw_down s = DownDone y"
    by blast
  then show ?case
  proof cases
    case 1
    then have step: "fstep io C s (up_step io C (fw_up s) s)"
      using forward_result_None [of "fw_up s" "fw_down s"] u d by (intro fstep.up) auto
    from less.hyps [OF fstep_measure [OF less.prems laws step] up_inv_step [OF less.prems(1) laws step] down_inv_step [OF less.prems(2) laws step]]
    show ?thesis using step by (meson converse_rtranclp_into_rtranclp)
  next
    case 2
    then have step: "fstep io C s (down_step io C (fw_down s) s)"
      using forward_result_None [of "fw_up s" "fw_down s"] u d by (intro fstep.down) auto
    from less.hyps [OF fstep_measure [OF less.prems laws step] up_inv_step [OF less.prems(1) laws step] down_inv_step [OF less.prems(2) laws step]]
    show ?thesis using step by (meson converse_rtranclp_into_rtranclp)
  next
    case 3
    with u d show ?thesis by blast
  qed
qed


section \<open>Properties\<close>

text \<open>The situation after a handshake: two connections of opposite roles whose record layers agree.\<close>

definition peers ::
    "('dk, 'ek, 'sk, 'vk, 'sg, 'h) crates \<Rightarrow> ('r, 'w, 'h) ort_conn \<Rightarrow> ('r, 'w, 'h) ort_conn \<Rightarrow> bool" where
  "peers C ca cb \<longleftrightarrow> rl_valid C (oc_record ca) \<and> rl_valid C (oc_record cb) \<and>
     rl_same (send_dir (oc_role ca)) (oc_record ca) (oc_record cb) \<and> recv_dir (oc_role cb) = send_dir (oc_role ca)"

lemma peers_sender:
  assumes "peers C ca cb" "forward_start io pra pwa ca wa ea = Ok a0" "io_laws io inc fin out up"
    and "fin pra = None" "up (oc_writer ca)" "out (oc_writer ca) = concat (map encode_framed B)"
    and "(fstep io C)\<^sup>*\<^sup>* a0 a" "fw_up a = UpDone x" and role: "fw_role a = oc_role ca"
  obtains q where "x = Ok ()" "records_in_flight C (recv_dir (oc_role cb)) (fw_record a) (oc_record cb) q"
    "\<forall>(ct, pt) \<in> set q. length ct \<le> CHUNK + 16" "concat (map snd q) = inc pra"
    "out (fw_tun_w a) = concat (map encode_framed (B @ map (record_body (recv_dir (oc_role cb)) \<circ> fst) q @ [encode Close]))"
proof -
  have "up_inv io C inc fin out up (oc_record cb) B (inc pra) a0"
    using up_inv_start [OF assms(2), of C "oc_record cb" fin up out B inc] assms(1,4-6) by (simp add: peers_def)
  from up_inv_done [OF up_inv_reachable [OF assms(7) this assms(3)] assms(8)] show thesis
    using that assms(1) unfolding role peers_def by metis
qed

lemma reachable_role: "(fstep io C)\<^sup>*\<^sup>* s t \<Longrightarrow> fw_role t = fw_role s"
  by (induction rule: rtranclp_induct) (auto simp: fstep_frame)

text \<open>What an end has written to its plaintext socket, when \<open>D\<close> is all that it should.\<close>

definition delivered :: "('w \<Rightarrow> bytes) \<Rightarrow> bytes \<Rightarrow> ('r, 'w, 'h) fwd \<Rightarrow> bool" where
  "delivered out D s \<longleftrightarrow> (\<exists>k. out (fw_plain_w s) = take k D) \<and>
     (\<forall>y. fw_down s = DownDone y \<longrightarrow> y = Ok () \<and> out (fw_plain_w s) = D)"

text \<open>The two halves of one direction: what a finished up task has sent, and who receives it.\<close>

lemma up_task_done:
  assumes "forward_start io pr pw conn wanted early = Ok a0" "io_laws io inc fin out up"
    and "rl_valid C (oc_record conn)" "fin pr = None" "up (oc_writer conn)"
    and "out (oc_writer conn) = concat (map encode_framed B)"
    and "(fstep io C)\<^sup>*\<^sup>* a0 a" "fw_up a = UpDone x"
  obtains q where "x = Ok ()" "records_in_flight C (send_dir (oc_role conn)) (fw_record a) (oc_record conn) q"
    "\<forall>(ct, pt) \<in> set q. length ct \<le> CHUNK + 16" "concat (map snd q) = inc pr"
    "out (fw_tun_w a) = concat (map encode_framed (B @ map (record_body (send_dir (oc_role conn)) \<circ> fst) q @ [encode Close]))"
proof -
  have "up_inv io C inc fin out up (oc_record conn) B (inc pr) a0"
    using up_inv_start [OF assms(1,3) rl.same_refl, of fin up out B inc] assms(4-6) by blast
  moreover have "fw_role a = oc_role conn"
    using reachable_role [OF assms(7)] forward_start_fields(5) [OF assms(1)] by simp
  ultimately show thesis
    using up_inv_done [OF up_inv_reachable [OF assms(7) _ assms(2)] assms(8)] that by metis
qed

lemma down_task_delivers:
  assumes "forward_start io pr pw conn wanted early = Ok b0" "io_laws io inc fin out up" "up pw"
    and "rl_valid C (oc_record conn)" "records_in_flight C (recv_dir (oc_role conn)) peer (oc_record conn) q"
    and "\<forall>(ct, pt) \<in> set q. length ct \<le> CHUNK + 16" "\<forall>h. wanted = Some h \<longrightarrow> length h = 64"
    and "inc (oc_reader conn) =
      concat (map encode_framed (ack_bodies wanted @ map (record_body (recv_dir (oc_role conn)) \<circ> fst) q @ [encode Close]))"
    and "fin (oc_reader conn) = None" "(fstep io C)\<^sup>*\<^sup>* b0 b"
  shows "delivered out (out pw @ early @ concat (map snd q)) b"
proof -
  have "down_inv io C inc fin out up peer [encode Close] (out pw @ early @ concat (map snd q)) b0"
    using down_inv_start [OF assms(1-6) _ assms(7-9)] by simp
  from down_inv_outcome [OF down_inv_reachable [OF assms(10) this assms(2)]] show ?thesis
    by (simp add: delivered_def)
qed

text \<open>
  C9. Forwarding is transparent. Take two ends of a session whose record layers agree, with
  sockets that do not fail. When the up task of one end has finished, in any interleaving with
  its down task, it has finished without error and its frames are a function of what it read
  from its plaintext socket. If the other end receives exactly these frames (after the
  acknowledgement it may be waiting for), then at every moment of every run it has written to
  its plaintext socket its early data and a prefix of the bytes the first end has read, and
  when its down task ends it ends without error and has written all of them.
\<close>

theorem forwarding_transparent:
  assumes "peers C ca cb" "io_laws io inc fin out up"
    and "forward_start io pra pwa ca wa ea = Ok a0" "forward_start io prb pwb cb wb eb = Ok b0"
    and "fin pra = None" "up (oc_writer ca)" "out (oc_writer ca) = concat (map encode_framed B)" "up pwb"
    and "\<forall>h. wb = Some h \<longrightarrow> length h = 64"
    and "(fstep io C)\<^sup>*\<^sup>* a0 a" "fw_up a = UpDone x"
  shows "x = Ok () \<and> (\<exists>bodies. out (fw_tun_w a) = concat (map encode_framed (B @ bodies)) \<and>
    (\<forall>b. inc (oc_reader cb) = concat (map encode_framed (ack_bodies wb @ bodies)) \<longrightarrow> fin (oc_reader cb) = None \<longrightarrow>
      (fstep io C)\<^sup>*\<^sup>* b0 b \<longrightarrow>
      delivered out (out pwb @ eb @ inc pra) b))"
proof -
  have role: "fw_role a = oc_role ca"
    using reachable_role [OF assms(10)] forward_start_fields(5) [OF assms(3)] by simp
  obtain q where q: "x = Ok ()" "records_in_flight C (recv_dir (oc_role cb)) (fw_record a) (oc_record cb) q"
    "\<forall>(ct, pt) \<in> set q. length ct \<le> CHUNK + 16" "concat (map snd q) = inc pra"
    "out (fw_tun_w a) = concat (map encode_framed (B @ map (record_body (recv_dir (oc_role cb)) \<circ> fst) q @ [encode Close]))"
    using peers_sender [OF assms(1,3,2,5,6,7,10,11) role] .
  let ?bodies = "map (record_body (recv_dir (oc_role cb)) \<circ> fst) q @ [encode Close]"
  have "delivered out (out pwb @ eb @ inc pra) b"
    if "inc (oc_reader cb) = concat (map encode_framed (ack_bodies wb @ ?bodies))" "fin (oc_reader cb) = None"
      "(fstep io C)\<^sup>*\<^sup>* b0 b" for b
    using down_task_delivers [OF assms(4,2,8) _ q(2,3) assms(9) that] assms(1) q(4) by (simp add: peers_def)
  then show ?thesis
    using q(1,5) by (intro conjI exI [of _ ?bodies]) blast+
qed

text \<open>Sample connections for the witnesses: the peer closes at once.\<close>

definition sample_conn :: "role \<Rightarrow> bytes list \<Rightarrow> (bytes \<times> io_error option, bytes \<times> bool, bytes option \<times> bytes) ort_conn" where
  "sample_conn r bodies = \<lparr>oc_reader = (concat (map encode_framed bodies), None), oc_writer = ([], True),
     oc_record = sample_layer, oc_role = r\<rparr>"

lemma sample_peers: "peers sample_crates (sample_conn Client bs) (sample_conn Server bs')"
  by (simp add: peers_def sample_conn_def sample_layer_valid rl.same_refl recv_dir_def)

lemma sample_laws: "io_laws sample_io fst snd fst snd"
  by (simp add: io_laws_def sample_io_ok sample_io_read_ok)

lemma sample_start:
  obtains s where "forward_start sample_io (D, None) ([], True) (sample_conn r bs) None [] = Ok s"
  using forward_start_eq [OF sample_io_ok(2), of "([], True)"] by (metis snd_conv)

lemma sample_run:
  assumes start: "forward_start sample_io (D, None) ([], True) (sample_conn r [encode Close]) None [] = Ok s"
  obtains t where "(fstep sample_io sample_crates)\<^sup>*\<^sup>* s t" "fw_up t = UpDone (Ok ())" "fw_down t = DownDone (Ok ())"
proof -
  have up: "up_inv sample_io sample_crates fst snd fst snd sample_layer [] (fst (D, None :: io_error option)) s"
    by (rule up_inv_start [OF start]) (simp_all add: sample_conn_def sample_layer_valid rl.same_refl)
  have "down_inv sample_io sample_crates fst snd fst snd sample_layer [encode Close]
      (fst ([], True) @ [] @ concat (map snd ([] :: (bytes \<times> bytes) list))) s"
    by (rule down_inv_start [OF start sample_laws])
      (simp_all add: sample_conn_def sample_layer_valid rl.same_refl ack_bodies_def)
  from forward_completes_from [OF up this sample_laws] show thesis using that by blast
qed

theorem forwarding_transparent_witness:
  "\<exists>a0 a b0. forward_start sample_io ([1, 2], None) ([], True) (sample_conn Client [encode Close]) None [] = Ok a0 \<and>
    forward_start sample_io ([], None) ([], True) (sample_conn Server []) None [9] = Ok b0 \<and>
    (fstep sample_io sample_crates)\<^sup>*\<^sup>* a0 a \<and> fw_up a = UpDone (Ok ()) \<and>
    (\<exists>bodies. fst (fw_tun_w a) = concat (map encode_framed bodies) \<and>
     (\<forall>b0' b. forward_start sample_io ([], None) ([], True) (sample_conn Server bodies) None [9] = Ok b0' \<longrightarrow>
       (fstep sample_io sample_crates)\<^sup>*\<^sup>* b0' b \<longrightarrow> fw_down b = DownDone (Ok ()) \<longrightarrow> fst (fw_plain_w b) = [9, 1, 2]))"
proof -
  let ?ca = "sample_conn Client [encode Close]"
  obtain a0 where a0: "forward_start sample_io ([1, 2], None) ([], True) ?ca None [] = Ok a0"
    by (rule sample_start)
  obtain a where a: "(fstep sample_io sample_crates)\<^sup>*\<^sup>* a0 a" "fw_up a = UpDone (Ok ())"
    using sample_run [OF a0] by metis
  have b0: "\<exists>b0. forward_start sample_io ([], None) ([], True) (sample_conn Server bs) None [9] = Ok b0" for bs
    using forward_start_eq [OF sample_io_ok(2), of "([], True)" "[9]"] by (metis snd_conv)
  have w: "snd ([1, 2] :: bytes, None :: io_error option) = None" "snd (oc_writer ?ca)"
      "fst (oc_writer ?ca) = concat (map encode_framed [])" "snd ([] :: bytes, True)"
      "\<forall>h. (None :: bytes option) = Some h \<longrightarrow> length h = 64"
    by (simp_all add: sample_conn_def)
  note transparent = forwarding_transparent [OF sample_peers sample_laws a0 _ w a]
  obtain b1 where b1: "forward_start sample_io ([], None) ([], True) (sample_conn Server []) None [9] = Ok b1"
    using b0 by blast
  from transparent [OF b1] obtain bodies where bodies: "fst (fw_tun_w a) = concat (map encode_framed bodies)"
    by auto
  have "fst (fw_plain_w b) = [9, 1, 2]"
    if s: "forward_start sample_io ([], None) ([], True) (sample_conn Server bodies) None [9] = Ok b0'"
      and r: "(fstep sample_io sample_crates)\<^sup>*\<^sup>* b0' b" "fw_down b = DownDone (Ok ())" for b0' b
  proof -
    from transparent [OF s] obtain bodies' where "fst (fw_tun_w a) = concat (map encode_framed bodies')"
      "\<And>b. fst (oc_reader (sample_conn Server bodies)) = concat (map encode_framed bodies') \<Longrightarrow>
        (fstep sample_io sample_crates)\<^sup>*\<^sup>* b0' b \<Longrightarrow> fw_down b = DownDone (Ok ()) \<Longrightarrow> fst (fw_plain_w b) = [9, 1, 2]"
      by (auto simp: ack_bodies_def sample_conn_def delivered_def)
    then show ?thesis using r bodies by (simp add: sample_conn_def)
  qed
  with a0 a b1 bodies show ?thesis by blast
qed

text \<open>
  C36. A stream that is cut off between two frames. Under the same conditions, if the other end
  receives only the first \<open>n\<close> of the frames and then the end of the stream, without the Close
  frame, it still writes nothing but a prefix of the bytes; and its down task does not report
  the missing rest: it ends without error, as for a complete stream.
\<close>

theorem forwarding_truncated:
  assumes "peers C ca cb" "io_laws io inc fin out up"
    and "forward_start io pra pwa ca wa ea = Ok a0" "forward_start io prb pwb cb wb eb = Ok b0"
    and "fin pra = None" "up (oc_writer ca)" "out (oc_writer ca) = concat (map encode_framed B)" "up pwb"
    and "\<forall>h. wb = Some h \<longrightarrow> length h = 64"
    and "(fstep io C)\<^sup>*\<^sup>* a0 a" "fw_up a = UpDone x"
  shows "\<exists>bodies. out (fw_tun_w a) = concat (map encode_framed (B @ bodies)) \<and>
    (\<forall>n b. n < length bodies \<longrightarrow>
      inc (oc_reader cb) = concat (map encode_framed (ack_bodies wb @ take n bodies)) \<longrightarrow> fin (oc_reader cb) = None \<longrightarrow>
      (fstep io C)\<^sup>*\<^sup>* b0 b \<longrightarrow>
      (\<exists>k. out (fw_plain_w b) = take k (out pwb @ eb @ inc pra)) \<and>
      (\<forall>y. fw_down b = DownDone y \<longrightarrow> y = Ok ()))"
proof -
  let ?d = "recv_dir (oc_role cb)"
  have role: "fw_role a = oc_role ca"
    using reachable_role [OF assms(10)] forward_start_fields(5) [OF assms(3)] by simp
  obtain q where q: "records_in_flight C ?d (fw_record a) (oc_record cb) q"
    "\<forall>(ct, pt) \<in> set q. length ct \<le> CHUNK + 16" "concat (map snd q) = inc pra"
    "out (fw_tun_w a) = concat (map encode_framed (B @ map (record_body ?d \<circ> fst) q @ [encode Close]))"
    using peers_sender [OF assms(1,3,2,5,6,7,10,11) role] .
  let ?bodies = "map (record_body ?d \<circ> fst) q @ [encode Close]"
  have "(\<exists>k. out (fw_plain_w b) = take k (out pwb @ eb @ inc pra)) \<and> (\<forall>y. fw_down b = DownDone y \<longrightarrow> y = Ok ())"
    if net: "n < length ?bodies" "inc (oc_reader cb) = concat (map encode_framed (ack_bodies wb @ take n ?bodies))"
      "fin (oc_reader cb) = None" "(fstep io C)\<^sup>*\<^sup>* b0 b" for n b
  proof -
    obtain a' where a': "records_in_flight C ?d a' (oc_record cb) (take n q)"
      using in_flight_take [OF q(1)] by blast
    have fit: "\<forall>(ct, pt) \<in> set (take n q). length ct \<le> CHUNK + 16"
      using q(2) by (auto dest: in_set_takeD)
    have "inc (oc_reader cb) = concat (map encode_framed (ack_bodies wb @ map (record_body ?d \<circ> fst) (take n q) @ []))"
      using net(1,2) by (simp add: take_map)
    from down_inv_reachable [OF net(4) down_inv_start [OF assms(4,2,8) _ a' fit _ assms(9) this net(3)] assms(2)]
    have inv: "down_inv io C inc fin out up a' [] (out pwb @ eb @ concat (map snd (take n q))) b"
      using assms(1) by (simp add: peers_def)
    have "out pwb @ eb @ inc pra = (out pwb @ eb @ concat (map snd (take n q))) @ concat (map snd (drop n q))"
      using q(3) by (metis append.assoc append_take_drop_id concat_append map_append)
    then show ?thesis
      using down_inv_outcome [OF inv] by (metis take_append_prefix)
  qed
  then show ?thesis using q(4) by (intro exI [of _ ?bodies]) blast
qed

text \<open>A healthy start: what the two tasks of one end rely on.\<close>

definition healthy_start where
  "healthy_start io C inc fin out up pr pw conn wanted early s \<longleftrightarrow>
     forward_start io pr pw conn wanted early = Ok s \<and> rl_valid C (oc_record conn) \<and>
     fin pr = None \<and> up (oc_writer conn) \<and> (\<exists>B. out (oc_writer conn) = concat (map encode_framed B)) \<and>
     up pw \<and> (\<forall>h. wanted = Some h \<longrightarrow> length h = 64) \<and> fin (oc_reader conn) = None \<and>
     (\<exists>peer q ending. records_in_flight C (recv_dir (oc_role conn)) peer (oc_record conn) q \<and>
       (\<forall>(ct, pt) \<in> set q. length ct \<le> CHUNK + 16) \<and> ending \<in> {[], [encode Close]} \<and>
       inc (oc_reader conn) = concat (map encode_framed
         (ack_bodies wanted @ map (record_body (recv_dir (oc_role conn)) \<circ> fst) q @ ending)))"

lemma healthy_invs:
  assumes "io_laws io inc fin out up" "healthy_start io C inc fin out up pr pw conn wanted early s"
  obtains b B Du a ending Dd where "up_inv io C inc fin out up b B Du s" "down_inv io C inc fin out up a ending Dd s"
proof -
  from assms(2) obtain B peer q ending where h: "forward_start io pr pw conn wanted early = Ok s" "rl_valid C (oc_record conn)"
      "fin pr = None" "up (oc_writer conn)" "out (oc_writer conn) = concat (map encode_framed B)" "up pw"
      "\<forall>h. wanted = Some h \<longrightarrow> length h = 64" "fin (oc_reader conn) = None"
      "records_in_flight C (recv_dir (oc_role conn)) peer (oc_record conn) q"
      "\<forall>(ct, pt) \<in> set q. length ct \<le> CHUNK + 16" "ending \<in> {[], [encode Close]}"
      "inc (oc_reader conn) = concat (map encode_framed
         (ack_bodies wanted @ map (record_body (recv_dir (oc_role conn)) \<circ> fst) q @ ending))"
    unfolding healthy_start_def by blast
  have "up_inv io C inc fin out up (oc_record conn) B (inc pr) s"
    using up_inv_start [OF h(1,2) rl.same_refl, of fin up out B inc] h(3-5) by blast
  moreover have "down_inv io C inc fin out up peer ending (out pw @ early @ concat (map snd q)) s"
    using down_inv_start [OF h(1) assms(1) h(6,2,9,10,11,7,12,8)] .
  ultimately show thesis using that by blast
qed

text \<open>
  C25. Forwarding comes to its end. Let an end have a plaintext socket that delivers finitely many
  bytes and closes, and let the tunnel deliver (after the expected acknowledgement) records that
  it can open, and then Close or the end of the stream. Then no run gets stuck: from every state
  that any interleaving of the two tasks can reach, the forwarder can run on until
  \<open>try_join!\<close> returns without error.
\<close>

theorem forwarding_completes:
  assumes "io_laws io inc fin out up" "healthy_start io C inc fin out up pr pw conn wanted early s0"
    and "(fstep io C)\<^sup>*\<^sup>* s0 s"
  shows "\<exists>t. (fstep io C)\<^sup>*\<^sup>* s t \<and> forward_result (fw_up t) (fw_down t) = Some (Ok ())"
proof -
  obtain b B Du a ending Dd where "up_inv io C inc fin out up b B Du s0" "down_inv io C inc fin out up a ending Dd s0"
    using healthy_invs [OF assms(1,2)] .
  then have "up_inv io C inc fin out up b B Du s" "down_inv io C inc fin out up a ending Dd s"
    using up_inv_reachable [OF assms(3) _ assms(1)] down_inv_reachable [OF assms(3) _ assms(1)] by blast+
  from forward_completes_from [OF this assms(1)] show ?thesis by fastforce
qed

lemma sample_healthy:
  assumes "forward_start sample_io (D, None) ([], True) (sample_conn r [encode Close]) None [] = Ok s"
  shows "healthy_start sample_io sample_crates fst snd fst snd (D, None) ([], True) (sample_conn r [encode Close]) None [] s"
proof -
  let ?c = "sample_conn r [encode Close]"
  have "\<exists>B. fst (oc_writer ?c) = concat (map encode_framed B)"
    by (rule exI [of _ "[]"]) (simp add: sample_conn_def)
  moreover have "\<exists>peer q ending. records_in_flight sample_crates (recv_dir (oc_role ?c)) peer (oc_record ?c) q \<and>
      (\<forall>(ct, pt) \<in> set q. length ct \<le> CHUNK + 16) \<and> ending \<in> {[], [encode Close]} \<and>
      fst (oc_reader ?c) = concat (map encode_framed (ack_bodies None @ map (record_body (recv_dir (oc_role ?c)) \<circ> fst) q @ ending))"
    by (intro exI [of _ sample_layer] exI [of _ "[]"] exI [of _ "[encode Close]"])
      (simp add: sample_conn_def rl.same_refl ack_bodies_def)
  ultimately show ?thesis
    unfolding healthy_start_def using assms sample_layer_valid by (simp add: sample_conn_def)
qed

theorem forwarding_completes_witness:
  "\<exists>s0 t. forward_start sample_io ([1, 2], None) ([], True) (sample_conn Client [encode Close]) None [] = Ok s0 \<and>
    (fstep sample_io sample_crates)\<^sup>*\<^sup>* s0 t \<and> forward_result (fw_up t) (fw_down t) = Some (Ok ())"
proof -
  let ?c = "sample_conn Client [encode Close]"
  obtain s0 where s0: "forward_start sample_io ([1, 2], None) ([], True) ?c None [] = Ok s0"
    by (rule sample_start)
  from forwarding_completes [OF sample_laws sample_healthy [OF s0] rtranclp.rtrancl_refl] s0 show ?thesis by blast
qed

text \<open>
  C26. Forwarding terminates. From a healthy start every run of the two tasks, in any
  interleaving, is finite: it has at most three steps for each byte that the two sockets
  deliver, and six more.
\<close>

theorem forwarding_terminates:
  assumes "io_laws io inc fin out up" "healthy_start io C inc fin out up pr pw conn wanted early s0"
    and "(fstep io C ^^ n) s0 s"
  shows "n \<le> 3 * length (inc pr) + 3 * length (inc (oc_reader conn)) + 6"
proof -
  obtain b B Du a ending Dd where inv: "up_inv io C inc fin out up b B Du s0" "down_inv io C inc fin out up a ending Dd s0"
    using healthy_invs [OF assms(1,2)] .
  have "forward_start io pr pw conn wanted early = Ok s0" using assms(2) by (simp add: healthy_start_def)
  then have "up_measure inc s0 = 3 * length (inc pr) + 3" "down_measure inc s0 = 3 * length (inc (oc_reader conn)) + 3"
    by (simp_all add: up_measure_def down_measure_def forward_start_fields split: option.split)
  then show ?thesis using fstep_bound [OF assms(3) inv assms(1)] by simp
qed

theorem forwarding_terminates_witness:
  "\<exists>s0. forward_start sample_io ([1, 2], None) ([], True) (sample_conn Client [encode Close]) None [] = Ok s0 \<and>
    (\<forall>n s. (fstep sample_io sample_crates ^^ n) s0 s \<longrightarrow> n \<le> 27)"
proof -
  obtain s0 where s0: "forward_start sample_io ([1, 2], None) ([], True) (sample_conn Client [encode Close]) None [] = Ok s0"
    by (rule sample_start)
  have "n \<le> 27" if "(fstep sample_io sample_crates ^^ n) s0 s" for n s
    using forwarding_terminates [OF sample_laws sample_healthy [OF s0] that]
    by (simp add: sample_conn_def encode_framed_def encode_eq)
  with s0 show ?thesis by blast
qed

theorem forwarding_truncated_witness:
  "\<exists>a0 a b0. forward_start sample_io ([1, 2], None) ([], True) (sample_conn Client [encode Close]) None [] = Ok a0 \<and>
    (fstep sample_io sample_crates)\<^sup>*\<^sup>* a0 a \<and> fw_up a = UpDone (Ok ()) \<and>
    forward_start sample_io ([], None) ([], True) (sample_conn Server []) None [9] = Ok b0 \<and>
    (\<forall>b y. (fstep sample_io sample_crates)\<^sup>*\<^sup>* b0 b \<longrightarrow> fw_down b = DownDone y \<longrightarrow> y = Ok ())"
proof -
  let ?ca = "sample_conn Client [encode Close]"
  obtain a0 where a0: "forward_start sample_io ([1, 2], None) ([], True) ?ca None [] = Ok a0"
    by (rule sample_start)
  obtain a where a: "(fstep sample_io sample_crates)\<^sup>*\<^sup>* a0 a" "fw_up a = UpDone (Ok ())"
    using sample_run [OF a0] by metis
  obtain b0 where b0: "forward_start sample_io ([], None) ([], True) (sample_conn Server []) None [9] = Ok b0"
    using forward_start_eq [OF sample_io_ok(2), of "([], True)" "[9]"] by (metis snd_conv)
  have w: "snd ([1, 2] :: bytes, None :: io_error option) = None" "snd (oc_writer ?ca)"
      "fst (oc_writer ?ca) = concat (map encode_framed [])" "snd ([] :: bytes, True)"
      "\<forall>h. (None :: bytes option) = Some h \<longrightarrow> length h = 64"
    by (simp_all add: sample_conn_def)
  from forwarding_truncated [OF sample_peers sample_laws a0 b0 w a] obtain bodies where
      out: "fst (fw_tun_w a) = concat (map encode_framed bodies)"
    and cut: "\<And>b y. 0 < length bodies \<Longrightarrow> (fstep sample_io sample_crates)\<^sup>*\<^sup>* b0 b \<Longrightarrow> fw_down b = DownDone y \<Longrightarrow> y = Ok ()"
    by (force simp: ack_bodies_def sample_conn_def)
  have "up_inv sample_io sample_crates fst snd fst snd sample_layer [] (fst ([1, 2], None :: io_error option)) a0"
    by (rule up_inv_start [OF a0]) (simp_all add: sample_conn_def sample_layer_valid rl.same_refl)
  from up_inv_done [OF up_inv_reachable [OF a(1) this sample_laws] a(2)] obtain q :: "(bytes \<times> bytes) list" where
    "fst (fw_tun_w a) = concat (map encode_framed ([] @ map (record_body (send_dir (fw_role a)) \<circ> fst) q @ [encode Close]))"
    by metis
  moreover have "length (encode_framed (encode Close)) = 5"
    by (simp add: encode_framed_def encode_eq)
  ultimately have "length (fst (fw_tun_w a)) \<noteq> 0" by simp
  then have "0 < length bodies" unfolding out by auto
  with a0 a b0 cut show ?thesis by blast
qed

end
