(* ===== verification/Run.thy ===== *)
theory Run
  imports Forward
begin

text \<open>
  The accept loops of \<open>ort-net/src/run.rs\<close>: the server's, whose connections share one strike
  cache, and the client's, whose connections share the pinned server key. The connection tasks
  run concurrently: each loop is a step relation whose steps are the critical sections of the
  tasks, in any order. What a task does with its own sockets is \<open>client_open\<close>,
  \<open>server_accept\<close> and the forwarder.
\<close>

section \<open>Addresses\<close>

datatype ip_addr = V4 bytes | V6 bytes

text \<open>\<open>Ipv4Addr::to_ipv6_mapped\<close> and \<open>octets\<close> are the standard library's.\<close>

definition to_ipv6_mapped :: "bytes \<Rightarrow> bytes" where
  "to_ipv6_mapped v4 = replicate 10 0 @ [0xFF, 0xFF] @ v4"

fun ip_to_bytes :: "ip_addr \<Rightarrow> bytes" where
  "ip_to_bytes (V4 v4) = to_ipv6_mapped v4"
| "ip_to_bytes (V6 v6) = v6"

fun ip_ok :: "ip_addr \<Rightarrow> bool" where
  "ip_ok (V4 v4) \<longleftrightarrow> length v4 = 4"
| "ip_ok (V6 v6) \<longleftrightarrow> length v6 = 16"


section \<open>Reading a frame\<close>

text \<open>Reading a frame: the body, or the failures of \<open>read_frame\<close> and of decoding.\<close>

definition read_decoded :: "('r, 'w) tokio_io \<Rightarrow> 'r \<Rightarrow> 'w \<Rightarrow> (frame \<times> 'r) option" where
  "read_decoded io r w =
     (case next_body io \<lparr>cs_reader = r, cs_writer = w, cs_shared = ()\<rparr> of
        (Ok body, s) \<Rightarrow> (case decode body of Ok f \<Rightarrow> Some (f, cs_reader s) | _ \<Rightarrow> None)
      | _ \<Rightarrow> None)"

lemma read_decoded_next:
  assumes "read_decoded io r w = Some (f, r')"
  shows "\<exists>body. next_body io \<lparr>cs_reader = r, cs_writer = w, cs_shared = x\<rparr> =
      (Ok body, \<lparr>cs_reader = r', cs_writer = w, cs_shared = x\<rparr>) \<and> decode body = Ok f"
  using assms
  by (auto simp: read_decoded_def next_body_def on_reader_def sbind_def split: prod.splits result.splits option.splits)


section \<open>The client's loop\<close>

text \<open>
  The pin and, for every task that is between reading the pin and finishing its handshake, the
  value it has read; and the keys of the connections that were established.
\<close>

record client_loop =
  cl_pin :: "bytes option"
  cl_opening :: "bytes option list"
  cl_established :: "bytes list"

definition run_client_init :: client_loop where
  "run_client_init = \<lparr>cl_pin = None, cl_opening = [], cl_established = []\<rparr>"

text \<open>The source address of the connection to the server; all zero when the socket has none.\<close>

definition local_src_ip :: "ip_addr option \<Rightarrow> bytes" where
  "local_src_ip local_addr = (case local_addr of Some a \<Rightarrow> ip_to_bytes a | None \<Rightarrow> replicate 16 0)"

definition remember_pin :: "bytes \<Rightarrow> bytes option \<Rightarrow> bytes option" where
  "remember_pin server_pk p = (if p = None then Some server_pk else p)"

text \<open>
  A connection task, once the connection to the server stands and the pin has been read: the
  handshake without early data, and the start of the forwarder; \<open>None\<close> when the handshake fails.
\<close>

definition client_task ::
    "('r, 'w) tokio_io \<Rightarrow> ('dk, 'ek, 'sk, 'vk, 'sg, 'h) crates \<Rightarrow> ('c, 'k) x509 \<Rightarrow> 'sk client_config \<Rightarrow>
      server_verifier \<Rightarrow> bool \<Rightarrow> ip_addr option \<Rightarrow> bytes option \<Rightarrow> u64 \<Rightarrow> 'r \<Rightarrow> 'w \<Rightarrow> ('r, 'w, os_rng) conn_state \<Rightarrow>
      (bytes \<times> (('r, 'w, 'h) fwd, ort_error) result) option \<times> ('r, 'w, os_rng) conn_state" where
  "client_task io C X ccfg verifier force_1rtt local_addr cached now app_r app_w ortd =
     (case client_open io C X ccfg (local_src_ip local_addr) cached force_1rtt verifier now [] ortd of
        (Ok outcome, ortd') \<Rightarrow>
          (Some (co_server_pk outcome,
             forward_start io app_r app_w (co_conn outcome) (co_expect_ack outcome) []), ortd')
      | (_, ortd') \<Rightarrow> (None, ortd'))"

inductive client_step ::
    "('r, 'w) tokio_io \<Rightarrow> ('dk, 'ek, 'sk, 'vk, 'sg, 'h) crates \<Rightarrow> ('c, 'k) x509 \<Rightarrow> 'sk client_config \<Rightarrow>
      server_verifier \<Rightarrow> bool \<Rightarrow> client_loop \<Rightarrow> client_loop \<Rightarrow> bool"
  for io C X ccfg verifier force_1rtt where
  read_pin: "client_step io C X ccfg verifier force_1rtt st (st\<lparr>cl_opening := cl_pin st # cl_opening st\<rparr>)"
| opened: "cached \<in> set (cl_opening st) \<Longrightarrow>
    client_task io C X ccfg verifier force_1rtt addr cached now app_r app_w ortd = (Some (server_pk, fwd), ortd') \<Longrightarrow>
    client_step io C X ccfg verifier force_1rtt st
      (st\<lparr>cl_opening := remove1 cached (cl_opening st), cl_pin := remember_pin server_pk (cl_pin st),
          cl_established := server_pk # cl_established st\<rparr>)"
| failed: "cached \<in> set (cl_opening st) \<Longrightarrow>
    client_task io C X ccfg verifier force_1rtt addr cached now app_r app_w ortd = (None, ortd') \<Longrightarrow>
    client_step io C X ccfg verifier force_1rtt st (st\<lparr>cl_opening := remove1 cached (cl_opening st)\<rparr>)"


section \<open>The server's loop\<close>

definition run_server_init :: "'dk server_config \<Rightarrow> strike_cache" where
  "run_server_init scfg = sc_new (sv_window_ms scfg)"

text \<open>
  The critical sections on the strike cache: a first frame, or the second frame of a 1-RTT
  handshake, from some peer at some reading of the clock.
\<close>

datatype strike_use = FirstFrame frame bytes u64 | SecondFrame frame bytes u64

fun use_strike ::
    "('dk, 'ek, 'sk, 'vk, 'sg, 'h) crates \<Rightarrow> 'dk server_config \<Rightarrow> strike_use \<Rightarrow> strike_cache \<Rightarrow>
      'h server_established option \<times> strike_cache" where
  "use_strike C scfg (FirstFrame f peer now) strike =
     (case server_on_first C (V1 C) scfg f peer now strike of
        (Ok (ZeroRtt _ se), strike') \<Rightarrow> (Some se, strike')
      | (_, strike') \<Rightarrow> (None, strike'))"
| "use_strike C scfg (SecondFrame f peer now) strike =
     (case server_on_client_data C (V1 C) scfg f peer now strike of
        (Ok se, strike') \<Rightarrow> (Some se, strike')
      | (_, strike') \<Rightarrow> (None, strike'))"

fun use_clock :: "strike_use \<Rightarrow> u64" where
  "use_clock (FirstFrame _ _ now) = now"
| "use_clock (SecondFrame _ _ now) = now"

fun serve_uses ::
    "('dk, 'ek, 'sk, 'vk, 'sg, 'h) crates \<Rightarrow> 'dk server_config \<Rightarrow> strike_use list \<Rightarrow> strike_cache \<Rightarrow> strike_cache" where
  "serve_uses C scfg [] strike = strike"
| "serve_uses C scfg (u # us) strike = serve_uses C scfg us (snd (use_strike C scfg u strike))"


text \<open>
  A connection task: the handshake, the connection to the target, and the start of the
  forwarder with the early data; \<open>None\<close> when one of the first two fails.
\<close>

definition server_task ::
    "('r, 'w) tokio_io \<Rightarrow> ('dk, 'ek, 'sk, 'vk, 'sg, 'h) crates \<Rightarrow> 'dk server_config \<Rightarrow> ip_addr \<Rightarrow> u64 \<Rightarrow>
      (strike_cache \<Rightarrow> strike_cache) \<Rightarrow> u64 \<Rightarrow> ('r \<times> 'w, io_error) result \<Rightarrow> ('r, 'w, strike_cache) conn_state \<Rightarrow>
      (('r, 'w, 'h) fwd, ort_error) result option \<times> ('r, 'w, strike_cache) conn_state" where
  "server_task io C scfg peer now1 others now2 target sock =
     (case server_accept io C (ip_to_bytes peer) scfg now1 others now2 sock of
        (Ok out, sock') \<Rightarrow>
          (case target of
             Ok (tr, tw) \<Rightarrow> Some (forward_start io tr tw (so_conn out) None (so_early_data out))
           | _ \<Rightarrow> None, sock')
      | (_, sock') \<Rightarrow> (None, sock'))"


section \<open>Invariants of the loops\<close>

definition client_inv :: "('c, 'k) x509 \<Rightarrow> server_verifier \<Rightarrow> client_loop \<Rightarrow> bool" where
  "client_inv X verifier st \<longleftrightarrow>
     (\<forall>pk \<in> set (cl_established st). \<exists>certificate. sv_verify X verifier pk certificate = Ok ()) \<and>
     (\<forall>pk. cl_pin st = Some pk \<longrightarrow> pk \<in> set (cl_established st)) \<and>
     (\<forall>pk. Some pk \<in> set (cl_opening st) \<longrightarrow> cl_pin st = Some pk)"

lemma set_remove1_sub: "x \<in> set (remove1 y xs) \<Longrightarrow> x \<in> set xs"
  by (meson notin_set_remove1)

lemma client_task_trusted:
  assumes "client_task io C X ccfg verifier force addr cached now app_r app_w ortd = (Some (server_pk, fwd), ortd')"
    and "client_inv X verifier st" "cached \<in> set (cl_opening st)"
  shows "(\<exists>certificate. sv_verify X verifier server_pk certificate = Ok ()) \<and>
    (\<forall>pin. cached = Some pin \<longrightarrow> server_pk = pin \<and> cl_pin st = Some pin)"
proof -
  from assms(1) obtain co where
    co: "client_open io C X ccfg (local_src_ip addr) cached force verifier now [] ortd = (Ok co, ortd')" "server_pk = co_server_pk co"
    by (auto simp: client_task_def split: prod.splits result.splits)
  from client_open_OkD [OF co(1)] assms(2,3) show ?thesis
    unfolding co(2) by (cases cached) (auto simp: client_inv_def)
qed

lemma client_inv_step:
  assumes "client_step io C X ccfg verifier force st st'" "client_inv X verifier st"
  shows "client_inv X verifier st'"
  using assms(1)
proof (cases rule: client_step.cases)
  case (opened cached addr now app_r app_w ortd server_pk fwd ortd')
  from client_task_trusted [OF opened(3) assms(2) opened(2)] assms(2) show ?thesis
    unfolding opened(1) client_inv_def by (auto simp: remember_pin_def dest: set_remove1_sub split: if_splits)
qed (use assms(2) in \<open>auto simp: client_inv_def dest: set_remove1_sub\<close>)

lemma client_inv_reachable:
  "(client_step io C X ccfg verifier force)\<^sup>*\<^sup>* st st' \<Longrightarrow> client_inv X verifier st \<Longrightarrow> client_inv X verifier st'"
  by (induction rule: rtranclp_induct) (auto intro: client_inv_step)

text \<open>Once a pin is set it stays, and connections that have seen it use it.\<close>

definition pinned :: "bytes \<Rightarrow> bytes list \<Rightarrow> client_loop \<Rightarrow> bool" where
  "pinned pk old st \<longleftrightarrow> cl_pin st = Some pk \<and> None \<notin> set (cl_opening st) \<and>
     (\<exists>new. cl_established st = new @ old \<and> set new \<subseteq> {pk})"

lemma pin_kept_step: "client_step io C X ccfg verifier force st st' \<Longrightarrow> cl_pin st = Some pk \<Longrightarrow> cl_pin st' = Some pk"
  by (auto elim!: client_step.cases simp: remember_pin_def)

lemma pin_kept:
  "(client_step io C X ccfg verifier force)\<^sup>*\<^sup>* st st' \<Longrightarrow> cl_pin st = Some pk \<Longrightarrow> cl_pin st' = Some pk"
  by (induction rule: rtranclp_induct) (auto intro: pin_kept_step)

lemma pinned_step:
  assumes "client_step io C X ccfg verifier force st st'" "client_inv X verifier st" "pinned pk old st"
  shows "pinned pk old st'"
  using assms(1)
proof (cases rule: client_step.cases)
  case (opened cached addr now app_r app_w ortd server_pk fwd ortd')
  from assms(3) opened(2) obtain pin where "cached = Some pin" by (cases cached) (auto simp: pinned_def)
  with client_task_trusted [OF opened(3) assms(2) opened(2)] assms(3) have "server_pk = pk"
    by (auto simp: pinned_def)
  then show ?thesis
    using assms(3) unfolding opened(1) pinned_def
    by (auto simp: remember_pin_def dest: set_remove1_sub intro: exI [of _ "pk # _"])
qed (use assms(3) in \<open>auto simp: pinned_def dest: set_remove1_sub\<close>)

lemma pinned_reachable:
  "(client_step io C X ccfg verifier force)\<^sup>*\<^sup>* st st' \<Longrightarrow> client_inv X verifier st \<Longrightarrow> pinned pk old st \<Longrightarrow> pinned pk old st'"
  by (induction rule: rtranclp_induct) (auto intro: pinned_step client_inv_reachable)

text \<open>Every use of the strike cache processes at most one payload.\<close>

fun use_payload :: "strike_use \<Rightarrow> (bytes \<times> kem_payload \<times> bytes \<times> u64) option" where
  "use_payload (FirstFrame (ClientHelloZeroRtt suite_id pk p) peer now) =
     (if check_suite suite_id = Ok () then Some (pk, p, peer, now) else None)"
| "use_payload (SecondFrame (ClientData pk p) peer now) = Some (pk, p, peer, now)"
| "use_payload _ = None"

lemma check_suite_no_panic: "check_suite c \<noteq> Panic"
  by (simp add: check_suite_def split: option.split)

lemma use_strike_eq:
  "use_strike C scfg u strike =
    (case use_payload u of
       None \<Rightarrow> (None, strike)
     | Some (pk, p, peer, now) \<Rightarrow>
         (case process_payload C (V1 C) scfg pk p peer now strike of
            (Ok se, strike') \<Rightarrow> (Some se, strike')
          | (_, strike') \<Rightarrow> (None, strike')))"
proof (cases u)
  case (FirstFrame f peer now)
  then show ?thesis
    using check_suite_no_panic
    by (cases f) (auto simp: server_on_first_def sbind_def split: result.splits prod.splits)
next
  case (SecondFrame f peer now)
  then show ?thesis
    by (cases f) (auto simp: server_on_client_data_def split: result.splits prod.splits)
qed

lemma use_payload_clock: "use_payload u = Some (pk, p, peer, now) \<Longrightarrow> use_clock u = now"
  by (cases u rule: use_payload.cases) (auto split: if_splits)

lemma serve_uses_payloads:
  "\<exists>rs. serve_uses C scfg us strike = serve_payloads C (V1 C) scfg rs strike \<and>
    (\<lambda>(_, _, _, now). now) ` set rs \<subseteq> use_clock ` set us"
proof (induction us arbitrary: strike)
  case Nil
  then show ?case by (intro exI [of _ "[]"]) simp
next
  case (Cons u us)
  show ?case
  proof (cases "use_payload u")
    case None
    with Cons [of strike] show ?thesis by (auto simp: use_strike_eq)
  next
    case (Some r)
    obtain pk p peer now where r: "r = (pk, p, peer, now)" by (cases r)
    then have snd: "snd (use_strike C scfg u strike) = snd (process_payload C (V1 C) scfg pk p peer now strike)"
      using Some by (simp add: use_strike_eq split: prod.split result.split)
    obtain rs where "serve_uses C scfg us (snd (use_strike C scfg u strike)) =
        serve_payloads C (V1 C) scfg rs (snd (use_strike C scfg u strike))"
        "(\<lambda>(_, _, _, now). now) ` set rs \<subseteq> use_clock ` set us"
      using Cons by blast
    then show ?thesis
      using snd r use_payload_clock [of u pk p peer now] Some
      by (intro exI [of _ "(pk, p, peer, now) # rs"]) auto
  qed
qed

lemma serve_uses_ok:
  assumes "sc_ok strike"
  shows "sc_ok (serve_uses C scfg us strike)" "sc_window_ms (serve_uses C scfg us strike) = sc_window_ms strike"
proof -
  obtain rs where "serve_uses C scfg us strike = serve_payloads C (V1 C) scfg rs strike"
    using serve_uses_payloads by metis
  moreover obtain reqs where "serve_payloads C (V1 C) scfg rs strike = serve_all reqs strike"
    using serve_payloads_serve_all by metis
  ultimately show "sc_ok (serve_uses C scfg us strike)" "sc_window_ms (serve_uses C scfg us strike) = sc_window_ms strike"
    using sc_ok_serve_all [OF assms] by simp_all
qed

lemma run_server_init_ok: "sc_ok (run_server_init scfg)" "sc_window_ms (run_server_init scfg) = sv_window_ms scfg"
  by (simp_all add: run_server_init_def sc_new_def sc_ok_def)


section \<open>Properties\<close>

text \<open>
  The canonical form of addresses. An address becomes 16 bytes, and two addresses become the
  same bytes only if they are equal or one is the IPv4-mapped form of the other; so the source
  check compares addresses faithfully across the two families.
\<close>

theorem ip_to_bytes_canonical:
  assumes "ip_ok a" "ip_ok b"
  shows "length (ip_to_bytes a) = 16 \<and>
    (ip_to_bytes a = ip_to_bytes b \<longleftrightarrow>
      a = b \<or> (\<exists>v4. {a, b} = {V4 v4, V6 (to_ipv6_mapped v4)}))"
  using assms by (cases a; cases b) (auto simp: to_ipv6_mapped_def doubleton_eq_iff)

theorem ip_to_bytes_canonical_witness:
  "ip_to_bytes (V4 [127, 0, 0, 1]) = ip_to_bytes (V6 (replicate 10 0 @ [0xFF, 0xFF, 127, 0, 0, 1]))"
  using ip_to_bytes_canonical [of "V4 [127, 0, 0, 1]" "V6 (replicate 10 0 @ [0xFF, 0xFF, 127, 0, 0, 1])"]
  by (auto simp: to_ipv6_mapped_def)

text \<open>
  The client's pin. In every state that the concurrent connection tasks can reach, the keys
  of all established connections have been accepted by the verification policy, and a pin is
  one of them. Once set, the pin never changes; and once no task is left that started without
  it, every connection established from then on uses the pinned key.
\<close>

theorem client_pin_trusted_and_stable:
  assumes "(client_step io C X ccfg verifier force)\<^sup>*\<^sup>* run_client_init st"
    and "(client_step io C X ccfg verifier force)\<^sup>*\<^sup>* st st'"
  shows "(\<forall>pk \<in> set (cl_established st). \<exists>certificate. sv_verify X verifier pk certificate = Ok ()) \<and>
    (\<forall>pk. cl_pin st = Some pk \<longrightarrow> pk \<in> set (cl_established st) \<and> cl_pin st' = Some pk \<and>
      (None \<notin> set (cl_opening st) \<longrightarrow>
        (\<exists>new. cl_established st' = new @ cl_established st \<and> set new \<subseteq> {pk})))"
proof -
  have "client_inv X verifier run_client_init"
    by (simp add: client_inv_def run_client_init_def)
  with assms(1) have inv: "client_inv X verifier st"
    by (rule client_inv_reachable)
  have "\<exists>new. cl_established st' = new @ cl_established st \<and> set new \<subseteq> {pk}"
    if "cl_pin st = Some pk" "None \<notin> set (cl_opening st)" for pk
  proof -
    have "pinned pk (cl_established st) st" using that by (simp add: pinned_def)
    from pinned_reachable [OF assms(2) inv this] show ?thesis by (simp add: pinned_def)
  qed
  then show ?thesis
    using inv pin_kept [OF assms(2)] unfolding client_inv_def by blast
qed

theorem client_pin_trusted_and_stable_witness:
  "\<exists>st pk. (client_step sample_io sample_crates sample_x509 sample_client (Strict None) False)\<^sup>*\<^sup>* run_client_init st \<and>
    cl_pin st = Some pk \<and> pk \<in> set (cl_established st)"
proof -
  let ?step = "client_step sample_io sample_crates sample_x509 sample_client (Strict None) False"
  let ?ortd = "\<lparr>cs_reader = (encode_framed (encode sample_hello), None), cs_writer = ([], True), cs_shared = sample_rng\<rparr>"
  obtain co s where "client_open sample_io sample_crates sample_x509 sample_client (replicate 16 0) None False (Strict None) 7 []
      ?ortd = (Ok co, s)"
    by (rule sample_client_run)
  then have task: "client_task sample_io sample_crates sample_x509 sample_client (Strict None) False None None 7 ([], None) ([], True)
      ?ortd = (Some (co_server_pk co, forward_start sample_io ([], None) ([], True) (co_conn co) (co_expect_ack co) []), s)"
    by (simp add: client_task_def local_src_ip_def)
  let ?st1 = "run_client_init\<lparr>cl_opening := [None]\<rparr>"
  have 1: "?step run_client_init ?st1"
    using client_step.read_pin [of sample_io sample_crates sample_x509 sample_client "Strict None" False run_client_init]
    by (simp add: run_client_init_def)
  have 2: "?step ?st1 (?st1\<lparr>cl_opening := remove1 None (cl_opening ?st1),
      cl_pin := remember_pin (co_server_pk co) (cl_pin ?st1), cl_established := co_server_pk co # cl_established ?st1\<rparr>)"
    by (rule client_step.opened [OF _ task]) simp
  let ?st2 = "?st1\<lparr>cl_opening := remove1 None (cl_opening ?st1),
      cl_pin := remember_pin (co_server_pk co) (cl_pin ?st1), cl_established := co_server_pk co # cl_established ?st1\<rparr>"
  have run: "?step\<^sup>*\<^sup>* run_client_init ?st2"
    using 1 2 by (meson r_into_rtranclp rtranclp_trans)
  have pin: "cl_pin ?st2 = Some (co_server_pk co)" by (simp add: remember_pin_def run_client_init_def)
  from client_pin_trusted_and_stable [OF run rtranclp.rtrancl_refl] pin have "co_server_pk co \<in> set (cl_established ?st2)"
    by blast
  with run pin show ?thesis by blast
qed

lemma payload_accepted_once:
  assumes "use_strike C scfg u (serve_uses C scfg us (run_server_init scfg)) = (Some se, strike')"
    and "use_payload u = Some (pk, p, peer, now)" "unat (kp_ts_millis p) \<le> unat now"
    and "\<forall>v \<in> set vs. unat (use_clock v) \<le> unat now2"
    and "use_payload u' = Some (pk', p, peer', now2)"
  shows "fst (use_strike C scfg u' (serve_uses C scfg vs strike')) = None"
proof -
  let ?strike = "serve_uses C scfg us (run_server_init scfg)" and ?tag = "payload_tag (V1 C) p"
  have ok: "sc_ok ?strike" "sc_window_ms ?strike = sv_window_ms scfg"
    using serve_uses_ok [OF run_server_init_ok(1)] run_server_init_ok(2) by metis+
  have acc: "process_payload C (V1 C) scfg pk p peer now ?strike = (Ok se, strike')"
    using assms(1,2) by (auto simp: use_strike_eq split: prod.splits result.splits)
  obtain rs where rs: "serve_uses C scfg vs strike' = serve_payloads C (V1 C) scfg rs strike'"
      "(\<lambda>(_, _, _, now). now) ` set rs \<subseteq> use_clock ` set vs"
    using serve_uses_payloads by metis
  have "fst (process_payload C (V1 C) scfg pk' p peer' now2 (serve_payloads C (V1 C) scfg rs strike')) \<noteq> Ok se'" for se'
  proof (cases "in_window now2 (kp_ts_millis p) (sv_window_ms scfg) (sv_skew_ms scfg)")
    case True
    then have "live (sc_window_ms ?strike) now2 now"
      using assms(3) ok(2) by (simp add: in_window_def live_def)
    moreover have "\<forall>(_, _, _, n) \<in> set rs. live (sc_window_ms ?strike) n now"
      using rs(2) assms(4) calculation unfolding live_def by fastforce
    ultimately have "\<not> tag_fresh (serve_payloads C (V1 C) scfg rs strike') now2 ?tag"
        "sc_ok (serve_payloads C (V1 C) scfg rs strike')"
      using accepted_tag_stays [OF ok(1) acc] by (simp_all add: tag_fresh_def)
    then show ?thesis by (simp add: process_payload_outcome split: result.split)
  next
    case False
    then show ?thesis by (simp add: process_payload_eq precheck_def)
  qed
  then show ?thesis
    using assms(5) by (auto simp: use_strike_eq rs(1) split: prod.split result.split) (metis fst_conv)
qed

text \<open>
  C10. One acceptance per payload, for the running server. Start with the strike cache the server
  starts with; let any frames from any peers be handled; let a payload be accepted at a time
  not earlier than its own timestamp; let any further frames be handled, at clock readings up to
  \<open>now2\<close>. Then no delivery of the same payload at \<open>now2\<close> establishes a session, be it from the
  same peer or another, with the same or another client key, as 0-RTT or as second flight.
\<close>

theorem server_accepts_payload_once:
  assumes "use_strike C scfg u (serve_uses C scfg us (run_server_init scfg)) = (Some se, strike')"
    and "use_payload u = Some (pk, p, peer, now)" "unat (kp_ts_millis p) \<le> unat now"
    and "\<forall>v \<in> set vs. unat (use_clock v) \<le> unat now2"
    and "use_payload u' = Some (pk', p, peer', now2)"
  shows "fst (use_strike C scfg u' (serve_uses C scfg vs strike')) = None"
  by (rule payload_accepted_once [OF assms])

theorem server_accepts_payload_once_witness:
  "\<exists>p se strike'. use_strike sample_crates sample_server
      (FirstFrame (ClientHelloZeroRtt 1 (cc_client_pk sample_client) p) (replicate 16 1) 1000000)
      (run_server_init sample_server) = (Some se, strike') \<and>
    fst (use_strike sample_crates sample_server (SecondFrame (ClientData (cc_client_pk sample_client) p) (replicate 16 1) 1001500)
      strike') = None"
proof -
  have "in_window 1000000 999900 2000 1000" by (simp add: in_window_def)
  then obtain p se where p: "kp_ts_millis p = 999900" and acc:
    "process_payload sample_crates (V1 sample_crates) sample_server (cc_client_pk sample_client) p
      (replicate 16 1) 1000000 (sc_new 2000) =
      (Ok se, snd (check_and_insert (payload_tag (V1 sample_crates) p) 1000000 (sc_new 2000)))"
    by (rule sample_accepted)
  let ?u = "FirstFrame (ClientHelloZeroRtt 1 (cc_client_pk sample_client) p) (replicate 16 1) 1000000"
  let ?u' = "SecondFrame (ClientData (cc_client_pk sample_client) p) (replicate 16 1) 1001500"
  have init: "run_server_init sample_server = sc_new 2000"
    by (simp add: run_server_init_def sample_server_def)
  have up: "use_payload ?u = Some (cc_client_pk sample_client, p, replicate 16 1, 1000000)"
      "use_payload ?u' = Some (cc_client_pk sample_client, p, replicate 16 1, 1001500)"
    by (simp_all add: check_suite_def from_code_def)
  then have first: "use_strike sample_crates sample_server ?u (serve_uses sample_crates sample_server [] (run_server_init sample_server)) =
      (Some se, snd (check_and_insert (payload_tag (V1 sample_crates) p) 1000000 (sc_new 2000)))"
    using acc by (simp add: use_strike_eq init)
  have "fst (use_strike sample_crates sample_server ?u' (serve_uses sample_crates sample_server []
      (snd (check_and_insert (payload_tag (V1 sample_crates) p) 1000000 (sc_new 2000))))) = None"
    by (rule server_accepts_payload_once [OF first up(1) _ _ up(2)]) (simp_all add: p)
  with first show ?thesis by auto
qed

end
