(* ===== verification/Cli.thy ===== *)
theory Cli
  imports Run
begin

text \<open>
  The command-line layer: key files and hexadecimal output (\<open>ort-cli/src/lib.rs\<close>), the client's
  configuration (\<open>ortc/src/main.rs\<close>) and the server's, with its key and certificate generation
  (\<open>ortd/src/main.rs\<close>), and both \<open>main\<close> functions up to their accept loops. The state is the file
  system, the random source and what has been printed. Certificate generation (the rcgen crate),
  the parsers that clap derives and the binding of a listener are parameters; logging and
  zeroization are outside the model.
\<close>

section \<open>Files\<close>

text \<open>
  A path is the list of its components. An operation fails on a path that the operating system
  denies, a read on a missing file, and a write into a missing directory.
\<close>

type_synonym path = "string list"

record file_system =
  fs_files :: "path \<rightharpoonup> bytes"
  fs_modes :: "path \<rightharpoonup> nat"
  fs_dirs :: "path \<Rightarrow> bool"
  fs_denied :: "path \<Rightarrow> bool"

datatype cli_error = FsError path | CoreFailure core_error | RcgenFailure string | Context string cli_error

definition fs_read :: "path \<Rightarrow> file_system \<Rightarrow> (bytes, cli_error) result" where
  "fs_read p fs = (if fs_denied fs p then Err (FsError p) else ok_or (FsError p) (fs_files fs p))"

definition fs_exists :: "path \<Rightarrow> file_system \<Rightarrow> bool" where
  "fs_exists p fs \<longleftrightarrow> fs_files fs p \<noteq> None \<or> fs_dirs fs p"

definition fs_write :: "path \<Rightarrow> bytes \<Rightarrow> (unit, cli_error, file_system) sm" where
  "fs_write p bs fs =
     (if fs_denied fs p \<or> p = [] \<or> fs_dirs fs p \<or> (butlast p \<noteq> [] \<and> \<not> fs_dirs fs (butlast p)) then (Err (FsError p), fs)
      else (Ok (), fs\<lparr>fs_files := (fs_files fs)(p \<mapsto> bs)\<rparr>))"

text \<open>\<open>create_dir_all\<close> makes the directory and all above it; a file in the way is an error.\<close>

definition create_dir_all :: "path \<Rightarrow> (unit, cli_error, file_system) sm" where
  "create_dir_all d fs =
     (if fs_denied fs d \<or> (\<exists>n \<le> length d. fs_files fs (take n d) \<noteq> None) then (Err (FsError d), fs)
      else (Ok (), fs\<lparr>fs_dirs := (\<lambda>p. fs_dirs fs p \<or> p = take (length p) d)\<rparr>))"

definition set_permissions :: "path \<Rightarrow> nat \<Rightarrow> (unit, cli_error, file_system) sm" where
  "set_permissions p mode fs =
     (if fs_denied fs p \<or> \<not> fs_exists p fs then (Err (FsError p), fs)
      else (Ok (), fs\<lparr>fs_modes := (fs_modes fs)(p \<mapsto> mode)\<rparr>))"

definition display :: "path \<Rightarrow> string" where
  "display p = concat (map (\<lambda>c. c @ ''/'') (butlast p)) @ (if p = [] then [] else last p)"

definition with_context :: "string \<Rightarrow> ('a, cli_error, 's) sm \<Rightarrow> ('a, cli_error, 's) sm" where
  "with_context msg m s = (case m s of (x, s') \<Rightarrow> (map_err (Context msg) x, s'))"


section \<open>Key files and hexadecimal\<close>

definition read_key :: "path \<Rightarrow> (bytes, cli_error, file_system) sm" where
  "read_key p fs = with_context (''reading key '' @ display p) (slift (fs_read p fs)) fs"

definition parent :: "path \<Rightarrow> path option" where
  "parent p = (if p = [] then None else Some (butlast p))"

text \<open>The mode 384 is octal 600; failing to set it is ignored.\<close>

definition write_key :: "path \<Rightarrow> bytes \<Rightarrow> (unit, cli_error, file_system) sm" where
  "write_key p bs =
     sbind (case parent p of
         Some d \<Rightarrow> if d \<noteq> [] then with_context (''creating '' @ display d) (create_dir_all d) else sreturn ()
       | None \<Rightarrow> sreturn ()) (\<lambda>_.
     sbind (with_context (''writing key '' @ display p) (fs_write p bs)) (\<lambda>_ fs.
     (Ok (), snd (set_permissions p 384 fs))))"

definition hex_digit :: "nat \<Rightarrow> char" where
  "hex_digit n = ''0123456789abcdef'' ! n"

fun hex :: "bytes \<Rightarrow> string" where
  "hex [] = []"
| "hex (b # bs) = hex_digit (unat b div 16) # hex_digit (unat b mod 16) # hex bs"


section \<open>The process\<close>

record cli_state =
  cli_fs :: file_system
  cli_rng :: os_rng
  cli_out :: "string list"

definition on_fs :: "('a, cli_error, file_system) sm \<Rightarrow> ('a, cli_error, cli_state) sm" where
  "on_fs m s = (case m (cli_fs s) of (x, fs) \<Rightarrow> (x, s\<lparr>cli_fs := fs\<rparr>))"

definition on_rng :: "('a, core_error, os_rng) sm \<Rightarrow> ('a, cli_error, cli_state) sm" where
  "on_rng m s = (case m (cli_rng s) of (x, g) \<Rightarrow> (map_err CoreFailure x, s\<lparr>cli_rng := g\<rparr>))"

definition println :: "string \<Rightarrow> (unit, cli_error, cli_state) sm" where
  "println l s = (Ok (), s\<lparr>cli_out := cli_out s @ [l]\<rparr>)"


section \<open>The client\<close>

definition load_client_config ::
    "('dk, 'ek, 'sk, 'vk, 'sg, 'h) crates \<Rightarrow> path option \<Rightarrow> ('sk client_config, cli_error, cli_state) sm" where
  "load_client_config C client_key =
     sbind (case client_key of
         Some p \<Rightarrow> (\<lambda>s.
           if fs_exists p (cli_fs s)
           then sbind (on_fs (read_key p)) (\<lambda>seed.
             with_context ''decode client signing key''
               (slift (map_err CoreFailure (sig_secret_from_bytes (V1 C) seed)))) s
           else sbind (on_rng (sig_generate (V1 C))) (\<lambda>k.
             sbind (on_fs (write_key p (sig_secret_to_bytes (V1 C) k))) (\<lambda>_. sreturn k)) s)
       | None \<Rightarrow> on_rng (sig_generate (V1 C))) (\<lambda>sig_secret.
     let client_pk = sig_public (V1 C) sig_secret in
     sreturn \<lparr>cc_sig_secret = sig_secret, cc_client_pk = client_pk\<rparr>)"

text \<open>The choice of the verifier in \<open>main\<close> of the client.\<close>

definition client_verifier :: "bool \<Rightarrow> path option \<Rightarrow> (server_verifier, cli_error, cli_state) sm" where
  "client_verifier no_strict_cert ca =
     (if no_strict_cert then sreturn TrustOnFirstUse
      else case ca of
        None \<Rightarrow> sreturn (Strict None)
      | Some p \<Rightarrow> sbind (on_fs (with_context ''reading CA certificate'' (\<lambda>fs. (fs_read p fs, fs)))) (\<lambda>der.
          sreturn (Strict (Some der))))"


text \<open>What \<open>main\<close> of the client sets up before it binds its listener and runs the loop.\<close>

definition ortc_setup ::
    "('dk, 'ek, 'sk, 'vk, 'sg, 'h) crates \<Rightarrow> bool \<Rightarrow> path option \<Rightarrow> path option \<Rightarrow>
      ('sk client_config \<times> server_verifier, cli_error, cli_state) sm" where
  "ortc_setup C no_strict_cert ca client_key =
     sbind (client_verifier no_strict_cert ca) (\<lambda>verifier.
     sbind (load_client_config C client_key) (\<lambda>ccfg.
     sreturn (ccfg, verifier)))"


section \<open>The server\<close>

definition KEM_KEY_FILE :: string where "KEM_KEY_FILE = ''server_kem.key''"
definition SIGN_KEY_FILE :: string where "SIGN_KEY_FILE = ''server_sign.key''"
definition CERT_FILE :: string where "CERT_FILE = ''cert.der''"

definition gen_key :: "('dk, 'ek, 'sk, 'vk, 'sg, 'h) crates \<Rightarrow> path \<Rightarrow> (unit, cli_error, cli_state) sm" where
  "gen_key C out_dir =
     sbind (on_rng (kem_generate (V1 C))) (\<lambda>kem.
     sbind (on_rng (sig_generate (V1 C))) (\<lambda>sign.
     let server_pk = kem_public (V1 C) kem in
     sbind (on_fs (write_key (out_dir @ [KEM_KEY_FILE]) (kem_secret_to_bytes (V1 C) kem))) (\<lambda>_.
     sbind (on_fs (write_key (out_dir @ [SIGN_KEY_FILE]) (sig_secret_to_bytes (V1 C) sign))) (\<lambda>_.
     sbind (println (''generated server keys in '' @ display out_dir)) (\<lambda>_.
     println (''server_pk (pin this on clients): '' @ hex server_pk))))))"

definition load_or_make_kem :: "('dk, 'ek, 'sk, 'vk, 'sg, 'h) crates \<Rightarrow> path \<Rightarrow> ('dk, cli_error, cli_state) sm" where
  "load_or_make_kem C dir s =
     (let p = dir @ [KEM_KEY_FILE] in
      if fs_exists p (cli_fs s)
      then sbind (on_fs (read_key p)) (\<lambda>seed.
        with_context ''decode server KEM key'' (slift (map_err CoreFailure (kem_secret_from_bytes (V1 C) seed)))) s
      else
        sbind (on_rng (kem_generate (V1 C))) (\<lambda>kem.
        sbind (on_fs (write_key p (kem_secret_to_bytes (V1 C) kem))) (\<lambda>_.
        sbind (on_rng (sig_generate (V1 C))) (\<lambda>sign.
        sbind (on_fs (write_key (dir @ [SIGN_KEY_FILE]) (sig_secret_to_bytes (V1 C) sign))) (\<lambda>_.
        sreturn kem)))) s)"

text \<open>
  The rcgen crate: the key pair it generates, a self-signed certificate with the given custom
  extensions for the given name, and the export of the key.
\<close>

record 'kp rcgen =
  rc_generate :: "('kp, string) result"
  rc_params :: "string list \<Rightarrow> (unit, string) result"
  rc_self_signed :: "string list \<Rightarrow> (nat list \<times> bytes) list \<Rightarrow> 'kp \<Rightarrow> (bytes, string) result"
  rc_serialize_der :: "'kp \<Rightarrow> bytes"

definition SERVERPK_OID_U64 :: "nat list" where
  "SERVERPK_OID_U64 = [1, 3, 6, 1, 4, 1, 58271, 1, 1]"

definition rcgen_call :: "string \<Rightarrow> ('a, string) result \<Rightarrow> ('a, cli_error, cli_state) sm" where
  "rcgen_call msg x = with_context msg (slift (map_err RcgenFailure x))"

definition gen_cert ::
    "('dk, 'ek, 'sk, 'vk, 'sg, 'h) crates \<Rightarrow> 'kp rcgen \<Rightarrow> path \<Rightarrow> (unit, cli_error, cli_state) sm" where
  "gen_cert C R out_dir =
     sbind (load_or_make_kem C out_dir) (\<lambda>kem.
     let server_pk = kem_public (V1 C) kem in
     sbind (rcgen_call ''generate cert key'' (rc_generate R)) (\<lambda>key_pair.
     sbind (rcgen_call ''cert params'' (rc_params R [''ortd''])) (\<lambda>_.
     sbind (rcgen_call ''self-sign cert'' (rc_self_signed R [''ortd''] [(SERVERPK_OID_U64, server_pk)] key_pair)) (\<lambda>cert.
     sbind (on_fs (with_context ''write cert.der'' (fs_write (out_dir @ [CERT_FILE]) cert))) (\<lambda>_.
     sbind (on_fs (write_key (out_dir @ [''cert_signing.key'']) (rc_serialize_der R key_pair))) (\<lambda>_.
     sbind (println (''wrote certificate to '' @ display (out_dir @ [CERT_FILE]))) (\<lambda>_.
     println (''server_pk (bound in cert): '' @ hex server_pk))))))))"

type_synonym socket_addr = "ip_addr \<times> u16"

record run_args =
  ra_listen :: socket_addr
  ra_target :: socket_addr
  ra_cert :: "path option"
  ra_window_ms :: u64
  ra_skew_ms :: u64

definition load_server_config ::
    "('dk, 'ek, 'sk, 'vk, 'sg, 'h) crates \<Rightarrow> run_args \<Rightarrow> ('dk server_config, cli_error, cli_state) sm" where
  "load_server_config C args =
     sbind (case ra_cert args of
         Some dir \<Rightarrow>
           sbind (with_context ''load server KEM key (run `ortd gen-key` first)'' (on_fs (read_key (dir @ [KEM_KEY_FILE])))) (\<lambda>seed.
           with_context ''decode server KEM key'' (slift (map_err CoreFailure (kem_secret_from_bytes (V1 C) seed))))
       | None \<Rightarrow> on_rng (kem_generate (V1 C))) (\<lambda>kem_secret.
     let server_pk = kem_public (V1 C) kem_secret in
     sbind (\<lambda>s. case ra_cert args of
         Some dir \<Rightarrow>
           if fs_exists (dir @ [CERT_FILE]) (cli_fs s)
           then with_context ''reading certificate'' (slift (fs_read (dir @ [CERT_FILE]) (cli_fs s))) s
           else (Ok [], s)
       | None \<Rightarrow> (Ok [], s)) (\<lambda>certificate.
     sreturn \<lparr>sv_kem_secret = kem_secret, sv_server_pk = server_pk, sv_certificate = certificate,
              sv_window_ms = ra_window_ms args, sv_skew_ms = ra_skew_ms args\<rparr>))"

text \<open>The arguments that \<open>main\<close> of the server hands to the parser.\<close>

definition ortd_argv :: "string list \<Rightarrow> string list" where
  "ortd_argv argv =
     (if length argv > 1 \<and>
         argv ! 1 \<notin> set [''run'', ''gen-key'', ''gen-cert'', ''help'', ''-h'', ''--help'', ''-V'', ''--version'']
      then take 1 argv @ ''run'' # drop 1 argv
      else argv)"

text \<open>
  The programs. The parsers that clap derives from the argument types, and binding a listener
  (with the text of an address), are parameters. A parser that returns nothing has printed its
  help or its error and ended the process. The result of a daemon is what it starts its accept
  loop with.
\<close>

record gen_key_args =
  gk_out :: path

datatype commands = CmdRun run_args | CmdGenKey gen_key_args | CmdGenCert gen_key_args

record os_net =
  net_bind :: "socket_addr \<Rightarrow> (unit, cli_error) result"
  net_display :: "socket_addr \<Rightarrow> string"

datatype 'dk ortd_result = Exited | Finished | Serving socket_addr "'dk server_config"

definition bind_listener :: "os_net \<Rightarrow> socket_addr \<Rightarrow> (unit, cli_error, cli_state) sm" where
  "bind_listener net listen = with_context (''binding '' @ net_display net listen) (slift (net_bind net listen))"

definition ortd_run ::
    "('dk, 'ek, 'sk, 'vk, 'sg, 'h) crates \<Rightarrow> os_net \<Rightarrow> run_args \<Rightarrow> ('dk ortd_result, cli_error, cli_state) sm" where
  "ortd_run C net args =
     sbind (load_server_config C args) (\<lambda>scfg.
     sbind (bind_listener net (ra_listen args)) (\<lambda>_.
     sreturn (Serving (ra_target args) scfg)))"

definition ortd_main ::
    "('dk, 'ek, 'sk, 'vk, 'sg, 'h) crates \<Rightarrow> 'kp rcgen \<Rightarrow> (string list \<Rightarrow> commands option) \<Rightarrow> os_net \<Rightarrow> string list \<Rightarrow>
      ('dk ortd_result, cli_error, cli_state) sm" where
  "ortd_main C R parse_from net argv =
     (case parse_from (ortd_argv argv) of
        None \<Rightarrow> sreturn Exited
      | Some command \<Rightarrow>
          (case command of
             CmdGenKey args \<Rightarrow> sbind (gen_key C (gk_out args)) (\<lambda>_. sreturn Finished)
           | CmdGenCert args \<Rightarrow> sbind (gen_cert C R (gk_out args)) (\<lambda>_. sreturn Finished)
           | CmdRun args \<Rightarrow> ortd_run C net args))"

record ortc_cli =
  ca_listen :: socket_addr
  ca_target :: socket_addr
  ca_no_strict_cert :: bool
  ca_client_key :: "path option"
  ca_ca :: "path option"
  ca_force_1rtt :: bool

datatype 'sk ortc_result = ClientExited | Tunnelling socket_addr "'sk client_config" server_verifier bool

definition ortc_main ::
    "('dk, 'ek, 'sk, 'vk, 'sg, 'h) crates \<Rightarrow> (string list \<Rightarrow> ortc_cli option) \<Rightarrow> os_net \<Rightarrow> string list \<Rightarrow>
      ('sk ortc_result, cli_error, cli_state) sm" where
  "ortc_main C parse net argv =
     (case parse argv of
        None \<Rightarrow> sreturn ClientExited
      | Some args \<Rightarrow>
          sbind (ortc_setup C (ca_no_strict_cert args) (ca_ca args) (ca_client_key args)) (\<lambda>(ccfg, verifier).
          sbind (bind_listener net (ca_listen args)) (\<lambda>_.
          sreturn (Tunnelling (ca_target args) ccfg verifier (ca_force_1rtt args)))))"


section \<open>Lemmas on files\<close>

lemma with_context_Ok_iff [outcome_iff]: "with_context msg m s = (Ok x, s') \<longleftrightarrow> m s = (Ok x, s')"
  by (auto simp: with_context_def outcome_iff split: prod.splits)

lemma on_fs_Ok_iff [outcome_iff]:
  "on_fs m s = (Ok x, s') \<longleftrightarrow> (\<exists>fs. m (cli_fs s) = (Ok x, fs) \<and> s' = s\<lparr>cli_fs := fs\<rparr>)"
  by (auto simp: on_fs_def split: prod.splits)

lemma on_rng_Ok_iff [outcome_iff]:
  "on_rng m s = (Ok x, s') \<longleftrightarrow> (\<exists>g. m (cli_rng s) = (Ok x, g) \<and> s' = s\<lparr>cli_rng := g\<rparr>)"
  by (auto simp: on_rng_def outcome_iff split: prod.splits)

lemma create_dir_all_Ok:
  "create_dir_all d fs = (Ok u, fs') \<Longrightarrow>
    fs_files fs' = fs_files fs \<and> fs_denied fs' = fs_denied fs \<and> fs_dirs fs' = (\<lambda>p. fs_dirs fs p \<or> p = take (length p) d)"
  by (auto simp: create_dir_all_def split: if_splits)

lemma set_permissions_frame:
  "fs_files (snd (set_permissions p m fs)) = fs_files fs" "fs_denied (snd (set_permissions p m fs)) = fs_denied fs"
  "fs_dirs (snd (set_permissions p m fs)) = fs_dirs fs"
  by (simp_all add: set_permissions_def)

lemma write_key_Ok:
  assumes "write_key p bs fs = (Ok u, fs')"
  shows "fs_files fs' = (fs_files fs)(p \<mapsto> bs)" "fs_denied fs' = fs_denied fs" "\<not> fs_denied fs p"
    "fs_modes fs' p = Some 384" "length (butlast p) < length r \<Longrightarrow> fs_dirs fs' r = fs_dirs fs r"
    "butlast p \<noteq> [] \<Longrightarrow> fs_dirs fs' (butlast p)"
proof -
  from assms obtain fs1 fs2 where
      1: "(case parent p of Some d \<Rightarrow> if d \<noteq> [] then with_context (''creating '' @ display d) (create_dir_all d) else sreturn ()
         | None \<Rightarrow> sreturn ()) fs = (Ok (), fs1)"
    and 2: "fs_write p bs fs1 = (Ok (), fs2)" "fs' = snd (set_permissions p 384 fs2)"
    by (auto simp: write_key_def outcome_iff)
  have fs1: "fs_files fs1 = fs_files fs" "fs_denied fs1 = fs_denied fs"
      "length (butlast p) < length r \<Longrightarrow> fs_dirs fs1 r = fs_dirs fs r"
      "butlast p \<noteq> [] \<Longrightarrow> fs_dirs fs1 (butlast p)" for r
    using 1 by (auto simp: parent_def outcome_iff dest!: create_dir_all_Ok split: if_splits)
  have fs2: "fs2 = fs1\<lparr>fs_files := (fs_files fs1)(p \<mapsto> bs)\<rparr>" "\<not> fs_denied fs1 p"
    using 2(1) by (auto simp: fs_write_def split: if_splits)
  show "fs_files fs' = (fs_files fs)(p \<mapsto> bs)" "fs_denied fs' = fs_denied fs" "\<not> fs_denied fs p"
    "length (butlast p) < length r \<Longrightarrow> fs_dirs fs' r = fs_dirs fs r" "butlast p \<noteq> [] \<Longrightarrow> fs_dirs fs' (butlast p)"
    using 2(2) fs1 fs2 by (simp_all add: set_permissions_frame)
  show "fs_modes fs' p = Some 384"
    using 2(2) fs2 by (simp add: set_permissions_def fs_exists_def)
qed

lemma hex_digit_inject: "n < 16 \<Longrightarrow> m < 16 \<Longrightarrow> hex_digit n = hex_digit m \<longleftrightarrow> n = m"
  unfolding hex_digit_def by (intro nth_eq_iff_index_eq) (simp_all add: eval_nat_numeral)

lemma kem_generate_reload:
  assumes "crates_ok C" "kem_generate (V1 C) g = (Ok kem, g')" "rng_ok g"
  shows "kem_secret_from_bytes (V1 C) (kem_secret_to_bytes (V1 C) kem) = Ok kem"
proof -
  obtain seed where seed: "fill_random (replicate 64 0) g = (Ok seed :: (bytes, core_error) result, g\<lparr>rng_calls := Suc (rng_calls g)\<rparr>)"
      "length seed = 64"
    using fill_random_ok [OF assms(3), of "replicate 64 0"] by (metis length_replicate)
  have size: "dk_seed_size C = 64" and again: "dk_to_bytes C (dk_new C seed) = seed"
    using assms(1) seed(2) unfolding crates_ok_def ml_kem_ok_def by blast+
  have "kem = dk_new C seed"
    using assms(2) seed size
    by (simp add: V1_def v1_kem_generate_def v1_kem_secret_from_bytes_def array_try_from_def sbind_step)
  then show ?thesis
    using seed(2) size again
    by (simp add: V1_def v1_kem_secret_to_bytes_def v1_kem_secret_from_bytes_def array_try_from_def)
qed


section \<open>Properties\<close>

lemma sig_generate_reload:
  assumes "crates_ok C" "sig_generate (V1 C) g = (Ok sk, g')" "rng_ok g"
  shows "sig_secret_from_bytes (V1 C) (sig_secret_to_bytes (V1 C) sk) = Ok sk"
proof -
  obtain seed where seed: "fill_random (replicate 32 0) g = (Ok seed :: (bytes, core_error) result, g\<lparr>rng_calls := Suc (rng_calls g)\<rparr>)"
      "length seed = 32"
    using fill_random_ok [OF assms(3), of "replicate 32 0"] by (metis length_replicate)
  have again: "sk_to_seed C (sk_from_seed C seed) = seed"
    using assms(1) seed(2) unfolding crates_ok_def ml_dsa_ok_def by blast
  have "sk = sk_from_seed C seed"
    using assms(2) seed by (simp add: V1_def v1_sig_generate_def sbind_step)
  then show ?thesis
    using seed(2) again
    by (simp add: V1_def v1_sig_secret_to_bytes_def v1_sig_secret_from_bytes_def copy_from_slice_def)
qed

lemma client_verifier_Ok:
  assumes "client_verifier no_strict ca s = (Ok v, s')"
  shows "cli_rng s' = cli_rng s" "v = TrustOnFirstUse \<longleftrightarrow> no_strict"
  using assms by (auto simp: client_verifier_def outcome_iff split: if_splits option.splits)

text \<open>A client configuration that was loaded from, or saved to, a key file.\<close>

lemma load_client_config_saved:
  assumes "crates_ok C" "rng_ok (cli_rng s)" "load_client_config C (Some p) s = (Ok cfg, s')"
  shows "good_client C cfg" "\<exists>seed. fs_read p (cli_fs s') = Ok seed \<and> sig_secret_from_bytes (V1 C) seed = Ok (cc_sig_secret cfg)"
proof -
  show "good_client C cfg"
    using assms(3) by (auto simp: load_client_config_def good_client_def outcome_iff Let_def)
  show "\<exists>seed. fs_read p (cli_fs s') = Ok seed \<and> sig_secret_from_bytes (V1 C) seed = Ok (cc_sig_secret cfg)"
  proof (cases "fs_exists p (cli_fs s)")
    case True
    with assms(3) show ?thesis
      by (auto simp: load_client_config_def outcome_iff read_key_def Let_def)
  next
    case False
    with assms(3) obtain k g fs where "sig_generate (V1 C) (cli_rng s) = (Ok k, g)" "cc_sig_secret cfg = k"
        "write_key p (sig_secret_to_bytes (V1 C) k) (cli_fs s) = (Ok (), fs)" "cli_fs s' = fs"
      by (auto simp: load_client_config_def outcome_iff Let_def)
    then show ?thesis
      using write_key_Ok(1-3) [of p "sig_secret_to_bytes (V1 C) k" "cli_fs s" "()" fs] sig_generate_reload [OF assms(1) _ assms(2)]
      by (simp add: fs_read_def)
  qed
qed

text \<open>
  A key file that \<open>write_key\<close> reports as written reads back as exactly the bytes written,
  is readable and writable by its owner only, and no other file has changed.
\<close>

theorem key_file_roundtrip:
  assumes "write_key p bs fs = (Ok (), fs')"
  shows "read_key p fs' = (Ok bs, fs') \<and> fs_modes fs' p = Some 384 \<and> (\<forall>r. r \<noteq> p \<longrightarrow> fs_files fs' r = fs_files fs r)"
  using write_key_Ok [OF assms] by (simp add: read_key_def with_context_def fs_read_def)

definition sample_fs :: file_system where
  "sample_fs = \<lparr>fs_files = Map.empty, fs_modes = Map.empty, fs_dirs = (\<lambda>_. False), fs_denied = (\<lambda>_. False)\<rparr>"

lemma sample_fs_write: "\<exists>fs'. write_key [''d'', ''k''] bs sample_fs = (Ok (), fs')"
  by (simp add: write_key_def parent_def with_context_def create_dir_all_def fs_write_def sample_fs_def sbind_def)

theorem key_file_roundtrip_witness:
  "\<exists>fs'. write_key [''d'', ''k''] [1, 2, 3] sample_fs = (Ok (), fs') \<and> read_key [''d'', ''k''] fs' = (Ok [1, 2, 3], fs')"
  using sample_fs_write [of "[1, 2, 3]"] key_file_roundtrip [of "[''d'', ''k'']" "[1, 2, 3]" sample_fs] by blast

text \<open>
  C40. The client's identity persists. When \<open>ortc\<close> has set itself up with a key file, whether it
  found the file or created it, its public key belongs to its signing key; and every later run
  that finds the contents of the file unchanged has the same identity, whatever its random
  source. The verifier trusts on first use exactly when the user said so.
\<close>

theorem client_identity_persistent:
  assumes "crates_ok C" "rng_ok (cli_rng s)" "ortc_setup C no_strict ca (Some p) s = (Ok (cfg, v), s1)"
    and "fs_read p (cli_fs s2) = fs_read p (cli_fs s1)"
  shows "good_client C cfg \<and> load_client_config C (Some p) s2 = (Ok cfg, s2) \<and> (v = TrustOnFirstUse \<longleftrightarrow> no_strict)"
proof -
  from assms(3) obtain s0 where v: "client_verifier no_strict ca s = (Ok v, s0)" and load: "load_client_config C (Some p) s0 = (Ok cfg, s1)"
    by (auto simp: ortc_setup_def outcome_iff)
  have "rng_ok (cli_rng s0)" using client_verifier_Ok(1) [OF v] assms(2) by simp
  note saved = load_client_config_saved [OF assms(1) this load]
  then obtain seed where seed: "fs_read p (cli_fs s2) = Ok seed" "sig_secret_from_bytes (V1 C) seed = Ok (cc_sig_secret cfg)"
    using assms(4) by auto
  then have "fs_exists p (cli_fs s2)"
    by (auto simp: fs_read_def fs_exists_def outcome_iff split: if_splits)
  with seed have "load_client_config C (Some p) s2 =
      (Ok \<lparr>cc_sig_secret = cc_sig_secret cfg, cc_client_pk = sig_public (V1 C) (cc_sig_secret cfg)\<rparr>, s2)"
    by (simp add: load_client_config_def sbind_def on_fs_def read_key_def with_context_def Let_def)
  then show ?thesis using saved(1) client_verifier_Ok(2) [OF v] by (simp add: good_client_def)
qed

text \<open>The hexadecimal form of a key has two digits per byte and determines the key.\<close>

lemma hex_determines_bytes:
  "length (hex a) = 2 * length a \<and> (hex a = hex b \<longleftrightarrow> a = b)"
proof
  show "length (hex a) = 2 * length a" by (induction a rule: hex.induct) simp_all
  have byte: "unat x div 16 = unat y div 16 \<and> unat x mod 16 = unat y mod 16 \<longleftrightarrow> x = y" for x y :: u8
    by (metis div_mult_mod_eq word_unat_eq_iff)
  have bound: "unat x div 16 < 16" for x :: u8
    using unat_bound [of x] by simp
  show "hex a = hex b \<longleftrightarrow> a = b"
  proof (induction a arbitrary: b)
    case Nil
    then show ?case by (cases b) simp_all
  next
    case (Cons x a)
    then show ?case
      using byte bound by (cases b) (auto simp: hex_digit_inject)
  qed
qed

text \<open>
  Keys generated by \<open>ortd gen-key\<close> are the keys that \<open>ortd run\<close> uses. After \<open>gen_key\<close> has
  succeeded on a directory, \<open>load_server_config\<close> on the same directory succeeds (unless reading
  a certificate there is denied) with the generated secret, a public key that belongs to it and
  is the one that was printed, and the given window and skew.
\<close>

theorem generated_key_is_served:
  assumes "crates_ok C" "rng_ok (cli_rng s)" "gen_key C dir s = (Ok (), s')"
    and "\<not> fs_denied (cli_fs s) (dir @ [CERT_FILE])" "\<not> fs_dirs (cli_fs s) (dir @ [CERT_FILE])"
  shows "\<exists>cfg s''. load_server_config C \<lparr>ra_listen = l, ra_target = t, ra_cert = Some dir, ra_window_ms = w, ra_skew_ms = k\<rparr> s' = (Ok cfg, s'') \<and>
    sv_server_pk cfg = kem_public (V1 C) (sv_kem_secret cfg) \<and>
    last (cli_out s') = ''server_pk (pin this on clients): '' @ hex (sv_server_pk cfg) \<and>
    sv_window_ms cfg = w \<and> sv_skew_ms cfg = k"
proof -
  from assms(3) obtain kem g1 sign fs1 fs2 where
      kem: "kem_generate (V1 C) (cli_rng s) = (Ok kem, g1)"
    and w1: "write_key (dir @ [KEM_KEY_FILE]) (kem_secret_to_bytes (V1 C) kem) (cli_fs s) = (Ok (), fs1)"
    and w2: "write_key (dir @ [SIGN_KEY_FILE]) (sig_secret_to_bytes (V1 C) sign) fs1 = (Ok (), fs2)"
    and s': "cli_fs s' = fs2" "last (cli_out s') = ''server_pk (pin this on clients): '' @ hex (kem_public (V1 C) kem)"
    by (auto simp: gen_key_def outcome_iff println_def Let_def)
  have names: "KEM_KEY_FILE \<noteq> SIGN_KEY_FILE"
    by (simp add: KEM_KEY_FILE_def SIGN_KEY_FILE_def)
  have key: "fs_read (dir @ [KEM_KEY_FILE]) fs2 = Ok (kem_secret_to_bytes (V1 C) kem)"
    using write_key_Ok [OF w1] write_key_Ok [OF w2] names by (simp add: fs_read_def)
  have cert: "\<not> fs_denied fs2 (dir @ [CERT_FILE])" "\<not> fs_dirs fs2 (dir @ [CERT_FILE])"
    using write_key_Ok(2,5) [OF w1] write_key_Ok(2,5) [OF w2] assms(4,5) by simp_all
  have reload: "kem_secret_from_bytes (V1 C) (kem_secret_to_bytes (V1 C) kem) = Ok kem"
    by (rule kem_generate_reload [OF assms(1) kem assms(2)])
  have "\<exists>certificate s''. load_server_config C \<lparr>ra_listen = l, ra_target = t, ra_cert = Some dir, ra_window_ms = w, ra_skew_ms = k\<rparr> s' =
      (Ok \<lparr>sv_kem_secret = kem, sv_server_pk = kem_public (V1 C) kem, sv_certificate = certificate,
           sv_window_ms = w, sv_skew_ms = k\<rparr>, s'')"
    using key cert reload
    by (auto simp: load_server_config_def with_context_def on_fs_def read_key_def sbind_def s'(1) fs_exists_def
        fs_read_def [of "dir @ [CERT_FILE]"] Let_def split: option.split)
  then show ?thesis using s'(2) by auto
qed

lemma write_key_succeeds:
  assumes "dir \<noteq> []" "fs_denied fs = (\<lambda>_. False)" "\<forall>n \<le> length dir. fs_files fs (take n dir) = None"
    and "\<not> fs_dirs fs (dir @ [f])"
  shows "\<exists>fs'. write_key (dir @ [f]) bs fs = (Ok (), fs')"
proof -
  let ?fs = "fs\<lparr>fs_dirs := (\<lambda>p. fs_dirs fs p \<or> p = take (length p) dir)\<rparr>"
  have "create_dir_all dir fs = (Ok (), ?fs)"
    using assms(2,3) by (auto simp: create_dir_all_def)
  moreover have "fs_write (dir @ [f]) bs ?fs = (Ok (), ?fs\<lparr>fs_files := (fs_files ?fs)(dir @ [f] \<mapsto> bs)\<rparr>)"
    using assms(2,4) by (simp add: fs_write_def)
  ultimately show ?thesis
    using assms(1) by (simp add: write_key_def parent_def with_context_def sbind_def)
qed

definition sample_addr :: socket_addr where
  "sample_addr = (V4 [127, 0, 0, 1], 4433)"

definition sample_process :: cli_state where
  "sample_process = \<lparr>cli_fs = sample_fs, cli_rng = sample_rng, cli_out = []\<rparr>"

lemma sample_key_files:
  obtains kem g1 sign g2 fs1 fs2 where
    "kem_generate (V1 sample_crates) sample_rng = (Ok kem, g1)" "sig_generate (V1 sample_crates) g1 = (Ok sign, g2)"
    "write_key ([''cert''] @ [KEM_KEY_FILE]) (kem_secret_to_bytes (V1 sample_crates) kem) sample_fs = (Ok (), fs1)"
    "write_key ([''cert''] @ [SIGN_KEY_FILE]) (sig_secret_to_bytes (V1 sample_crates) sign) fs1 = (Ok (), fs2)"
proof -
  obtain kem g1 where kem: "kem_generate (V1 sample_crates) sample_rng = (Ok kem, g1)"
    by (simp add: V1_def v1_kem_generate_def v1_kem_secret_from_bytes_def array_try_from_def fill_random_def
        sbind_def sample_rng_def sample_crates_def)
  obtain sign g2 where sign: "sig_generate (V1 sample_crates) g1 = (Ok sign, g2)"
    using kem by (auto simp: V1_def v1_sig_generate_def v1_kem_generate_def fill_random_def sbind_def sample_rng_def
        split: result.splits)
  obtain fs1 where w1: "write_key ([''cert''] @ [KEM_KEY_FILE]) (kem_secret_to_bytes (V1 sample_crates) kem) sample_fs = (Ok (), fs1)"
    using write_key_succeeds [of "[''cert'']" sample_fs KEM_KEY_FILE] by (auto simp: sample_fs_def)
  have "fs_files fs1 (take n [''cert'']) = None" for n
    using write_key_Ok(1) [OF w1] by (cases n) (simp_all add: sample_fs_def)
  moreover have "\<not> fs_dirs fs1 [''cert'', SIGN_KEY_FILE]" "fs_denied fs1 = (\<lambda>_. False)"
    using write_key_Ok(2,5) [OF w1] by (simp_all add: sample_fs_def)
  ultimately obtain fs2 where w2: "write_key ([''cert''] @ [SIGN_KEY_FILE]) (sig_secret_to_bytes (V1 sample_crates) sign) fs1 = (Ok (), fs2)"
    using write_key_succeeds [of "[''cert'']" fs1 SIGN_KEY_FILE] by auto
  show thesis using that [OF kem sign w1 w2] .
qed

lemma sample_gen_key: "\<exists>s'. gen_key sample_crates [''cert''] sample_process = (Ok (), s')"
  by (rule sample_key_files)
    (simp add: gen_key_def on_rng_def on_fs_def println_def sbind_def sample_process_def Let_def)

theorem client_identity_persistent_witness:
  "\<exists>cfg v s1. ortc_setup sample_crates True None (Some [''d'', ''k'']) sample_process = (Ok (cfg, v), s1) \<and>
    load_client_config sample_crates (Some [''d'', ''k'']) s1 = (Ok cfg, s1) \<and> v = TrustOnFirstUse"
proof -
  have rng: "rng_ok (cli_rng sample_process)" by (simp add: sample_process_def sample_rng_ok)
  obtain sk g where "sig_generate (V1 sample_crates) sample_rng = (Ok sk, g)"
    by (simp add: V1_def v1_sig_generate_def fill_random_def sbind_def sample_rng_def)
  moreover obtain fs' where "write_key [''d'', ''k''] (sig_secret_to_bytes (V1 sample_crates) sk) sample_fs = (Ok (), fs')"
    using sample_fs_write by blast
  ultimately obtain cfg v s1 where "ortc_setup sample_crates True None (Some [''d'', ''k'']) sample_process = (Ok (cfg, v), s1)"
    by (simp add: ortc_setup_def client_verifier_def load_client_config_def sbind_def on_rng_def on_fs_def sample_process_def
        fs_exists_def sample_fs_def Let_def)
  with client_identity_persistent [OF sample_crates_ok rng this refl] show ?thesis by blast
qed

theorem generated_key_is_served_witness:
  "\<exists>s' cfg s''. gen_key sample_crates [''cert''] sample_process = (Ok (), s') \<and>
    load_server_config sample_crates \<lparr>ra_listen = sample_addr, ra_target = sample_addr, ra_cert = Some [''cert''], ra_window_ms = 2000, ra_skew_ms = 1000\<rparr> s' = (Ok cfg, s'') \<and>
    last (cli_out s') = ''server_pk (pin this on clients): '' @ hex (sv_server_pk cfg)"
proof -
  obtain s' where s': "gen_key sample_crates [''cert''] sample_process = (Ok (), s')"
    using sample_gen_key by blast
  have "rng_ok (cli_rng sample_process)" "\<not> fs_denied (cli_fs sample_process) ([''cert''] @ [CERT_FILE])"
      "\<not> fs_dirs (cli_fs sample_process) ([''cert''] @ [CERT_FILE])"
    by (simp_all add: sample_process_def sample_rng_ok sample_fs_def)
  from generated_key_is_served [OF sample_crates_ok this(1) s' this(2,3), of sample_addr sample_addr 2000 1000] s' show ?thesis by blast
qed

text \<open>
  What the certificate libraries promise each other: a certificate that rcgen has self-signed is
  not empty, the parser accepts it, it is within its validity, its own key verifies it, and it
  carries the custom extensions, by their dotted identifiers and in their order, after
  extensions of the standard arc only.
\<close>

fun decimal :: "nat \<Rightarrow> string" where
  "decimal n = (if n < 10 then [''0123456789'' ! n] else decimal (n div 10) @ [''0123456789'' ! (n mod 10)])"

declare decimal.simps [simp del]

fun oid_string :: "nat list \<Rightarrow> string" where
  "oid_string [] = []"
| "oid_string [n] = decimal n"
| "oid_string (n # ns) = decimal n @ ''.'' @ oid_string ns"

definition rcgen_parses :: "'kp rcgen \<Rightarrow> ('c, 'k) x509 \<Rightarrow> bool" where
  "rcgen_parses R X \<longleftrightarrow>
     (\<forall>names exts kp der. rc_self_signed R names exts kp = Ok der \<longrightarrow>
       der \<noteq> [] \<and> (\<exists>cert own. x_parse X der = Ok ([], cert) \<and> x_is_valid X cert \<and> x_verify_signature X cert None = Ok () \<and>
         (\<forall>e \<in> set own. take 7 (fst e) = ''2.5.29.'') \<and>
         x_extensions X cert = own @ map (map_prod oid_string id) exts))"

lemma decimal_58271: "decimal 58271 = ''58271''"
  by (simp add: decimal.simps [of 58271] decimal.simps [of 5827] decimal.simps [of 582] decimal.simps [of 58] decimal.simps [of 5])

lemma oid_forms_agree: "oid_string SERVERPK_OID_U64 = SERVERPK_OID_STR"
  by (simp add: SERVERPK_OID_U64_def SERVERPK_OID_STR_def decimal_58271 decimal.simps [of 1] decimal.simps [of "Suc 0"]
      decimal.simps [of 3] decimal.simps [of 6] decimal.simps [of 4])

lemma map_of_standard:
  assumes "\<forall>e \<in> set own. take 7 (fst e) = ''2.5.29.''"
  shows "map_of own SERVERPK_OID_STR = None"
proof -
  have "take 7 SERVERPK_OID_STR \<noteq> ''2.5.29.''" by (simp add: SERVERPK_OID_STR_def)
  with assms show ?thesis by (metis map_of_SomeD fst_conv not_Some_eq)
qed

lemma bound_certificate_accepted:
  assumes "rcgen_parses R X" "rc_self_signed R names [(SERVERPK_OID_U64, server_pk)] kp = Ok der"
  shows "sv_verify X (Strict None) server_pk der = Ok ()"
proof -
  from assms obtain cert own where "der \<noteq> []" and cert: "x_parse X der = Ok ([], cert)" "x_is_valid X cert"
      "x_verify_signature X cert None = Ok ()" "\<forall>e \<in> set own. take 7 (fst e) = ''2.5.29.''"
      "x_extensions X cert = own @ map (map_prod oid_string id) [(SERVERPK_OID_U64, server_pk)]"
    unfolding rcgen_parses_def by meson
  moreover have "extract_bound_server_pk X cert = Some server_pk"
    using cert(5) by (simp add: extract_map_of oid_forms_agree map_add_def map_of_standard [OF cert(4)])
  ultimately show ?thesis by (simp add: sv_verify_def)
qed

text \<open>Where the KEM key comes from, it can be loaded from again.\<close>

lemma load_or_make_kem_saved:
  assumes "crates_ok C" "rng_ok (cli_rng s)" "load_or_make_kem C dir s = (Ok kem, s')"
  shows "\<exists>seed. fs_read (dir @ [KEM_KEY_FILE]) (cli_fs s') = Ok seed \<and> kem_secret_from_bytes (V1 C) seed = Ok kem"
proof (cases "fs_exists (dir @ [KEM_KEY_FILE]) (cli_fs s)")
  case True
  with assms(3) show ?thesis
    by (auto simp: load_or_make_kem_def Let_def outcome_iff read_key_def)
next
  case False
  with assms(3) obtain g fs1 sign fs2 where
      kem: "kem_generate (V1 C) (cli_rng s) = (Ok kem, g)"
    and w: "write_key (dir @ [KEM_KEY_FILE]) (kem_secret_to_bytes (V1 C) kem) (cli_fs s) = (Ok (), fs1)"
      "write_key (dir @ [SIGN_KEY_FILE]) (sig_secret_to_bytes (V1 C) sign) fs1 = (Ok (), fs2)" "cli_fs s' = fs2"
    by (auto simp: load_or_make_kem_def Let_def outcome_iff)
  have "KEM_KEY_FILE \<noteq> SIGN_KEY_FILE" by (simp add: KEM_KEY_FILE_def SIGN_KEY_FILE_def)
  then show ?thesis
    using write_key_Ok [OF w(1)] write_key_Ok [OF w(2)] w(3) kem_generate_reload [OF assms(1) kem assms(2)]
    by (simp add: fs_read_def)
qed

lemma fs_write_Ok:
  assumes "fs_write p bs fs = (Ok u, fs')"
  shows "fs_files fs' = (fs_files fs)(p \<mapsto> bs)" "fs_denied fs' = fs_denied fs" "\<not> fs_denied fs p"
  using assms by (auto simp: fs_write_def split: if_splits)

lemma gen_cert_served:
  assumes "crates_ok C" "rng_ok (cli_rng s)" "rcgen_parses R X" "gen_cert C R dir s = (Ok (), s')" "ra_cert args = Some dir"
  obtains kem cert s'' where "load_server_config C args s' =
      (Ok \<lparr>sv_kem_secret = kem, sv_server_pk = kem_public (V1 C) kem, sv_certificate = cert,
           sv_window_ms = ra_window_ms args, sv_skew_ms = ra_skew_ms args\<rparr>, s'')"
    "sv_verify X (Strict None) (kem_public (V1 C) kem) cert = Ok ()"
    "\<exists>kp. rc_self_signed R [''ortd''] [(SERVERPK_OID_U64, kem_public (V1 C) kem)] kp = Ok cert"
proof -
  from assms(4) obtain kem s1 kp cert fs2 fs3 where
      kem: "load_or_make_kem C dir s = (Ok kem, s1)"
    and cert: "rc_self_signed R [''ortd''] [(SERVERPK_OID_U64, kem_public (V1 C) kem)] kp = Ok cert"
    and w: "fs_write (dir @ [CERT_FILE]) cert (cli_fs s1) = (Ok (), fs2)"
      "write_key (dir @ [''cert_signing.key'']) (rc_serialize_der R kp) fs2 = (Ok (), fs3)" "cli_fs s' = fs3"
    by (auto simp: gen_cert_def rcgen_call_def outcome_iff println_def Let_def)
  from load_or_make_kem_saved [OF assms(1,2) kem] obtain seed where
    seed: "fs_read (dir @ [KEM_KEY_FILE]) (cli_fs s1) = Ok seed" "kem_secret_from_bytes (V1 C) seed = Ok kem" by blast
  have names: "CERT_FILE \<noteq> KEM_KEY_FILE" "CERT_FILE \<noteq> ''cert_signing.key''" "KEM_KEY_FILE \<noteq> ''cert_signing.key''"
    by (simp_all add: CERT_FILE_def KEM_KEY_FILE_def)
  have "fs_read (dir @ [KEM_KEY_FILE]) fs3 = Ok seed" "fs_read (dir @ [CERT_FILE]) fs3 = Ok cert" "fs_exists (dir @ [CERT_FILE]) fs3"
    using seed(1) fs_write_Ok [OF w(1)] write_key_Ok(1,2) [OF w(2)] names names [symmetric]
    by (simp_all add: fs_read_def fs_exists_def split: if_splits)
  then have "\<exists>s''. load_server_config C args s' =
      (Ok \<lparr>sv_kem_secret = kem, sv_server_pk = kem_public (V1 C) kem, sv_certificate = cert,
           sv_window_ms = ra_window_ms args, sv_skew_ms = ra_skew_ms args\<rparr>, s'')"
    using seed(2) w(3) assms(5) by (simp add: load_server_config_def with_context_def on_fs_def read_key_def sbind_def Let_def)
  then show thesis using bound_certificate_accepted [OF assms(3) cert] that cert by blast
qed

text \<open>
  A certificate from \<open>ortd gen-cert\<close> makes strict clients accept the server. After
  \<open>gen_cert\<close> has succeeded on a directory, whether it found the KEM key there or made one,
  \<open>load_server_config\<close> on this directory succeeds, and the strict verifier without a CA accepts
  the public key it serves with the certificate it serves; the numeric and the dotted form of
  the extension's identifier agree.
\<close>

theorem generated_certificate_accepted:
  assumes "crates_ok C" "rng_ok (cli_rng s)" "rcgen_parses R X" "gen_cert C R dir s = (Ok (), s')"
  shows "\<exists>cfg s''. load_server_config C \<lparr>ra_listen = l, ra_target = t, ra_cert = Some dir, ra_window_ms = w, ra_skew_ms = k\<rparr> s' = (Ok cfg, s'') \<and>
    sv_verify X (Strict None) (sv_server_pk cfg) (sv_certificate cfg) = Ok ()"
proof -
  let ?args = "\<lparr>ra_listen = l, ra_target = t, ra_cert = Some dir, ra_window_ms = w, ra_skew_ms = k\<rparr>"
  have "ra_cert ?args = Some dir" by simp
  obtain kem cert s'' where "load_server_config C ?args s' =
      (Ok \<lparr>sv_kem_secret = kem, sv_server_pk = kem_public (V1 C) kem, sv_certificate = cert,
           sv_window_ms = ra_window_ms ?args, sv_skew_ms = ra_skew_ms ?args\<rparr>, s'')"
    "sv_verify X (Strict None) (kem_public (V1 C) kem) cert = Ok ()"
    by (rule gen_cert_served [OF assms \<open>ra_cert ?args = Some dir\<close>])
  then show ?thesis by auto
qed

text \<open>A stand-in for rcgen, for the certificates of \<open>sample_x509\<close>.\<close>

definition sample_rcgen :: "bytes rcgen" where
  "sample_rcgen = \<lparr>
     rc_generate = Ok [], rc_params = (\<lambda>_. Ok ()),
     rc_self_signed = (\<lambda>_ exts _.
       case exts of [(oid, v)] \<Rightarrow> if oid = SERVERPK_OID_U64 \<and> v \<noteq> [] then Ok v else Err ''unsupported'' | _ \<Rightarrow> Err ''unsupported''),
     rc_serialize_der = (\<lambda>_. [])\<rparr>"

lemma sample_rcgen_parses: "rcgen_parses sample_rcgen sample_x509"
  by (auto simp: rcgen_parses_def sample_rcgen_def sample_x509_def oid_forms_agree
      split: list.splits prod.splits if_splits intro!: exI [of _ "[]"])

lemma sample_gen_cert: "\<exists>s'. gen_cert sample_crates sample_rcgen [''cert''] sample_process = (Ok (), s')"
proof -
  obtain kem g1 sign g2 fs1 fs2 where made:
      "kem_generate (V1 sample_crates) sample_rng = (Ok kem, g1)" "sig_generate (V1 sample_crates) g1 = (Ok sign, g2)"
    and w1: "write_key ([''cert''] @ [KEM_KEY_FILE]) (kem_secret_to_bytes (V1 sample_crates) kem) sample_fs = (Ok (), fs1)"
    and w2: "write_key ([''cert''] @ [SIGN_KEY_FILE]) (sig_secret_to_bytes (V1 sample_crates) sign) fs1 = (Ok (), fs2)"
    by (rule sample_key_files)
  let ?pk = "kem_public (V1 sample_crates) kem"
  have "length ?pk \<noteq> 0"
    using v1.kem_public_length [OF sample_crates_ok] by (simp add: V1_def ML_KEM_768_EK_def)
  then have "?pk \<noteq> []" by force
  moreover have fs2: "fs_denied fs2 = (\<lambda>_. False)" "fs_dirs fs2 [''cert'']" "\<And>f. \<not> fs_dirs fs2 [''cert'', f]"
      "fs_files fs2 = [[''cert'', KEM_KEY_FILE] \<mapsto> kem_secret_to_bytes (V1 sample_crates) kem,
        [''cert'', SIGN_KEY_FILE] \<mapsto> sig_secret_to_bytes (V1 sample_crates) sign]"
    using write_key_Ok [OF w1] write_key_Ok [OF w2] by (simp_all add: sample_fs_def)
  then have w3: "fs_write [''cert'', CERT_FILE] ?pk fs2 = (Ok (), fs2\<lparr>fs_files := (fs_files fs2)([''cert'', CERT_FILE] \<mapsto> ?pk)\<rparr>)"
    by (simp add: fs_write_def)
  moreover have "fs_files (fs2\<lparr>fs_files := (fs_files fs2)([''cert'', CERT_FILE] \<mapsto> ?pk)\<rparr>) (take n [''cert'']) = None" for n
    by (cases n) (simp_all add: fs2(4))
  then obtain fs4 where "write_key ([''cert''] @ [''cert_signing.key'']) []
      (fs2\<lparr>fs_files := (fs_files fs2)([''cert'', CERT_FILE] \<mapsto> ?pk)\<rparr>) = (Ok (), fs4)"
    using write_key_succeeds [of "[''cert'']" "fs2\<lparr>fs_files := (fs_files fs2)([''cert'', CERT_FILE] \<mapsto> ?pk)\<rparr>" "''cert_signing.key''" "[]"]
      fs2(1,3) by auto
  ultimately show ?thesis
    using made w1 w2
    by (simp add: gen_cert_def load_or_make_kem_def rcgen_call_def with_context_def sample_rcgen_def on_rng_def on_fs_def println_def
        sbind_def sample_process_def Let_def fs_exists_def sample_fs_def)
qed

theorem generated_certificate_accepted_witness:
  "\<exists>s' cfg s''. gen_cert sample_crates sample_rcgen [''cert''] sample_process = (Ok (), s') \<and>
    load_server_config sample_crates \<lparr>ra_listen = sample_addr, ra_target = sample_addr, ra_cert = Some [''cert''], ra_window_ms = 2000, ra_skew_ms = 1000\<rparr> s' = (Ok cfg, s'') \<and>
    sv_verify sample_x509 (Strict None) (sv_server_pk cfg) (sv_certificate cfg) = Ok ()"
proof -
  obtain s' where s': "gen_cert sample_crates sample_rcgen [''cert''] sample_process = (Ok (), s')"
    using sample_gen_cert by blast
  have "rng_ok (cli_rng sample_process)" by (simp add: sample_process_def sample_rng_ok)
  from generated_certificate_accepted [OF sample_crates_ok this sample_rcgen_parses s', of sample_addr sample_addr 2000 1000] s' show ?thesis by blast
qed

section \<open>The programs\<close>

text \<open>What a server serves that was started on the directory of a successful \<open>gen-cert\<close>.\<close>

lemma ortd_serves_certificate:
  assumes "crates_ok C" "rng_ok (cli_rng d0)" "rcgen_parses R X"
    and "ortd_main C R parse_from net argv d0 = (Ok Finished, d1)" "parse_from (ortd_argv argv) = Some (CmdGenCert \<lparr>gk_out = dir\<rparr>)"
    and "ortd_main C R parse_from net argv' d1 = (Ok (Serving target scfg), d2)"
      "parse_from (ortd_argv argv') = Some (CmdRun args)" "ra_cert args = Some dir"
  shows "sv_server_pk scfg = kem_public (V1 C) (sv_kem_secret scfg)"
    "sv_verify X (Strict None) (sv_server_pk scfg) (sv_certificate scfg) = Ok ()"
    "sv_window_ms scfg = ra_window_ms args" "sv_skew_ms scfg = ra_skew_ms args"
    "\<exists>kp. rc_self_signed R [''ortd''] [(SERVERPK_OID_U64, sv_server_pk scfg)] kp = Ok (sv_certificate scfg)"
proof -
  have made: "gen_cert C R dir d0 = (Ok (), d1)"
    using assms(4,5) by (auto simp: ortd_main_def outcome_iff)
  obtain kem cert s'' where load: "load_server_config C args d1 =
      (Ok \<lparr>sv_kem_secret = kem, sv_server_pk = kem_public (V1 C) kem, sv_certificate = cert,
           sv_window_ms = ra_window_ms args, sv_skew_ms = ra_skew_ms args\<rparr>, s'')"
    "sv_verify X (Strict None) (kem_public (V1 C) kem) cert = Ok ()"
    "\<exists>kp. rc_self_signed R [''ortd''] [(SERVERPK_OID_U64, kem_public (V1 C) kem)] kp = Ok cert"
    by (rule gen_cert_served [OF assms(1-3) made assms(8)])
  have "scfg = \<lparr>sv_kem_secret = kem, sv_server_pk = kem_public (V1 C) kem, sv_certificate = cert,
           sv_window_ms = ra_window_ms args, sv_skew_ms = ra_skew_ms args\<rparr>"
    using assms(6,7) load(1) by (auto simp: ortd_main_def ortd_run_def outcome_iff)
  with load(2,3) show "sv_server_pk scfg = kem_public (V1 C) (sv_kem_secret scfg)"
    "sv_verify X (Strict None) (sv_server_pk scfg) (sv_certificate scfg) = Ok ()"
    "sv_window_ms scfg = ra_window_ms args" "sv_skew_ms scfg = ra_skew_ms args"
    "\<exists>kp. rc_self_signed R [''ortd''] [(SERVERPK_OID_U64, sv_server_pk scfg)] kp = Ok (sv_certificate scfg)" by simp_all
qed

lemma load_client_config_good: "load_client_config C client_key s = (Ok cfg, s') \<Longrightarrow> good_client C cfg"
  by (auto simp: load_client_config_def good_client_def outcome_iff)

lemma ortc_started:
  assumes "ortc_main C parse net argv c0 = (Ok (Tunnelling remote ccfg verifier force), c1)" "parse argv = Some args"
  shows "good_client C ccfg" "remote = ca_target args" "force = ca_force_1rtt args"
    "\<not> ca_no_strict_cert args \<Longrightarrow> ca_ca args = None \<Longrightarrow> verifier = Strict None"
  using assms
  by (auto simp: ortc_main_def ortc_setup_def client_verifier_def outcome_iff dest: load_client_config_good)

text \<open>The default subcommand: what the parser sees is stable, and starts with a known word.\<close>

lemma ortd_argv_stable: "ortd_argv (ortd_argv argv) = ortd_argv argv"
  by (cases argv) (auto simp: ortd_argv_def)

end
