(* ===== verification/Dialling.thy ===== *)
theory Dialling
  imports Run "HOL-Library.Multiset"
begin

text \<open>
  The client of \<open>ort-net/src/run.rs\<close> as a concurrent system: the accept loop spawns a task per
  connection of an application; a task connects to the server, reads the shared pin, runs
  \<open>client_open\<close> (\<open>session.rs\<close>), sets the pin if there is none, and forwards. Each step is an accept,
  the work of one task between two await points, or one critical section on the pin. The tasks
  interleave in any order and draw from the same random source. A task that has failed is
  \<open>Dropped\<close>; a forwarder that has returned stays as it is; an error of \<open>accept\<close> ends the loop, so
  that the run has no further accepts.
\<close>

section \<open>Tasks and the loop\<close>

text \<open>Where a task stands, with the halves of its socket to the server and what it has computed.\<close>

datatype ('r, 'w, 'h) dial_pc =
    Dial
  | LoadPin 'r 'w
  | Opening 'r 'w
  | AwaitHello 'r 'w
  | SendFlight frame "'h client_established" bytes "bytes option" 'r 'w
  | StorePin "('r, 'w, 'h) client_outcome"
  | Splice "('r, 'w, 'h) client_outcome"
  | Tunnelled "('r, 'w, 'h) fwd"
  | Dropped

text \<open>
  The variables of a task: the application's socket, the socket that it got by connecting to the
  server, with its local address, and the copy of the pin.
\<close>

record ('r, 'w, 'h) dial_conn =
  dc_app :: "'r \<times> 'w"
  dc_ortd :: "('r \<times> 'w) option"
  dc_addr :: "ip_addr option"
  dc_cached :: "bytes option"
  dc_pc :: "('r, 'w, 'h) dial_pc"

record ('r, 'w, 'h) dial_loop =
  dl_pin :: "bytes option"
  dl_rng :: os_rng
  dl_conns :: "('r, 'w, 'h) dial_conn list"

definition run_client_start :: "os_rng \<Rightarrow> ('r, 'w, 'h) dial_loop" where
  "run_client_start g = \<lparr>dl_pin = None, dl_rng = g, dl_conns = []\<rparr>"

definition spawned :: "'r \<times> 'w \<Rightarrow> ('r, 'w, 'h) dial_conn" where
  "spawned app = \<lparr>dc_app = app, dc_ortd = None, dc_addr = None, dc_cached = None, dc_pc = Dial\<rparr>"


section \<open>Steps\<close>

text \<open>The server's hello: the key in it, if the policy accepts it and it is not another than the pin.\<close>

definition await_hello ::
    "('r, 'w) tokio_io \<Rightarrow> ('c, 'k) x509 \<Rightarrow> server_verifier \<Rightarrow> bytes option \<Rightarrow> 'r \<Rightarrow> 'w \<Rightarrow> (bytes \<times> 'r) option" where
  "await_hello io X verifier cached r w =
     (case read_decoded io r w of
        Some (ServerHello _ server_pk certificate _, r') \<Rightarrow>
          (case sv_verify X verifier server_pk certificate of
             Ok _ \<Rightarrow> (case cached of
                 Some pin \<Rightarrow> if pin \<noteq> server_pk then None else Some (server_pk, r')
               | None \<Rightarrow> Some (server_pk, r'))
           | _ \<Rightarrow> None)
      | _ \<Rightarrow> None)"

text \<open>
  The steps of a task outside the critical sections. \<open>connected\<close> is the outcome of connecting to
  the server, with the local address of the socket; \<open>now\<close> is the reading of the clock.
\<close>

fun dial_local ::
    "('r, 'w) tokio_io \<Rightarrow> ('dk, 'ek, 'sk, 'vk, 'sg, 'h) crates \<Rightarrow> ('c, 'k) x509 \<Rightarrow> 'sk client_config \<Rightarrow>
      server_verifier \<Rightarrow> bool \<Rightarrow> ('r \<times> 'w \<times> ip_addr option, io_error) result \<Rightarrow> u64 \<Rightarrow>
      ('r, 'w, 'h) dial_pc \<Rightarrow> ('r, 'w, 'h) dial_conn \<Rightarrow> os_rng \<Rightarrow> ('r, 'w, 'h) dial_conn \<times> os_rng" where
  "dial_local io C X ccfg verifier force_1rtt connected now Dial c g =
     (case connected of
        Ok (r, w, addr) \<Rightarrow> (c\<lparr>dc_ortd := Some (r, w), dc_addr := addr, dc_pc := LoadPin r w\<rparr>, g)
      | _ \<Rightarrow> (c\<lparr>dc_pc := Dropped\<rparr>, g))"
| "dial_local io C X ccfg verifier force_1rtt connected now (Opening r w) c g =
     (case (dc_cached c, force_1rtt) of
        (Some spk, False) \<Rightarrow>
          (case client_zero_rtt C (V1 C) ccfg spk (local_src_ip (dc_addr c)) now [] g of
             (Ok (frame, est), g') \<Rightarrow>
               (c\<lparr>dc_pc := SendFlight frame est spk (Some (ce_expected_ek_hash est)) r w\<rparr>, g')
           | (_, g') \<Rightarrow> (c\<lparr>dc_pc := Dropped\<rparr>, g'))
      | _ \<Rightarrow>
          (case write_frame io (encode (client_one_rtt_hello (V1 C) ccfg)) w of
             (Ok _, w') \<Rightarrow> (c\<lparr>dc_pc := AwaitHello r w'\<rparr>, g)
           | _ \<Rightarrow> (c\<lparr>dc_pc := Dropped\<rparr>, g)))"
| "dial_local io C X ccfg verifier force_1rtt connected now (AwaitHello r w) c g =
     (case await_hello io X verifier (dc_cached c) r w of
        Some (server_pk, r') \<Rightarrow>
          (case client_one_rtt_finish C (V1 C) ccfg server_pk (local_src_ip (dc_addr c)) now [] g of
             (Ok (frame, est), g') \<Rightarrow> (c\<lparr>dc_pc := SendFlight frame est server_pk None r' w\<rparr>, g')
           | (_, g') \<Rightarrow> (c\<lparr>dc_pc := Dropped\<rparr>, g'))
      | None \<Rightarrow> (c\<lparr>dc_pc := Dropped\<rparr>, g))"
| "dial_local io C X ccfg verifier force_1rtt connected now (SendFlight frame est server_pk ack r w) c g =
     (case write_frame io (encode frame) w of
        (Ok _, w') \<Rightarrow> (c\<lparr>dc_pc := StorePin (opened_conn r w' est ack server_pk)\<rparr>, g)
      | _ \<Rightarrow> (c\<lparr>dc_pc := Dropped\<rparr>, g))"
| "dial_local io C X ccfg verifier force_1rtt connected now (Splice outcome) c g =
     (case forward_start io (fst (dc_app c)) (snd (dc_app c)) (co_conn outcome) (co_expect_ack outcome) [] of
        Ok a \<Rightarrow> (c\<lparr>dc_pc := Tunnelled a\<rparr>, g)
      | _ \<Rightarrow> (c\<lparr>dc_pc := Dropped\<rparr>, g))"
| "dial_local io C X ccfg verifier force_1rtt connected now pc c g = (c, g)"

text \<open>The critical sections: reading the pin, and setting it when there is none.\<close>

fun dial_locked ::
    "('r, 'w, 'h) dial_pc \<Rightarrow> ('r, 'w, 'h) dial_conn \<Rightarrow> bytes option \<Rightarrow> ('r, 'w, 'h) dial_conn \<times> bytes option" where
  "dial_locked (LoadPin r w) c pin = (c\<lparr>dc_cached := pin, dc_pc := Opening r w\<rparr>, pin)"
| "dial_locked (StorePin outcome) c pin =
     (c\<lparr>dc_pc := Splice outcome\<rparr>, remember_pin (co_server_pk outcome) pin)"
| "dial_locked pc c pin = (c, pin)"

fun wants_pin :: "('r, 'w, 'h) dial_pc \<Rightarrow> bool" where
  "wants_pin (LoadPin _ _) = True"
| "wants_pin (StorePin _) = True"
| "wants_pin _ = False"

inductive dial_step ::
    "('r, 'w) tokio_io \<Rightarrow> ('dk, 'ek, 'sk, 'vk, 'sg, 'h) crates \<Rightarrow> ('c, 'k) x509 \<Rightarrow> 'sk client_config \<Rightarrow>
      server_verifier \<Rightarrow> bool \<Rightarrow> ('r, 'w, 'h) dial_loop \<Rightarrow> ('r, 'w, 'h) dial_loop \<Rightarrow> bool"
  for io C X ccfg verifier force_1rtt where
  accept: "dial_step io C X ccfg verifier force_1rtt st (st\<lparr>dl_conns := dl_conns st @ [spawned app]\<rparr>)"
| local: "i < length (dl_conns st) \<Longrightarrow> c = dl_conns st ! i \<Longrightarrow> \<not> wants_pin (dc_pc c) \<Longrightarrow>
    dial_local io C X ccfg verifier force_1rtt connected now (dc_pc c) c (dl_rng st) = (c', g') \<Longrightarrow>
    dial_step io C X ccfg verifier force_1rtt st (st\<lparr>dl_rng := g', dl_conns := (dl_conns st)[i := c']\<rparr>)"
| locked: "i < length (dl_conns st) \<Longrightarrow> c = dl_conns st ! i \<Longrightarrow> wants_pin (dc_pc c) \<Longrightarrow>
    dial_locked (dc_pc c) c (dl_pin st) = (c', pin') \<Longrightarrow>
    dial_step io C X ccfg verifier force_1rtt st (st\<lparr>dl_pin := pin', dl_conns := (dl_conns st)[i := c']\<rparr>)"
| forward: "i < length (dl_conns st) \<Longrightarrow> c = dl_conns st ! i \<Longrightarrow> dc_pc c = Tunnelled a \<Longrightarrow> fstep io C a a' \<Longrightarrow>
    dial_step io C X ccfg verifier force_1rtt st (st\<lparr>dl_conns := (dl_conns st)[i := c\<lparr>dc_pc := Tunnelled a'\<rparr>]\<rparr>)"

inductive_cases dial_stepE: "dial_step io C X ccfg verifier force_1rtt st st'"


section \<open>Each task runs \<open>client_open\<close>\<close>

lemma client_open_first_contact:
  assumes "cached = None \<or> force" "write_frame io (encode (client_one_rtt_hello (V1 C) ccfg)) w0 = (Ok (), w)"
  shows "await_hello io X verifier cached r w = Some (server_pk, r') \<Longrightarrow>
      client_open io C X ccfg src_ip cached force verifier now early \<lparr>cs_reader = r, cs_writer = w0, cs_shared = g\<rparr> =
      sbind (on_shared Core (client_one_rtt_finish C (V1 C) ccfg server_pk src_ip now early))
        (\<lambda>(frame, est). last_flight io frame est None server_pk) \<lparr>cs_reader = r', cs_writer = w, cs_shared = g\<rparr>"
    and "await_hello io X verifier cached r w = None \<Longrightarrow>
      fst (client_open io C X ccfg src_ip cached force verifier now early \<lparr>cs_reader = r, cs_writer = w0, cs_shared = g\<rparr>) \<noteq> Ok co"
proof -
  assume hello: "await_hello io X verifier cached r w = Some (server_pk, r')"
  then obtain s certificate t where f: "read_decoded io r w = Some (ServerHello s server_pk certificate t, r')"
      "sv_verify X verifier server_pk certificate = Ok ()" "\<forall>pin. cached = Some pin \<longrightarrow> pin = server_pk"
    by (auto simp: await_hello_def split: option.splits frame.splits result.splits if_splits)
  from read_decoded_next [OF f(1), of g] obtain body where body:
      "next_body io \<lparr>cs_reader = r, cs_writer = w, cs_shared = g\<rparr> = (Ok body, \<lparr>cs_reader = r', cs_writer = w, cs_shared = g\<rparr>)"
      "decode body = Ok (ServerHello s server_pk certificate t)" by blast
  with f(2,3) assms show "client_open io C X ccfg src_ip cached force verifier now early \<lparr>cs_reader = r, cs_writer = w0, cs_shared = g\<rparr> =
      sbind (on_shared Core (client_one_rtt_finish C (V1 C) ccfg server_pk src_ip now early))
        (\<lambda>(frame, est). last_flight io frame est None server_pk) \<lparr>cs_reader = r', cs_writer = w, cs_shared = g\<rparr>"
    by (cases cached; cases force)
      (auto simp: client_open_def last_flight_def opened_conn_def sbind_def [of "on_writer Io _"] sbind_def [of "next_body io"]
        sbind_def [of "slift _"] slift_def on_writer_def)
next
  assume "await_hello io X verifier cached r w = None"
  with assms show "fst (client_open io C X ccfg src_ip cached force verifier now early \<lparr>cs_reader = r, cs_writer = w0, cs_shared = g\<rparr>) \<noteq> Ok co"
    by (cases cached; cases force)
      (auto simp: client_open_def await_hello_def read_decoded_def sbind_def next_body_def on_writer_def on_reader_def slift_def
        split: prod.splits result.splits option.splits frame.splits if_splits)
qed

lemma client_open_no_hello:
  assumes "cached = None \<or> force" "write_frame io (encode (client_one_rtt_hello (V1 C) ccfg)) w = (x, w')" "x \<noteq> Ok ()"
  shows "fst (client_open io C X ccfg src_ip cached force verifier now early \<lparr>cs_reader = r, cs_writer = w, cs_shared = g\<rparr>) \<noteq> Ok co"
  using assms by (cases cached; cases x) (auto simp: client_open_def sbind_def on_writer_def)


section \<open>What a task has done so far\<close>

text \<open>
  \<open>task_open\<close> is \<open>client_open\<close> on the variables of a task that has connected; \<open>opened_by\<close> says that
  it has succeeded.
\<close>

definition task_open where
  "task_open io C X ccfg verifier force c now g =
     client_open io C X ccfg (local_src_ip (dc_addr c)) (dc_cached c) force verifier now []
       \<lparr>cs_reader = fst (the (dc_ortd c)), cs_writer = snd (the (dc_ortd c)), cs_shared = g\<rparr>"

definition opened_by where
  "opened_by io C X ccfg verifier force c outcome \<longleftrightarrow>
     dc_ortd c \<noteq> None \<and> (\<exists>now g s'. rng_ok g \<and> task_open io C X ccfg verifier force c now g = (Ok outcome, s'))"

fun dial_at where
  "dial_at io C X ccfg verifier force established c (LoadPin r w) \<longleftrightarrow> dc_ortd c = Some (r, w)"
| "dial_at io C X ccfg verifier force established c (Opening r w) \<longleftrightarrow> dc_ortd c = Some (r, w)"
| "dial_at io C X ccfg verifier force established c (AwaitHello r w) \<longleftrightarrow>
     (\<exists>w0. dc_ortd c = Some (r, w0) \<and> (dc_cached c = None \<or> force) \<and>
       write_frame io (encode (client_one_rtt_hello (V1 C) ccfg)) w0 = (Ok (), w))"
| "dial_at io C X ccfg verifier force established c (SendFlight frame est server_pk ack r w) \<longleftrightarrow>
     dc_ortd c \<noteq> None \<and> (\<exists>now g g'. rng_ok g \<and> task_open io C X ccfg verifier force c now g =
       last_flight io frame est ack server_pk \<lparr>cs_reader = r, cs_writer = w, cs_shared = g'\<rparr>)"
| "dial_at io C X ccfg verifier force established c (StorePin outcome) \<longleftrightarrow> opened_by io C X ccfg verifier force c outcome"
| "dial_at io C X ccfg verifier force established c (Splice outcome) \<longleftrightarrow>
     opened_by io C X ccfg verifier force c outcome \<and> co_server_pk outcome \<in> established"
| "dial_at io C X ccfg verifier force established c (Tunnelled a) \<longleftrightarrow>
     (\<exists>outcome a0. opened_by io C X ccfg verifier force c outcome \<and> co_server_pk outcome \<in> established \<and>
       forward_start io (fst (dc_app c)) (snd (dc_app c)) (co_conn outcome) (co_expect_ack outcome) [] = Ok a0 \<and>
       (fstep io C)\<^sup>*\<^sup>* a0 a)"
| "dial_at io C X ccfg verifier force established c _ \<longleftrightarrow> True"

text \<open>A task that has read the pin and not yet come to setting it.\<close>

fun is_opening :: "('r, 'w, 'h) dial_pc \<Rightarrow> bool" where
  "is_opening (Opening _ _) = True"
| "is_opening (AwaitHello _ _) = True"
| "is_opening (SendFlight _ _ _ _ _ _) = True"
| "is_opening (StorePin _) = True"
| "is_opening _ = False"

lemma dial_at_mono:
  "dial_at io C X ccfg verifier force established c pc \<Longrightarrow> established \<subseteq> established' \<Longrightarrow>
    dial_at io C X ccfg verifier force established' c pc"
  by (cases pc) auto

lemma opened_by_update [simp]:
  "opened_by io C X ccfg verifier force (c\<lparr>dc_pc := pc\<rparr>) = opened_by io C X ccfg verifier force c"
  "task_open io C X ccfg verifier force (c\<lparr>dc_pc := pc\<rparr>) = task_open io C X ccfg verifier force c"
  by (auto simp: fun_eq_iff opened_by_def task_open_def)

lemma dial_at_update [simp]:
  "dial_at io C X ccfg verifier force established (c\<lparr>dc_pc := pc'\<rparr>) pc = dial_at io C X ccfg verifier force established c pc"
  by (cases pc) simp_all

lemma build_payload_rng: "rng_ok g \<Longrightarrow> rng_ok (snd (build_payload C S cfg spk src_ip now early g))"
  by (auto simp: build_payload_def fresh_r_def fill_random_def sbind_def Let_def split: prod.splits result.splits)

lemma client_flight_rng:
  assumes "rng_ok g"
  shows "client_zero_rtt C S cfg spk src_ip now early g = (x, g') \<Longrightarrow> rng_ok g'"
    and "client_one_rtt_finish C S cfg spk src_ip now early g = (x, g') \<Longrightarrow> rng_ok g'"
  using build_payload_rng [OF assms, of C S cfg spk src_ip now early]
  by (auto simp: client_zero_rtt_def client_one_rtt_finish_def sbind_def split: prod.splits result.splits)

text \<open>A task whose handshake fails.\<close>

definition open_fails where
  "open_fails io C X ccfg verifier force cached \<longleftrightarrow>
     (\<exists>addr now app_r app_w ortd ortd'.
       client_task io C X ccfg verifier force addr cached now app_r app_w ortd = (None, ortd'))"

lemma open_failsI:
  assumes "\<And>outcome. fst (task_open io C X ccfg verifier force c now g) \<noteq> Ok outcome"
  shows "open_fails io C X ccfg verifier force (dc_cached c)"
proof -
  obtain x s' where x: "task_open io C X ccfg verifier force c now g = (x, s')" by fastforce
  with assms have "\<And>outcome. x \<noteq> Ok outcome" by simp
  with x have "client_task io C X ccfg verifier force (dc_addr c) (dc_cached c) now app_r app_w
      \<lparr>cs_reader = fst (the (dc_ortd c)), cs_writer = snd (the (dc_ortd c)), cs_shared = g\<rparr> = (None, s')" for app_r app_w
    by (cases x) (auto simp: client_task_def task_open_def)
  then show ?thesis unfolding open_fails_def by blast
qed

text \<open>
  A step outside the critical sections keeps what is known of the task; a task that leaves the
  handshake there has failed.
\<close>

definition local_kept where
  "local_kept io C X ccfg verifier force c c' \<longleftrightarrow>
     is_opening (dc_pc c') = is_opening (dc_pc c) \<and> (is_opening (dc_pc c) \<longrightarrow> dc_cached c' = dc_cached c) \<or>
     is_opening (dc_pc c) \<and> dc_pc c' = Dropped \<and> open_fails io C X ccfg verifier force (dc_cached c)"

text \<open>The last flight of either mode is built.\<close>

lemma flight_built:
  assumes "dc_ortd c \<noteq> None" "rng_ok g" "is_opening (dc_pc c)"
    and opn: "task_open io C X ccfg verifier force c now g =
      sbind (on_shared Core m) (\<lambda>(frame, est). last_flight io frame est (ack est) server_pk) \<lparr>cs_reader = r, cs_writer = w, cs_shared = g\<rparr>"
    and m: "m g = (x, g')" and "rng_ok g'"
    and c': "c' = c\<lparr>dc_pc := case x of Ok (frame, est) \<Rightarrow> SendFlight frame est server_pk (ack est) r w | _ \<Rightarrow> Dropped\<rparr>"
  shows "dial_at io C X ccfg verifier force established c' (dc_pc c') \<and> local_kept io C X ccfg verifier force c c'"
proof (cases "\<exists>frame est. x = Ok (frame, est)")
  case True
  then obtain frame est where x: "x = Ok (frame, est)" by blast
  then have "task_open io C X ccfg verifier force c now g =
      last_flight io frame est (ack est) server_pk \<lparr>cs_reader = r, cs_writer = w, cs_shared = g'\<rparr>"
    using opn m by (simp add: sbind_def on_shared_def)
  with assms(1,2) have "dial_at io C X ccfg verifier force established c (SendFlight frame est server_pk (ack est) r w)"
    by (simp only: dial_at.simps) blast
  then show ?thesis using c' x assms(3) by (simp add: local_kept_def)
next
  case False
  then have "fst (task_open io C X ccfg verifier force c now g) \<noteq> Ok outcome" for outcome
    using opn m by (cases x) (auto simp: sbind_def on_shared_def)
  then have "open_fails io C X ccfg verifier force (dc_cached c)" by (rule open_failsI)
  moreover have "dc_pc c' = Dropped" using c' False by (cases x) auto
  ultimately show ?thesis using assms(3) by (simp add: local_kept_def)
qed

lemma dial_local_opening:
  assumes "dc_ortd c = Some (r, w)" "dc_pc c = Opening r w" "rng_ok g"
    and "dial_local io C X ccfg verifier force connected now (Opening r w) c g = (c', g')"
  shows "dial_at io C X ccfg verifier force established c' (dc_pc c') \<and> local_kept io C X ccfg verifier force c c' \<and> rng_ok g'"
proof (cases "\<exists>spk. dc_cached c = Some spk \<and> \<not> force")
  case True
  then obtain spk where spk: "dc_cached c = Some spk" "\<not> force" by blast
  let ?m = "client_zero_rtt C (V1 C) ccfg spk (local_src_ip (dc_addr c)) now []"
  obtain x g1 where x: "?m g = (x, g1)" by fastforce
  have rng: "rng_ok g1" by (rule client_flight_rng(1) [OF assms(3) x])
  have step: "g' = g1" "c' = c\<lparr>dc_pc := case x of Ok (frame, est) \<Rightarrow> SendFlight frame est spk (Some (ce_expected_ek_hash est)) r w | _ \<Rightarrow> Dropped\<rparr>"
    using assms(4) spk x by (auto split: result.splits)
  have "task_open io C X ccfg verifier force c now g = sbind (on_shared Core ?m)
      (\<lambda>(frame, est). last_flight io frame est (Some (ce_expected_ek_hash est)) spk) \<lparr>cs_reader = r, cs_writer = w, cs_shared = g\<rparr>"
    using spk assms(1) by (simp add: task_open_def client_open_zero_rtt)
  from flight_built [OF _ assms(3) _ this x rng step(2)] assms(1,2) rng step(1) show ?thesis by simp
next
  case False
  then have mode: "dc_cached c = None \<or> force" by (cases "dc_cached c") auto
  obtain x w' where x: "write_frame io (encode (client_one_rtt_hello (V1 C) ccfg)) w = (x, w')" by fastforce
  have step: "(c', g') = (case x of Ok _ \<Rightarrow> (c\<lparr>dc_pc := AwaitHello r w'\<rparr>, g) | _ \<Rightarrow> (c\<lparr>dc_pc := Dropped\<rparr>, g))"
    using assms(4) mode x by (auto split: option.splits bool.splits result.splits)
  show ?thesis
  proof (cases "x = Ok ()")
    case True
    with step x mode assms(1-3) show ?thesis by (auto simp: local_kept_def)
  next
    case False
    then have "fst (task_open io C X ccfg verifier force c now g) \<noteq> Ok outcome" for outcome
      using client_open_no_hello [OF mode x] assms(1) by (simp add: task_open_def)
    then have "open_fails io C X ccfg verifier force (dc_cached c)" by (rule open_failsI)
    with False step assms(2,3) show ?thesis by (cases x) (auto simp: local_kept_def)
  qed
qed

lemma dial_local_hello:
  assumes "dial_at io C X ccfg verifier force established c (AwaitHello r w)" "dc_pc c = AwaitHello r w" "rng_ok g"
    and "dial_local io C X ccfg verifier force connected now (AwaitHello r w) c g = (c', g')"
  shows "dial_at io C X ccfg verifier force established c' (dc_pc c') \<and> local_kept io C X ccfg verifier force c c' \<and> rng_ok g'"
proof -
  from assms(1) obtain w0 where c: "dc_ortd c = Some (r, w0)" "dc_cached c = None \<or> force"
      "write_frame io (encode (client_one_rtt_hello (V1 C) ccfg)) w0 = (Ok (), w)" by auto
  note contact = client_open_first_contact [OF c(2,3)]
  show ?thesis
  proof (cases "await_hello io X verifier (dc_cached c) r w")
    case None
    have "fst (task_open io C X ccfg verifier force c now g) \<noteq> Ok outcome" for outcome
      using contact(2) [OF None] c(1) by (simp add: task_open_def)
    then have "open_fails io C X ccfg verifier force (dc_cached c)" by (rule open_failsI)
    with None assms(2-4) show ?thesis by (auto simp: local_kept_def)
  next
    case (Some y)
    obtain server_pk r' where y: "y = (server_pk, r')" by (cases y)
    let ?m = "client_one_rtt_finish C (V1 C) ccfg server_pk (local_src_ip (dc_addr c)) now []"
    obtain x g1 where x: "?m g = (x, g1)" by fastforce
    have rng: "rng_ok g1" by (rule client_flight_rng(2) [OF assms(3) x])
    have step: "g' = g1" "c' = c\<lparr>dc_pc := case x of Ok (frame, est) \<Rightarrow> SendFlight frame est server_pk None r' w | _ \<Rightarrow> Dropped\<rparr>"
      using assms(4) Some y x by (auto split: result.splits)
    have "task_open io C X ccfg verifier force c now g = sbind (on_shared Core ?m)
        (\<lambda>(frame, est). last_flight io frame est None server_pk) \<lparr>cs_reader = r', cs_writer = w, cs_shared = g\<rparr>"
      using contact(1) [OF Some [unfolded y]] c(1) by (simp add: task_open_def)
    from flight_built [OF _ assms(3) _ this x rng, of c'] c(1) assms(2) rng step show ?thesis by simp
  qed
qed

lemma dial_local_flight:
  assumes "dial_at io C X ccfg verifier force established c (SendFlight frame est server_pk ack r w)"
    and "dc_pc c = SendFlight frame est server_pk ack r w" "rng_ok g"
    and "dial_local io C X ccfg verifier force connected now (SendFlight frame est server_pk ack r w) c g = (c', g')"
  shows "dial_at io C X ccfg verifier force established c' (dc_pc c') \<and> local_kept io C X ccfg verifier force c c' \<and> rng_ok g'"
proof -
  from assms(1) obtain now0 g0 g1 where c: "dc_ortd c \<noteq> None" "rng_ok g0" "task_open io C X ccfg verifier force c now0 g0 =
       last_flight io frame est ack server_pk \<lparr>cs_reader = r, cs_writer = w, cs_shared = g1\<rparr>" by auto
  obtain x w' where x: "write_frame io (encode frame) w = (x, w')" by fastforce
  show ?thesis
  proof (cases "x = Ok ()")
    case True
    then have "task_open io C X ccfg verifier force c now0 g0 =
        (Ok (opened_conn r w' est ack server_pk), \<lparr>cs_reader = r, cs_writer = w', cs_shared = g1\<rparr>)"
      using c(3) x by (simp add: last_flight_eq)
    with c(1,2) have "opened_by io C X ccfg verifier force c (opened_conn r w' est ack server_pk)"
      unfolding opened_by_def by blast
    with True x assms(2-4) show ?thesis by (auto simp: local_kept_def)
  next
    case False
    then have "fst (task_open io C X ccfg verifier force c now0 g0) \<noteq> Ok outcome" for outcome
      using c(3) x by (cases x) (auto simp: last_flight_eq)
    then have "open_fails io C X ccfg verifier force (dc_cached c)" by (rule open_failsI)
    with False x assms(2-4) show ?thesis by (cases x) (auto simp: local_kept_def)
  qed
qed

lemma dial_local_kept:
  assumes "dial_at io C X ccfg verifier force established c (dc_pc c)" "\<not> wants_pin (dc_pc c)" "rng_ok g"
    and "dial_local io C X ccfg verifier force connected now (dc_pc c) c g = (c', g')"
  shows "dial_at io C X ccfg verifier force established c' (dc_pc c') \<and> local_kept io C X ccfg verifier force c c' \<and> rng_ok g'"
proof (cases "dc_pc c")
  case Dial
  with assms show ?thesis by (auto simp: local_kept_def split: result.splits)
next
  case (Opening r w)
  with assms dial_local_opening show ?thesis by (metis dial_at.simps(2))
next
  case (AwaitHello r w)
  with assms dial_local_hello show ?thesis by metis
next
  case (SendFlight frame est server_pk ack r w)
  with assms dial_local_flight show ?thesis by metis
next
  case (Splice outcome)
  with assms show ?thesis by (auto simp: local_kept_def split: result.splits) (metis rtranclp.rtrancl_refl)
qed (use assms in \<open>auto simp: local_kept_def\<close>)


section \<open>The loop implements \<open>client_step\<close>\<close>

text \<open>The copies of the pin that the tasks in the handshake have.\<close>

definition opening_pins :: "('r, 'w, 'h) dial_conn list \<Rightarrow> bytes option multiset" where
  "opening_pins conns = image_mset dc_cached (filter_mset (\<lambda>c. is_opening (dc_pc c)) (mset conns))"

lemma spawned_pc [simp]: "dc_pc (spawned app) = Dial"
  by (simp add: spawned_def)

lemma opening_pins_append [simp]: "opening_pins (conns @ [spawned app]) = opening_pins conns"
  by (simp add: opening_pins_def spawned_def)

lemma opening_pins_update:
  assumes "i < length conns"
  shows "opening_pins (conns[i := c']) + (if is_opening (dc_pc (conns ! i)) then {#dc_cached (conns ! i)#} else {#}) =
    opening_pins conns + (if is_opening (dc_pc c') then {#dc_cached c'#} else {#})"
proof -
  have "conns ! i \<in># mset conns" using assms by simp
  then obtain M where M: "mset conns = add_mset (conns ! i) M" by (metis multi_member_split)
  with assms have "mset (conns[i := c']) = add_mset c' M" by (simp add: mset_update)
  with M show ?thesis by (simp add: opening_pins_def)
qed

lemma opening_pins_left:
  "i < length conns \<Longrightarrow> is_opening (dc_pc (conns ! i)) \<Longrightarrow> \<not> is_opening (dc_pc c') \<Longrightarrow>
    opening_pins conns - {#dc_cached (conns ! i)#} = opening_pins (conns[i := c'])"
  using opening_pins_update [of i conns c'] by simp (metis add_mset_remove_trivial)

lemma opening_pins_member:
  "c \<in> set conns \<Longrightarrow> is_opening (dc_pc c) \<Longrightarrow> dc_cached c \<in># opening_pins conns"
  by (auto simp: opening_pins_def)

text \<open>
  The states of the loop and those of the step relation on the pin: the same pin, the same copies
  of it in use, and every task that has left the handshake is one of the established.
\<close>

definition loop_implements where
  "loop_implements io C X ccfg verifier force st a \<longleftrightarrow> rng_ok (dl_rng st) \<and> cl_pin a = dl_pin st \<and>
     mset (cl_opening a) = opening_pins (dl_conns st) \<and>
     (\<forall>c \<in> set (dl_conns st). dial_at io C X ccfg verifier force (set (cl_established a)) c (dc_pc c))"

text \<open>A step that changes one task only, and neither the pin nor which copies of it are in use.\<close>

lemma implements_update:
  assumes "loop_implements io C X ccfg verifier force st a" "i < length (dl_conns st)" "rng_ok g"
    and "dial_at io C X ccfg verifier force (set (cl_established a)) c' (dc_pc c')"
    and "is_opening (dc_pc c') = is_opening (dc_pc (dl_conns st ! i))"
    and "is_opening (dc_pc c') \<Longrightarrow> dc_cached c' = dc_cached (dl_conns st ! i)"
  shows "loop_implements io C X ccfg verifier force (st\<lparr>dl_rng := g, dl_conns := (dl_conns st)[i := c']\<rparr>) a"
  using assms(1,3,4) opening_pins_update [OF assms(2), of c'] assms(5,6)
  unfolding loop_implements_def by (auto dest!: set_update_subset_insert [THEN subsetD] split: if_splits)

lemma implements_failed:
  assumes "loop_implements io C X ccfg verifier force st a" "i < length (dl_conns st)" "rng_ok g"
    and "is_opening (dc_pc (dl_conns st ! i))" "dc_pc c' = Dropped"
    and "open_fails io C X ccfg verifier force (dc_cached (dl_conns st ! i))"
  shows "\<exists>b. client_step io C X ccfg verifier force a b \<and>
    loop_implements io C X ccfg verifier force (st\<lparr>dl_rng := g, dl_conns := (dl_conns st)[i := c']\<rparr>) b"
proof -
  let ?cached = "dc_cached (dl_conns st ! i)" let ?b = "a\<lparr>cl_opening := remove1 ?cached (cl_opening a)\<rparr>"
  have a: "mset (cl_opening a) = opening_pins (dl_conns st)" using assms(1) by (simp add: loop_implements_def)
  then have "?cached \<in> set (cl_opening a)"
    using opening_pins_member [OF nth_mem [OF assms(2)] assms(4)] by (metis set_mset_mset)
  with assms(6) have "client_step io C X ccfg verifier force a ?b"
    unfolding open_fails_def by (blast intro: client_step.failed)
  moreover have "loop_implements io C X ccfg verifier force (st\<lparr>dl_rng := g, dl_conns := (dl_conns st)[i := c']\<rparr>) ?b"
    using assms(1,3,5) opening_pins_left [OF assms(2,4), of c']
    unfolding loop_implements_def by (auto dest!: set_update_subset_insert [THEN subsetD])
  ultimately show ?thesis by blast
qed

lemma implements_local:
  assumes "loop_implements io C X ccfg verifier force st a" "i < length (dl_conns st)" "\<not> wants_pin (dc_pc (dl_conns st ! i))"
    and "dial_local io C X ccfg verifier force connected now (dc_pc (dl_conns st ! i)) (dl_conns st ! i) (dl_rng st) = (c', g')"
  shows "\<exists>b. (client_step io C X ccfg verifier force)\<^sup>*\<^sup>* a b \<and>
    loop_implements io C X ccfg verifier force (st\<lparr>dl_rng := g', dl_conns := (dl_conns st)[i := c']\<rparr>) b"
proof -
  have kept: "dial_at io C X ccfg verifier force (set (cl_established a)) c' (dc_pc c')"
      "local_kept io C X ccfg verifier force (dl_conns st ! i) c'" "rng_ok g'"
    using dial_local_kept [OF _ assms(3) _ assms(4), of "set (cl_established a)"] assms(1,2) by (auto simp: loop_implements_def)
  from kept(2) show ?thesis
    unfolding local_kept_def
    using implements_update [OF assms(1,2) kept(3,1)] implements_failed [OF assms(1,2) kept(3), of c'] by blast
qed

lemma implements_locked:
  assumes "loop_implements io C X ccfg verifier force st a" "i < length (dl_conns st)" "wants_pin (dc_pc (dl_conns st ! i))"
    and "dial_locked (dc_pc (dl_conns st ! i)) (dl_conns st ! i) (dl_pin st) = (c', pin')"
  shows "\<exists>b. client_step io C X ccfg verifier force a b \<and>
    loop_implements io C X ccfg verifier force (st\<lparr>dl_pin := pin', dl_conns := (dl_conns st)[i := c']\<rparr>) b"
proof -
  let ?c = "dl_conns st ! i"
  have c: "dial_at io C X ccfg verifier force (set (cl_established a)) ?c (dc_pc ?c)" and a: "cl_pin a = dl_pin st"
      "mset (cl_opening a) = opening_pins (dl_conns st)"
    using assms(1,2) by (simp_all add: loop_implements_def)
  show ?thesis
  proof (cases "dc_pc ?c")
    case (LoadPin r w)
    let ?b = "a\<lparr>cl_opening := cl_pin a # cl_opening a\<rparr>"
    have "loop_implements io C X ccfg verifier force (st\<lparr>dl_pin := pin', dl_conns := (dl_conns st)[i := c']\<rparr>) ?b"
      using assms(1,4) opening_pins_update [OF assms(2), of c'] LoadPin c
      unfolding loop_implements_def by (auto dest!: set_update_subset_insert [THEN subsetD])
    then show ?thesis using client_step.read_pin by blast
  next
    case (StorePin outcome)
    with c obtain now g s' where "task_open io C X ccfg verifier force ?c now g = (Ok outcome, s')"
      by (auto simp: opened_by_def)
    then have task: "client_task io C X ccfg verifier force (dc_addr ?c) (dc_cached ?c) now (fst (dc_app ?c)) (snd (dc_app ?c))
        \<lparr>cs_reader = fst (the (dc_ortd ?c)), cs_writer = snd (the (dc_ortd ?c)), cs_shared = g\<rparr> =
        (Some (co_server_pk outcome, forward_start io (fst (dc_app ?c)) (snd (dc_app ?c)) (co_conn outcome) (co_expect_ack outcome) []), s')"
      by (simp add: client_task_def task_open_def)
    have "dc_cached ?c \<in> set (cl_opening a)"
      using opening_pins_member [OF nth_mem [OF assms(2)]] StorePin a(2) by (metis is_opening.simps(4) set_mset_mset)
    note step = client_step.opened [OF this task]
    have "loop_implements io C X ccfg verifier force (st\<lparr>dl_pin := pin', dl_conns := (dl_conns st)[i := c']\<rparr>)
        (a\<lparr>cl_opening := remove1 (dc_cached ?c) (cl_opening a), cl_pin := remember_pin (co_server_pk outcome) (cl_pin a),
           cl_established := co_server_pk outcome # cl_established a\<rparr>)"
      using assms(1,4) opening_pins_left [OF assms(2), of c'] StorePin c
      unfolding loop_implements_def
      by (auto dest!: set_update_subset_insert [THEN subsetD] intro: dial_at_mono)
    with step show ?thesis by blast
  qed (use assms(3) in auto)
qed

lemma implements_step:
  assumes "loop_implements io C X ccfg verifier force st a" "dial_step io C X ccfg verifier force st st'"
  shows "\<exists>b. (client_step io C X ccfg verifier force)\<^sup>*\<^sup>* a b \<and> loop_implements io C X ccfg verifier force st' b"
  using assms(2)
proof (cases rule: dial_step.cases)
  case (accept app)
  with assms(1) have "loop_implements io C X ccfg verifier force st' a"
    by (auto simp: loop_implements_def)
  then show ?thesis by blast
next
  case (local i c connected now c' g')
  with implements_local [OF assms(1), of i connected now c' g'] show ?thesis by simp
next
  case (locked i c c' pin')
  with implements_locked [OF assms(1), of i c' pin'] show ?thesis by (metis r_into_rtranclp)
next
  case (forward i c t u)
  have c: "dial_at io C X ccfg verifier force (set (cl_established a)) c (Tunnelled t)" "rng_ok (dl_rng st)"
    using assms(1) forward unfolding loop_implements_def by (metis nth_mem)+
  then have "dial_at io C X ccfg verifier force (set (cl_established a)) c (Tunnelled u)"
    using forward(5) by (simp only: dial_at.simps) (meson rtranclp.rtrancl_into_rtrancl)
  with implements_update [OF assms(1) forward(2) c(2), of "c\<lparr>dc_pc := Tunnelled u\<rparr>"] forward show ?thesis by auto
qed

interpretation dialling: forward_simulation "dial_step io C X ccfg verifier force" "client_step io C X ccfg verifier force"
    "loop_implements io C X ccfg verifier force"
  for io C X ccfg verifier force
  by unfold_locales (rule implements_step)

lemma implements_start: "rng_ok g \<Longrightarrow> loop_implements io C X ccfg verifier force (run_client_start g) run_client_init"
  by (simp add: loop_implements_def run_client_start_def run_client_init_def opening_pins_def)


section \<open>The pin stays\<close>

text \<open>Tasks that have not read the pin yet.\<close>

fun before_pin :: "('r, 'w, 'h) dial_pc \<Rightarrow> bool" where
  "before_pin Dial = True"
| "before_pin (LoadPin _ _) = True"
| "before_pin _ = False"

text \<open>
  The pin is \<open>pk\<close>, and so is the copy of every task that has read it, those apart that had read it
  in the state with the connections \<open>old\<close> already.
\<close>

definition uses_pin :: "bytes \<Rightarrow> ('r, 'w, 'h) dial_conn \<Rightarrow> bool" where
  "uses_pin pk c \<longleftrightarrow> before_pin (dc_pc c) \<or> dc_pc c = Dropped \<or> dc_cached c = Some pk"

definition pin_holds :: "bytes \<Rightarrow> ('r, 'w, 'h) dial_conn list \<Rightarrow> ('r, 'w, 'h) dial_loop \<Rightarrow> bool" where
  "pin_holds pk old st \<longleftrightarrow> dl_pin st = Some pk \<and>
     (\<forall>i < length (dl_conns st). (i < length old \<longrightarrow> before_pin (dc_pc (old ! i))) \<longrightarrow> uses_pin pk (dl_conns st ! i))"

lemma uses_pin_local:
  assumes "dial_local io C X ccfg verifier force connected now (dc_pc c) c g = (c', g')" "uses_pin pk c"
  shows "uses_pin pk c'"
  using assms
  by (cases "dc_pc c")
    (auto simp: uses_pin_def split: result.splits option.splits bool.splits prod.splits)

lemma uses_pin_locked:
  "dial_locked (dc_pc c) c (Some pk) = (c', pin') \<Longrightarrow> uses_pin pk c \<Longrightarrow> uses_pin pk c' \<and> pin' = Some pk"
  by (cases "dc_pc c") (auto simp: uses_pin_def remember_pin_def)

lemma pin_holds_update:
  assumes "pin_holds pk old st" "i < length (dl_conns st)" "uses_pin pk (dl_conns st ! i) \<Longrightarrow> uses_pin pk c'"
  shows "pin_holds pk old (st\<lparr>dl_rng := g, dl_conns := (dl_conns st)[i := c']\<rparr>)"
  using assms by (auto simp: pin_holds_def nth_list_update)

lemma pin_holds_step:
  assumes "pin_holds pk old st" "dial_step io C X ccfg verifier force st st'"
  shows "pin_holds pk old st'"
  using assms(2)
proof (cases rule: dial_step.cases)
  case (accept app)
  with assms(1) show ?thesis by (auto simp: pin_holds_def uses_pin_def nth_append less_Suc_eq)
next
  case (local i c connected now c' g')
  with pin_holds_update [OF assms(1), of i c' g'] uses_pin_local show ?thesis by metis
next
  case (locked i c c' pin')
  have "dl_pin st = Some pk" using assms(1) by (simp add: pin_holds_def)
  with locked have "pin' = Some pk" "uses_pin pk (dl_conns st ! i) \<Longrightarrow> uses_pin pk c'"
    by (cases "dc_pc c"; auto simp: remember_pin_def uses_pin_def)+
  with assms(1) locked show ?thesis by (auto simp: pin_holds_def nth_list_update)
next
  case (forward i c t u)
  with pin_holds_update [OF assms(1), of i "c\<lparr>dc_pc := Tunnelled u\<rparr>" "dl_rng st"] show ?thesis
    by (simp add: uses_pin_def)
qed

lemma pin_holds_run:
  assumes "(dial_step io C X ccfg verifier force)\<^sup>*\<^sup>* st st'" "dl_pin st = Some pk"
  shows "pin_holds pk (dl_conns st) st'"
  using assms(1)
proof (induction rule: rtranclp_induct)
  case base
  then show ?case using assms(2) by (simp add: pin_holds_def uses_pin_def)
next
  case (step t u)
  then show ?case by (blast intro: pin_holds_step)
qed


section \<open>Tasks get to forwarding\<close>

text \<open>
  Conversely, whatever \<open>client_open\<close> and \<open>client_task\<close> can do, a task of the loop can do, whatever the
  other tasks have done.
\<close>

abbreviation with_conn where
  "with_conn st i c g \<equiv> st\<lparr>dl_rng := g, dl_conns := (dl_conns st)[i := c]\<rparr>"

lemma local_run:
  assumes "i < length (dl_conns st)" "\<not> wants_pin (dc_pc c)"
    and "dial_local io C X ccfg verifier force connected now (dc_pc c) c g = (c', g')"
  shows "dial_step io C X ccfg verifier force (with_conn st i c g) (with_conn st i c' g')"
  using dial_step.local [of i "with_conn st i c g" c io C X ccfg verifier force connected now c' g'] assms by simp

lemma locked_run:
  assumes "i < length (dl_conns st)" "wants_pin (dc_pc c)" "dial_locked (dc_pc c) c (dl_pin st) = (c', pin')"
  shows "dial_step io C X ccfg verifier force (with_conn st i c g) (with_conn (st\<lparr>dl_pin := pin'\<rparr>) i c' g)"
  using dial_step.locked [of i "with_conn st i c g" c c' pin' io C X ccfg verifier force] assms by (cases st) simp

lemma last_flight_OkD:
  assumes "last_flight io frame est ack pk \<lparr>cs_reader = r, cs_writer = w, cs_shared = g\<rparr> = (Ok outcome, s')"
  obtains w' where "write_frame io (encode frame) w = (Ok (), w')" "outcome = opened_conn r w' est ack pk" "cs_shared s' = g"
  using assms by (auto simp: last_flight_eq split: prod.splits result.splits)

lemma built_flight_OkD:
  assumes "sbind (on_shared Core m) (\<lambda>(frame, est). last_flight io frame est (ack est) pk)
      \<lparr>cs_reader = r, cs_writer = w, cs_shared = g\<rparr> = (Ok outcome, s')"
  obtains frame est g' w' where "m g = (Ok (frame, est), g')" "write_frame io (encode frame) w = (Ok (), w')"
    "outcome = opened_conn r w' est (ack est) pk" "cs_shared s' = g'"
proof -
  obtain x g' where x: "m g = (x, g')" by fastforce
  with assms obtain frame est where "x = Ok (frame, est)"
    "last_flight io frame est (ack est) pk \<lparr>cs_reader = r, cs_writer = w, cs_shared = g'\<rparr> = (Ok outcome, s')"
    by (cases x) (auto simp: sbind_def on_shared_def)
  with x that show thesis by (metis last_flight_OkD)
qed

lemma flight_run:
  assumes "i < length (dl_conns st)" "dc_pc c = SendFlight frame est pk ack r w" "write_frame io (encode frame) w = (Ok (), w')"
  shows "dial_step io C X ccfg verifier force (with_conn st i c g)
    (with_conn st i (c\<lparr>dc_pc := StorePin (opened_conn r w' est ack pk)\<rparr>) g)"
  by (rule local_run [OF assms(1), where connected = Panic and now = 0]) (simp_all add: assms(2,3))

lemma opening_completes:
  assumes i: "i < length (dl_conns st)" and c: "dc_pc c = Opening r w"
    and run: "client_open io C X ccfg (local_src_ip (dc_addr c)) (dc_cached c) force verifier now []
      \<lparr>cs_reader = r, cs_writer = w, cs_shared = g\<rparr> = (Ok outcome, s')"
  shows "(dial_step io C X ccfg verifier force)\<^sup>*\<^sup>* (with_conn st i c g) (with_conn st i (c\<lparr>dc_pc := StorePin outcome\<rparr>) (cs_shared s'))"
proof (cases "\<exists>spk. dc_cached c = Some spk \<and> \<not> force")
  case True
  then obtain spk where spk: "dc_cached c = Some spk" "\<not> force" by blast
  let ?ack = "\<lambda>est. Some (ce_expected_ek_hash est)"
  obtain frame est g' w' where f: "client_zero_rtt C (V1 C) ccfg spk (local_src_ip (dc_addr c)) now [] g = (Ok (frame, est), g')"
      "write_frame io (encode frame) w = (Ok (), w')" "outcome = opened_conn r w' est (?ack est) spk" "cs_shared s' = g'"
    using run spk by (auto simp: client_open_zero_rtt elim: built_flight_OkD)
  let ?c = "c\<lparr>dc_pc := SendFlight frame est spk (?ack est) r w\<rparr>"
  have "dial_step io C X ccfg verifier force (with_conn st i c g) (with_conn st i ?c g')"
    by (rule local_run [OF i, where connected = Panic and now = now]) (simp_all add: c spk f(1))
  moreover have "dial_step io C X ccfg verifier force (with_conn st i ?c g') (with_conn st i (c\<lparr>dc_pc := StorePin outcome\<rparr>) g')"
    using flight_run [OF i _ f(2), of ?c est spk "?ack est" r C X ccfg verifier force g'] f(3) by simp
  ultimately show ?thesis unfolding f(4) by (rule converse_rtranclp_into_rtranclp [OF _ r_into_rtranclp])
next
  case False
  then have mode: "dc_cached c = None \<or> force" by (cases "dc_cached c") auto
  obtain w1 where hello: "write_frame io (encode (client_one_rtt_hello (V1 C) ccfg)) w = (Ok (), w1)"
    using client_open_no_hello [OF mode] run by (metis fst_conv surj_pair)
  note contact = client_open_first_contact [OF mode hello]
  obtain pk r' where pk: "await_hello io X verifier (dc_cached c) r w1 = Some (pk, r')"
    using contact(2) run by (metis fst_conv not_Some_eq surj_pair)
  obtain frame est g' w' where f: "client_one_rtt_finish C (V1 C) ccfg pk (local_src_ip (dc_addr c)) now [] g = (Ok (frame, est), g')"
      "write_frame io (encode frame) w1 = (Ok (), w')" "outcome = opened_conn r' w' est None pk" "cs_shared s' = g'"
    using run by (auto simp: contact(1) [OF pk] elim: built_flight_OkD [where ack = "\<lambda>_. None"])
  let ?c1 = "c\<lparr>dc_pc := AwaitHello r w1\<rparr>" and ?c2 = "c\<lparr>dc_pc := SendFlight frame est pk None r' w1\<rparr>"
  have "dial_step io C X ccfg verifier force (with_conn st i c g) (with_conn st i ?c1 g)"
    by (rule local_run [OF i, where connected = Panic and now = now])
      (use mode in \<open>auto simp: c hello split: option.split bool.split\<close>)
  moreover have "dial_step io C X ccfg verifier force (with_conn st i ?c1 g) (with_conn st i ?c2 g')"
    by (rule local_run [OF i, where connected = Panic and now = now]) (simp_all add: pk f(1))
  moreover have "dial_step io C X ccfg verifier force (with_conn st i ?c2 g') (with_conn st i (c\<lparr>dc_pc := StorePin outcome\<rparr>) g')"
    using flight_run [OF i _ f(2), of ?c2 est pk None r' C X ccfg verifier force g'] f(3) by simp
  ultimately show ?thesis
    unfolding f(4) by (rule converse_rtranclp_into_rtranclp [OF _ converse_rtranclp_into_rtranclp [OF _ r_into_rtranclp]])
qed

text \<open>A new connection, from the accept to the forwarder.\<close>

definition tunnelled_conn where
  "tunnelled_conn app ortd addr cached a0 =
     \<lparr>dc_app = app, dc_ortd = Some ortd, dc_addr = addr, dc_cached = cached, dc_pc = Tunnelled a0\<rparr>"

lemma new_conn_forwards:
  assumes "(fstep io C)\<^sup>*\<^sup>* a b"
  shows "(dial_step io C X ccfg verifier force)\<^sup>*\<^sup>* (st\<lparr>dl_conns := conns @ [tunnelled_conn app ortd addr cached a]\<rparr>)
    (st\<lparr>dl_conns := conns @ [tunnelled_conn app ortd addr cached b]\<rparr>)"
  using assms
proof (induction rule: rtranclp_induct)
  case (step b c)
  have "dial_step io C X ccfg verifier force (st\<lparr>dl_conns := conns @ [tunnelled_conn app ortd addr cached b]\<rparr>)
      (st\<lparr>dl_conns := conns @ [tunnelled_conn app ortd addr cached c]\<rparr>)"
    using dial_step.forward [of "length conns" "st\<lparr>dl_conns := conns @ [tunnelled_conn app ortd addr cached b]\<rparr>"
        "tunnelled_conn app ortd addr cached b" b io C c X ccfg verifier force] step(2)
    by (simp add: tunnelled_conn_def)
  with step(3) show ?case by (rule rtranclp.rtrancl_into_rtrancl)
qed simp

lemma new_conn_completes:
  assumes "client_task io C X ccfg verifier force addr (dl_pin st) now app_r app_w
      \<lparr>cs_reader = r, cs_writer = w, cs_shared = dl_rng st\<rparr> = (Some (pk, Ok a0), s')"
  shows "(dial_step io C X ccfg verifier force)\<^sup>*\<^sup>* st (st\<lparr>dl_pin := remember_pin pk (dl_pin st), dl_rng := cs_shared s',
      dl_conns := dl_conns st @ [tunnelled_conn (app_r, app_w) (r, w) addr (dl_pin st) a0]\<rparr>)"
proof -
  let ?step = "dial_step io C X ccfg verifier force" and ?i = "length (dl_conns st)" and ?g = "dl_rng st"
  let ?st = "st\<lparr>dl_conns := dl_conns st @ [spawned (app_r, app_w)]\<rparr>"
  let ?c = "\<lambda>cached pc. \<lparr>dc_app = (app_r, app_w), dc_ortd = Some (r, w), dc_addr = addr, dc_cached = cached, dc_pc = pc\<rparr>"
  obtain outcome where opn: "client_open io C X ccfg (local_src_ip addr) (dl_pin st) force verifier now []
      \<lparr>cs_reader = r, cs_writer = w, cs_shared = ?g\<rparr> = (Ok outcome, s')"
    and start: "pk = co_server_pk outcome" "forward_start io app_r app_w (co_conn outcome) (co_expect_ack outcome) [] = Ok a0"
    using assms by (auto simp: client_task_def split: prod.splits result.splits)
  have i: "?i < length (dl_conns ?st)" by simp
  have "?step st (with_conn ?st ?i (spawned (app_r, app_w)) ?g)"
    using dial_step.accept [of io C X ccfg verifier force st "(app_r, app_w)"] by simp
  moreover have "?step (with_conn ?st ?i (spawned (app_r, app_w)) ?g) (with_conn ?st ?i (?c None (LoadPin r w)) ?g)"
    by (rule local_run [OF i, where connected = "Ok (r, w, addr)" and now = now]) (simp_all add: spawned_def)
  moreover have "?step (with_conn ?st ?i (?c None (LoadPin r w)) ?g) (with_conn ?st ?i (?c (dl_pin st) (Opening r w)) ?g)"
    using locked_run [OF i, of "?c None (LoadPin r w)" "?c (dl_pin st) (Opening r w)" "dl_pin st" io C X ccfg verifier force ?g] by simp
  moreover have "?step\<^sup>*\<^sup>* (with_conn ?st ?i (?c (dl_pin st) (Opening r w)) ?g)
      (with_conn ?st ?i (?c (dl_pin st) (StorePin outcome)) (cs_shared s'))"
    using opening_completes [OF i, of "?c (dl_pin st) (Opening r w)" r w io C X ccfg force verifier now ?g outcome s'] opn by simp
  moreover have "?step (with_conn ?st ?i (?c (dl_pin st) (StorePin outcome)) (cs_shared s'))
      (with_conn (?st\<lparr>dl_pin := remember_pin pk (dl_pin st)\<rparr>) ?i (?c (dl_pin st) (Splice outcome)) (cs_shared s'))"
    by (rule locked_run [OF i]) (simp_all add: start(1))
  moreover have "?step (with_conn (?st\<lparr>dl_pin := remember_pin pk (dl_pin st)\<rparr>) ?i (?c (dl_pin st) (Splice outcome)) (cs_shared s'))
      (st\<lparr>dl_pin := remember_pin pk (dl_pin st), dl_rng := cs_shared s',
        dl_conns := dl_conns st @ [tunnelled_conn (app_r, app_w) (r, w) addr (dl_pin st) a0]\<rparr>)"
    using local_run [of ?i "?st\<lparr>dl_pin := remember_pin pk (dl_pin st)\<rparr>" "?c (dl_pin st) (Splice outcome)" io C X ccfg verifier force
        Panic now "cs_shared s'" "?c (dl_pin st) (Tunnelled a0)" "cs_shared s'"] start(2)
    by (cases st) (simp add: tunnelled_conn_def)
  ultimately show ?thesis
    by (elim converse_rtranclp_into_rtranclp rtranclp_trans r_into_rtranclp)
qed

section \<open>Properties\<close>

lemma tunnelled_task:
  assumes "dial_at io C X ccfg verifier force established c (Tunnelled t)"
  obtains now g s' pk a0 where "rng_ok g"
    "client_task io C X ccfg verifier force (dc_addr c) (dc_cached c) now (fst (dc_app c)) (snd (dc_app c))
      \<lparr>cs_reader = fst (the (dc_ortd c)), cs_writer = snd (the (dc_ortd c)), cs_shared = g\<rparr> = (Some (pk, Ok a0), s')"
    "(fstep io C)\<^sup>*\<^sup>* a0 t" "pk \<in> established" "\<forall>pin. dc_cached c = Some pin \<longrightarrow> pk = pin"
proof -
  from assms obtain outcome a0 where o: "opened_by io C X ccfg verifier force c outcome" "co_server_pk outcome \<in> established"
      "forward_start io (fst (dc_app c)) (snd (dc_app c)) (co_conn outcome) (co_expect_ack outcome) [] = Ok a0"
      "(fstep io C)\<^sup>*\<^sup>* a0 t" by auto
  from o(1) obtain now g s' where run: "rng_ok g" "task_open io C X ccfg verifier force c now g = (Ok outcome, s')"
    by (auto simp: opened_by_def)
  from client_open_OkD [OF run(2) [unfolded task_open_def]]
  have "\<forall>pin. dc_cached c = Some pin \<longrightarrow> co_server_pk outcome = pin" by blast
  then show thesis
    using that [OF run(1) _ o(4,2), of now s'] run(2) o(3) by (simp add: client_task_def task_open_def)
qed

text \<open>A task that forwards is a run of \<open>client_task\<close>.\<close>

lemma forwarding_client_task:
  assumes "rng_ok g" "(dial_step io C X ccfg verifier force)\<^sup>*\<^sup>* (run_client_start g) st"
    and "c \<in> set (dl_conns st)" "dc_pc c = Tunnelled t"
  obtains a now g' s' pk a0 where "(client_step io C X ccfg verifier force)\<^sup>*\<^sup>* run_client_init a" "rng_ok g'"
    "client_task io C X ccfg verifier force (dc_addr c) (dc_cached c) now (fst (dc_app c)) (snd (dc_app c))
      \<lparr>cs_reader = fst (the (dc_ortd c)), cs_writer = snd (the (dc_ortd c)), cs_shared = g'\<rparr> = (Some (pk, Ok a0), s')"
    "(fstep io C)\<^sup>*\<^sup>* a0 t" "pk \<in> set (cl_established a)" "\<forall>pin. dc_cached c = Some pin \<longrightarrow> pk = pin"
proof -
  obtain a where a: "(client_step io C X ccfg verifier force)\<^sup>*\<^sup>* run_client_init a" "loop_implements io C X ccfg verifier force st a"
    using dialling.run_simulated [OF assms(2) implements_start [OF assms(1)]] by blast
  have "dial_at io C X ccfg verifier force (set (cl_established a)) c (Tunnelled t)"
    using a(2) assms(3,4) unfolding loop_implements_def by metis
  then show thesis by (rule tunnelled_task) (rule that [OF a(1)])
qed

text \<open>A run of the sample client: one connection, on first contact.\<close>

lemma sample_dial_run:
  obtains st pk t where
    "(dial_step sample_io sample_crates sample_x509 sample_client (Strict None) False)\<^sup>*\<^sup>* (run_client_start sample_rng) st"
    "length (dl_conns st) = 1" "dc_pc (dl_conns st ! 0) = Tunnelled t" "dl_pin st = Some pk"
proof -
  let ?ortd = "\<lparr>cs_reader = (encode_framed (encode sample_hello), None), cs_writer = ([], True), cs_shared = sample_rng\<rparr>"
  obtain co s where co: "client_open sample_io sample_crates sample_x509 sample_client (replicate 16 0) None False (Strict None) 7 []
      ?ortd = (Ok co, s)"
    by (rule sample_client_run)
  obtain t where t: "forward_start sample_io ([], None) ([], True) (co_conn co) (co_expect_ack co) [] = Ok t"
    using forward_start_eq [OF sample_io_ok(2), of "([], True)"] by (metis snd_conv)
  let ?st = "run_client_start sample_rng"
  have "client_task sample_io sample_crates sample_x509 sample_client (Strict None) False None (dl_pin ?st) 7 ([], None) ([], True)
      \<lparr>cs_reader = (encode_framed (encode sample_hello), None), cs_writer = ([], True), cs_shared = dl_rng ?st\<rparr> =
      (Some (co_server_pk co, Ok t), s)"
    using co t by (simp add: client_task_def local_src_ip_def run_client_start_def)
  from new_conn_completes [OF this] show thesis
    by (rule that) (simp_all add: run_client_start_def tunnelled_conn_def remember_pin_def)
qed

text \<open>
  C6. The concurrent client implements the step relation on its pin. Every state that the accept
  loop and its connection tasks can reach corresponds to a state that \<open>client_step\<close> reaches: it has
  the same pin, and the tasks in the handshake hold the same copies of it. Every task that
  forwards is a run of the sequential \<open>client_task\<close> on the sockets and on the copy of the pin that
  the task has, and its key is one of the established.
\<close>

theorem dial_loop_implements_client_step:
  assumes "rng_ok g" "(dial_step io C X ccfg verifier force)\<^sup>*\<^sup>* (run_client_start g) st"
  shows "\<exists>a. (client_step io C X ccfg verifier force)\<^sup>*\<^sup>* run_client_init a \<and> cl_pin a = dl_pin st \<and>
    mset (cl_opening a) = opening_pins (dl_conns st) \<and>
    (\<forall>c \<in> set (dl_conns st). \<forall>t. dc_pc c = Tunnelled t \<longrightarrow>
      (\<exists>now g' s' pk a0. client_task io C X ccfg verifier force (dc_addr c) (dc_cached c) now (fst (dc_app c)) (snd (dc_app c))
          \<lparr>cs_reader = fst (the (dc_ortd c)), cs_writer = snd (the (dc_ortd c)), cs_shared = g'\<rparr> = (Some (pk, Ok a0), s') \<and>
        (fstep io C)\<^sup>*\<^sup>* a0 t \<and> pk \<in> set (cl_established a)))"
proof -
  obtain a where a: "(client_step io C X ccfg verifier force)\<^sup>*\<^sup>* run_client_init a" "loop_implements io C X ccfg verifier force st a"
    using dialling.run_simulated [OF assms(2) implements_start [OF assms(1)]] by blast
  have "\<exists>now g' s' pk a0. client_task io C X ccfg verifier force (dc_addr c) (dc_cached c) now (fst (dc_app c)) (snd (dc_app c))
          \<lparr>cs_reader = fst (the (dc_ortd c)), cs_writer = snd (the (dc_ortd c)), cs_shared = g'\<rparr> = (Some (pk, Ok a0), s') \<and>
        (fstep io C)\<^sup>*\<^sup>* a0 t \<and> pk \<in> set (cl_established a)" if "c \<in> set (dl_conns st)" "dc_pc c = Tunnelled t" for c t
  proof -
    have "dial_at io C X ccfg verifier force (set (cl_established a)) c (Tunnelled t)"
      using a(2) that unfolding loop_implements_def by metis
    then show ?thesis by (rule tunnelled_task) blast
  qed
  with a show ?thesis unfolding loop_implements_def by blast
qed

theorem dial_loop_implements_client_step_witness:
  "\<exists>st a c t pk. (dial_step sample_io sample_crates sample_x509 sample_client (Strict None) False)\<^sup>*\<^sup>* (run_client_start sample_rng) st \<and>
    c \<in> set (dl_conns st) \<and> dc_pc c = Tunnelled t \<and>
    (client_step sample_io sample_crates sample_x509 sample_client (Strict None) False)\<^sup>*\<^sup>* run_client_init a \<and>
    cl_pin a = dl_pin st \<and> pk \<in> set (cl_established a)"
proof -
  obtain st pk t where run: "(dial_step sample_io sample_crates sample_x509 sample_client (Strict None) False)\<^sup>*\<^sup>* (run_client_start sample_rng) st"
    and st: "length (dl_conns st) = 1" "dc_pc (dl_conns st ! 0) = Tunnelled t"
    by (rule sample_dial_run)
  have c: "dl_conns st ! 0 \<in> set (dl_conns st)" using st(1) by simp
  from dial_loop_implements_client_step [OF sample_rng_ok run] run c st(2) show ?thesis by blast
qed

text \<open>
  C12. Which keys the concurrent client talks to. In every reachable state, each task that forwards
  uses a key that the verification policy has accepted with a certificate, in this connection or
  in an earlier one. Once a pin is set it never changes, and from then on every task that reads it,
  however its steps interleave with those of others, forwards with that key only.
\<close>

theorem dial_loop_keys_trusted:
  assumes "rng_ok g" "(dial_step io C X ccfg verifier force)\<^sup>*\<^sup>* (run_client_start g) st"
    and "(dial_step io C X ccfg verifier force)\<^sup>*\<^sup>* st st'" "i < length (dl_conns st')" "c = dl_conns st' ! i" "dc_pc c = Tunnelled t"
  shows "\<exists>now g' s' pk a0 certificate.
    client_task io C X ccfg verifier force (dc_addr c) (dc_cached c) now (fst (dc_app c)) (snd (dc_app c))
      \<lparr>cs_reader = fst (the (dc_ortd c)), cs_writer = snd (the (dc_ortd c)), cs_shared = g'\<rparr> = (Some (pk, Ok a0), s') \<and>
    (fstep io C)\<^sup>*\<^sup>* a0 t \<and> sv_verify X verifier pk certificate = Ok () \<and>
    (\<forall>pin. dl_pin st = Some pin \<longrightarrow> dl_pin st' = Some pin \<and>
      ((i < length (dl_conns st) \<longrightarrow> before_pin (dc_pc (dl_conns st ! i))) \<longrightarrow> pk = pin))"
proof -
  have run: "(dial_step io C X ccfg verifier force)\<^sup>*\<^sup>* (run_client_start g) st'"
    using assms(2,3) by (rule rtranclp_trans)
  have c: "c \<in> set (dl_conns st')" using assms(4,5) by simp
  obtain a now g' s' pk a0 where a: "(client_step io C X ccfg verifier force)\<^sup>*\<^sup>* run_client_init a" and "rng_ok g'"
    and task: "client_task io C X ccfg verifier force (dc_addr c) (dc_cached c) now (fst (dc_app c)) (snd (dc_app c))
      \<lparr>cs_reader = fst (the (dc_ortd c)), cs_writer = snd (the (dc_ortd c)), cs_shared = g'\<rparr> = (Some (pk, Ok a0), s')"
      "(fstep io C)\<^sup>*\<^sup>* a0 t" "pk \<in> set (cl_established a)" "\<forall>pin. dc_cached c = Some pin \<longrightarrow> pk = pin"
    by (rule forwarding_client_task [OF assms(1) run c assms(6)])
  have "client_inv X verifier a"
    by (rule client_inv_reachable [OF a]) (simp add: client_inv_def run_client_init_def)
  with task(3) obtain certificate where "sv_verify X verifier pk certificate = Ok ()"
    unfolding client_inv_def by blast
  moreover have "dl_pin st' = Some pin \<and> ((i < length (dl_conns st) \<longrightarrow> before_pin (dc_pc (dl_conns st ! i))) \<longrightarrow> pk = pin)"
    if "dl_pin st = Some pin" for pin
    using pin_holds_run [OF assms(3) that] assms(4-6) task(4) by (auto simp: pin_holds_def uses_pin_def)
  ultimately show ?thesis using task(1,2) by blast
qed

theorem dial_loop_keys_trusted_witness:
  "\<exists>st t pk certificate. (dial_step sample_io sample_crates sample_x509 sample_client (Strict None) False)\<^sup>*\<^sup>* (run_client_start sample_rng) st \<and>
    dc_pc (dl_conns st ! 0) = Tunnelled t \<and> sv_verify sample_x509 (Strict None) pk certificate = Ok ()"
proof -
  obtain st pk t where run: "(dial_step sample_io sample_crates sample_x509 sample_client (Strict None) False)\<^sup>*\<^sup>* (run_client_start sample_rng) st"
    and st: "length (dl_conns st) = 1" "dc_pc (dl_conns st ! 0) = Tunnelled t" "dl_pin st = Some pk"
    by (rule sample_dial_run)
  have "0 < length (dl_conns st)" using st(1) by simp
  from dial_loop_keys_trusted [OF sample_rng_ok rtranclp.rtrancl_refl run this refl st(2)] run st(2) show ?thesis by blast
qed

end
