(* ===== verification/Serving.thy ===== *)
theory Serving
  imports Run
begin

text \<open>
  The server of \<open>ort-net/src/run.rs\<close> as a concurrent system: the accept loop spawns a task per
  connection; a task runs \<open>server_accept\<close> (\<open>session.rs\<close>), connects to the target and forwards.
  Each step is an accept, the local work of one task between two critical sections, or one
  critical section on the shared strike cache. The tasks interleave in any order. A task that
  has failed is \<open>Ended\<close>; a forwarder that has returned stays as it is. An error of \<open>accept\<close> ends
  the loop; a run in which it happens is one without further accepts.
\<close>

section \<open>Tasks and the loop\<close>

text \<open>
  Where a task stands. Each program counter carries the halves of the socket, and what the
  task has computed so far; a forwarder also those of the target's socket as it was connected.
\<close>

datatype ('r, 'w, 'h) task_pc =
    ReadFirst 'r 'w
  | LockFirst frame 'r 'w
  | Reply "'h server_step" 'r 'w
  | ReadSecond 'r 'w
  | LockSecond frame 'r 'w
  | Connect "('r, 'w, 'h) server_outcome"
  | Forwarding "'r \<times> 'w" "('r, 'w, 'h) fwd"
  | Ended

text \<open>The arguments of the spawned task, the peer and the accepted socket, and where it stands.\<close>

record ('r, 'w, 'h) server_conn =
  sn_peer :: ip_addr
  sn_reader :: 'r
  sn_writer :: 'w
  sn_pc :: "('r, 'w, 'h) task_pc"

record ('r, 'w, 'h) server_loop =
  sl_strike :: strike_cache
  sl_conns :: "('r, 'w, 'h) server_conn list"

definition run_server_start :: "'dk server_config \<Rightarrow> ('r, 'w, 'h) server_loop" where
  "run_server_start scfg = \<lparr>sl_strike = run_server_init scfg, sl_conns = []\<rparr>"


section \<open>Steps\<close>

definition established_conn :: "'r \<Rightarrow> 'w \<Rightarrow> 'h server_established \<Rightarrow> ('r, 'w, 'h) server_outcome" where
  "established_conn r w est =
     \<lparr>so_conn = \<lparr>oc_reader = r, oc_writer = w, oc_record = se_record est, oc_role = Server\<rparr>,
      so_early_data = se_early_data est\<rparr>"

text \<open>The steps of a task outside the critical sections; \<open>target\<close> is the outcome of connecting.\<close>

fun task_local ::
    "('r, 'w) tokio_io \<Rightarrow> ('r \<times> 'w, io_error) result \<Rightarrow> ('r, 'w, 'h) task_pc \<Rightarrow> ('r, 'w, 'h) task_pc" where
  "task_local io target (ReadFirst r w) =
     (case read_decoded io r w of Some (f, r') \<Rightarrow> LockFirst f r' w | None \<Rightarrow> Ended)"
| "task_local io target (Reply (ZeroRtt ack est) r w) =
     (case write_frame io (encode ack) w of
        (Ok _, w') \<Rightarrow> Connect (established_conn r w' est)
      | _ \<Rightarrow> Ended)"
| "task_local io target (Reply (OneRtt hello) r w) =
     (case write_frame io (encode hello) w of (Ok _, w') \<Rightarrow> ReadSecond r w' | _ \<Rightarrow> Ended)"
| "task_local io target (ReadSecond r w) =
     (case read_decoded io r w of Some (f, r') \<Rightarrow> LockSecond f r' w | None \<Rightarrow> Ended)"
| "task_local io target (Connect out) =
     (case target of
        Ok (tr, tw) \<Rightarrow>
          (case forward_start io tr tw (so_conn out) None (so_early_data out) of
             Ok b \<Rightarrow> Forwarding (tr, tw) b
           | _ \<Rightarrow> Ended)
      | _ \<Rightarrow> Ended)"
| "task_local io target pc = pc"

text \<open>The critical sections: what they do to the strike cache is \<open>use_strike\<close>.\<close>

fun task_locked ::
    "('dk, 'ek, 'sk, 'vk, 'sg, 'h) crates \<Rightarrow> 'dk server_config \<Rightarrow> ip_addr \<Rightarrow> u64 \<Rightarrow>
      ('r, 'w, 'h) task_pc \<Rightarrow> strike_cache \<Rightarrow> ('r, 'w, 'h) task_pc \<times> strike_cache" where
  "task_locked C scfg peer now (LockFirst f r w) strike =
     (case server_on_first C (V1 C) scfg f (ip_to_bytes peer) now strike of
        (Ok step, strike') \<Rightarrow> (Reply step r w, strike')
      | (_, strike') \<Rightarrow> (Ended, strike'))"
| "task_locked C scfg peer now (LockSecond f r w) strike =
     (case server_on_client_data C (V1 C) scfg f (ip_to_bytes peer) now strike of
        (Ok est, strike') \<Rightarrow> (Connect (established_conn r w est), strike')
      | (_, strike') \<Rightarrow> (Ended, strike'))"
| "task_locked C scfg peer now pc strike = (pc, strike)"

fun wants_lock :: "('r, 'w, 'h) task_pc \<Rightarrow> bool" where
  "wants_lock (LockFirst _ _ _) = True"
| "wants_lock (LockSecond _ _ _) = True"
| "wants_lock _ = False"

inductive serve_step ::
    "('r, 'w) tokio_io \<Rightarrow> ('dk, 'ek, 'sk, 'vk, 'sg, 'h) crates \<Rightarrow> 'dk server_config \<Rightarrow>
      ('r, 'w, 'h) server_loop \<Rightarrow> ('r, 'w, 'h) server_loop \<Rightarrow> bool"
  for io C scfg where
  accept: "serve_step io C scfg st (st\<lparr>sl_conns := sl_conns st @
      [\<lparr>sn_peer = peer, sn_reader = r, sn_writer = w, sn_pc = ReadFirst r w\<rparr>]\<rparr>)"
| local: "i < length (sl_conns st) \<Longrightarrow> c = sl_conns st ! i \<Longrightarrow> \<not> wants_lock (sn_pc c) \<Longrightarrow>
    serve_step io C scfg st
      (st\<lparr>sl_conns := (sl_conns st)[i := c\<lparr>sn_pc := task_local io target (sn_pc c)\<rparr>]\<rparr>)"
| locked: "i < length (sl_conns st) \<Longrightarrow> c = sl_conns st ! i \<Longrightarrow> wants_lock (sn_pc c) \<Longrightarrow>
    task_locked C scfg (sn_peer c) now (sn_pc c) (sl_strike st) = (pc, strike) \<Longrightarrow>
    serve_step io C scfg st
      (st\<lparr>sl_strike := strike, sl_conns := (sl_conns st)[i := c\<lparr>sn_pc := pc\<rparr>]\<rparr>)"
| forward: "i < length (sl_conns st) \<Longrightarrow> c = sl_conns st ! i \<Longrightarrow> sn_pc c = Forwarding target b \<Longrightarrow> fstep io C b b' \<Longrightarrow>
    serve_step io C scfg st (st\<lparr>sl_conns := (sl_conns st)[i := c\<lparr>sn_pc := Forwarding target b'\<rparr>]\<rparr>)"

inductive_cases serve_stepE: "serve_step io C scfg st st'"


section \<open>What a task has done so far\<close>

abbreviation cache_after ::
    "('dk, 'ek, 'sk, 'vk, 'sg, 'h) crates \<Rightarrow> 'dk server_config \<Rightarrow> strike_use list \<Rightarrow> strike_cache" where
  "cache_after C scfg us \<equiv> serve_uses C scfg us (run_server_init scfg)"

lemma serve_uses_append: "serve_uses C scfg (us @ vs) strike = serve_uses C scfg vs (serve_uses C scfg us strike)"
  by (induction us arbitrary: strike) simp_all

text \<open>The task of \<open>c\<close> has used the cache first as the use numbered \<open>k\<close> of \<open>us\<close>.\<close>

definition first_at where
  "first_at io C scfg us k c step r \<longleftrightarrow>
     (\<exists>f now s'. read_decoded io (sn_reader c) (sn_writer c) = Some (f, r) \<and> k < length us \<and>
       us ! k = FirstFrame f (ip_to_bytes (sn_peer c)) now \<and>
       server_on_first C (V1 C) scfg f (ip_to_bytes (sn_peer c)) now (cache_after C scfg (take k us)) = (Ok step, s'))"

text \<open>
  The task of \<open>c\<close>, whose uses of the cache are those numbered in \<open>K\<close>, has been accepted by the
  use \<open>k\<close>, and what it has computed is the outcome of \<open>server_accept\<close>, on the cache as its first
  use \<open>n\<close> found it, and with the uses that come between the two made to it meanwhile.
\<close>

definition accepted_at where
  "accepted_at io C scfg us K c out \<longleftrightarrow>
     (\<exists>n k se r w s'. K = {n, k} \<and> n \<le> k \<and> k < length us \<and> out = established_conn r w se \<and>
       use_strike C scfg (us ! k) (cache_after C scfg (take k us)) = (Some se, cs_shared s') \<and>
       server_accept io C (ip_to_bytes (sn_peer c)) scfg (use_clock (us ! n))
         (serve_uses C scfg (drop (Suc n) (take k us))) (use_clock (us ! k))
         \<lparr>cs_reader = sn_reader c, cs_writer = sn_writer c, cs_shared = cache_after C scfg (take n us)\<rparr> = (Ok out, s'))"

fun conn_at where
  "conn_at io C scfg us K c (ReadFirst r w) \<longleftrightarrow> K = {} \<and> r = sn_reader c \<and> w = sn_writer c"
| "conn_at io C scfg us K c (LockFirst f r w) \<longleftrightarrow>
     K = {} \<and> read_decoded io (sn_reader c) (sn_writer c) = Some (f, r) \<and> w = sn_writer c"
| "conn_at io C scfg us K c (Reply step r w) \<longleftrightarrow> (\<exists>k. K = {k} \<and> first_at io C scfg us k c step r) \<and> w = sn_writer c"
| "conn_at io C scfg us K c (ReadSecond r w) \<longleftrightarrow>
     (\<exists>k hello. K = {k} \<and> first_at io C scfg us k c (OneRtt hello) r \<and>
       write_frame io (encode hello) (sn_writer c) = (Ok (), w))"
| "conn_at io C scfg us K c (LockSecond f2 r2 w) \<longleftrightarrow>
     (\<exists>k hello r. K = {k} \<and> first_at io C scfg us k c (OneRtt hello) r \<and>
       write_frame io (encode hello) (sn_writer c) = (Ok (), w) \<and> read_decoded io r w = Some (f2, r2))"
| "conn_at io C scfg us K c (Connect out) \<longleftrightarrow> accepted_at io C scfg us K c out"
| "conn_at io C scfg us K c (Forwarding target b) \<longleftrightarrow>
     (\<exists>out b0. accepted_at io C scfg us K c out \<and>
       forward_start io (fst target) (snd target) (so_conn out) None (so_early_data out) = Ok b0 \<and> (fstep io C)\<^sup>*\<^sup>* b0 b)"
| "conn_at io C scfg us K c Ended \<longleftrightarrow> True"

lemma take_nth_append: "k < length us \<Longrightarrow> take k (us @ vs) = take k us \<and> (us @ vs) ! k = us ! k"
  by (simp add: nth_append)

lemma first_at_mono: "first_at io C scfg us k c step r \<Longrightarrow> first_at io C scfg (us @ vs) k c step r"
  unfolding first_at_def by (metis take_nth_append length_append trans_less_add1)

lemma accepted_at_mono:
  assumes "accepted_at io C scfg us K c out"
  shows "accepted_at io C scfg (us @ vs) K c out"
proof -
  from assms obtain n k se r w s' where at: "K = {n, k}" "n \<le> k" "k < length us" "out = established_conn r w se"
      "use_strike C scfg (us ! k) (cache_after C scfg (take k us)) = (Some se, cs_shared s')"
      "server_accept io C (ip_to_bytes (sn_peer c)) scfg (use_clock (us ! n))
         (serve_uses C scfg (drop (Suc n) (take k us))) (use_clock (us ! k))
         \<lparr>cs_reader = sn_reader c, cs_writer = sn_writer c, cs_shared = cache_after C scfg (take n us)\<rparr> = (Ok out, s')"
    unfolding accepted_at_def by blast
  have "take k (us @ vs) = take k us" "take n (us @ vs) = take n us" "(us @ vs) ! k = us ! k" "(us @ vs) ! n = us ! n"
    using take_nth_append at(2,3) by (simp_all add: nth_append)
  with at show ?thesis
    unfolding accepted_at_def by (intro exI [of _ n] exI [of _ k] exI [of _ se] exI [of _ r] exI [of _ w] exI [of _ s']) simp
qed

lemma conn_at_mono: "conn_at io C scfg us K c pc \<Longrightarrow> conn_at io C scfg (us @ vs) K c pc"
  by (cases pc) (auto intro: first_at_mono accepted_at_mono)


section \<open>Each task runs \<open>server_accept\<close>\<close>

lemma server_accept_zero_rtt:
  assumes "read_decoded io r0 w0 = Some (f, r)"
    and "server_on_first C (V1 C) scfg f peer now1 strike = (Ok (ZeroRtt ack est), strike')"
    and "write_frame io (encode ack) w0 = (Ok (), w)"
  shows "server_accept io C peer scfg now1 others now2 \<lparr>cs_reader = r0, cs_writer = w0, cs_shared = strike\<rparr> =
    (Ok (established_conn r w est), \<lparr>cs_reader = r, cs_writer = w, cs_shared = strike'\<rparr>)"
  using read_decoded_next [OF assms(1), of strike] assms(2,3)
  by (auto simp: server_accept_def established_conn_def on_shared_def on_writer_def sbind_def)

lemma server_accept_one_rtt:
  assumes "read_decoded io r0 w0 = Some (f, r)"
    and "server_on_first C (V1 C) scfg f peer now1 strike = (Ok (OneRtt hello), strike')"
    and "write_frame io (encode hello) w0 = (Ok (), w)" "read_decoded io r w = Some (f2, r2)"
    and "server_on_client_data C (V1 C) scfg f2 peer now2 (others strike') = (Ok est, strike'')"
  shows "server_accept io C peer scfg now1 others now2 \<lparr>cs_reader = r0, cs_writer = w0, cs_shared = strike\<rparr> =
    (Ok (established_conn r2 w est), \<lparr>cs_reader = r2, cs_writer = w, cs_shared = strike''\<rparr>)"
  using read_decoded_next [OF assms(1), of strike] read_decoded_next [OF assms(4), of strike'] assms(2,3,5)
  by (auto simp: server_accept_def established_conn_def on_shared_def on_writer_def sbind_def)

lemma conn_at_local:
  assumes "conn_at io C scfg us K c pc" "\<not> wants_lock pc"
  shows "conn_at io C scfg us K c (task_local io target pc)"
proof (cases "(io, target, pc)" rule: task_local.cases)
  case (2 io' target' ack est r w)
  show ?thesis
  proof (cases "write_frame io (encode ack) w")
    case (Pair x w')
    have "accepted_at io C scfg us K c (established_conn r w' est)" if ok: "x = Ok ()"
    proof -
      from assms(1) 2 obtain k f now s' where f: "read_decoded io (sn_reader c) (sn_writer c) = Some (f, r)" "k < length us"
          "us ! k = FirstFrame f (ip_to_bytes (sn_peer c)) now" "w = sn_writer c" "K = {k}"
          "server_on_first C (V1 C) scfg f (ip_to_bytes (sn_peer c)) now (cache_after C scfg (take k us)) = (Ok (ZeroRtt ack est), s')"
        by (auto simp: first_at_def)
      have "server_accept io C (ip_to_bytes (sn_peer c)) scfg now (serve_uses C scfg (drop (Suc k) (take k us))) now
          \<lparr>cs_reader = sn_reader c, cs_writer = sn_writer c, cs_shared = cache_after C scfg (take k us)\<rparr> =
          (Ok (established_conn r w' est), \<lparr>cs_reader = r, cs_writer = w', cs_shared = s'\<rparr>)"
        using server_accept_zero_rtt [OF f(1,6)] Pair ok f(4) by simp
      with f(2,3,5,6) show ?thesis
        unfolding accepted_at_def
        by (intro exI [of _ k] exI [of _ est] exI [of _ r] exI [of _ w'] exI [of _ "\<lparr>cs_reader = r, cs_writer = w', cs_shared = s'\<rparr>"]) simp
    qed
    then show ?thesis using 2 Pair by (cases x) auto
  qed
qed (use assms in \<open>auto simp: split: option.splits prod.splits result.splits\<close>)

text \<open>The use that a critical section makes of the cache.\<close>

fun lock_use :: "ip_addr \<Rightarrow> u64 \<Rightarrow> ('r, 'w, 'h) task_pc \<Rightarrow> strike_use" where
  "lock_use peer now (LockSecond f r w) = SecondFrame f (ip_to_bytes peer) now"
| "lock_use peer now (LockFirst f r w) = FirstFrame f (ip_to_bytes peer) now"

lemma task_locked_cache:
  assumes "wants_lock pc" "task_locked C scfg peer now pc strike = (pc', strike')"
  shows "strike' = snd (use_strike C scfg (lock_use peer now pc) strike)"
  using assms
  by (cases pc) (auto split: prod.splits result.splits server_step.splits)

lemma conn_at_locked:
  assumes "conn_at io C scfg us K c pc" "wants_lock pc"
    and "task_locked C scfg (sn_peer c) now pc (cache_after C scfg us) = (pc', strike')"
  shows "conn_at io C scfg (us @ [lock_use (sn_peer c) now pc]) (insert (length us) K) c pc'"
proof (cases pc)
  case (LockFirst f r w)
  with assms(1,3) show ?thesis
    by (auto simp: first_at_def split: prod.splits result.splits)
next
  case (LockSecond f2 r2 w)
  let ?u = "SecondFrame f2 (ip_to_bytes (sn_peer c)) now"
  show ?thesis
  proof (cases "server_on_client_data C (V1 C) scfg f2 (ip_to_bytes (sn_peer c)) now (cache_after C scfg us)")
    case (Pair x s2)
    show ?thesis
    proof (cases x)
      case (Ok est)
      from assms(1) LockSecond obtain k hello r f now1 s' where first: "read_decoded io (sn_reader c) (sn_writer c) = Some (f, r)"
          "server_on_first C (V1 C) scfg f (ip_to_bytes (sn_peer c)) now1 (cache_after C scfg (take k us)) = (Ok (OneRtt hello), s')"
          "write_frame io (encode hello) (sn_writer c) = (Ok (), w)" "read_decoded io r w = Some (f2, r2)"
        and k: "k < length us" "us ! k = FirstFrame f (ip_to_bytes (sn_peer c)) now1" "K = {k}"
        by (auto simp: first_at_def)
      have s': "s' = cache_after C scfg (take k us)" using server_on_first_OkD [OF first(2)] by simp
      have "us = take k us @ us ! k # drop (Suc k) us" using k(1) by (rule id_take_nth_drop)
      then have "cache_after C scfg us = serve_uses C scfg (drop (Suc k) us) (snd (use_strike C scfg (us ! k) (cache_after C scfg (take k us))))"
        by (metis serve_uses_append serve_uses.simps(2))
      then have "cache_after C scfg us = serve_uses C scfg (drop (Suc k) us) s'"
        using first(2) k(2) by simp
      then have "server_accept io C (ip_to_bytes (sn_peer c)) scfg now1 (serve_uses C scfg (drop (Suc k) us)) now
          \<lparr>cs_reader = sn_reader c, cs_writer = sn_writer c, cs_shared = cache_after C scfg (take k us)\<rparr> =
          (Ok (established_conn r2 w est), \<lparr>cs_reader = r2, cs_writer = w, cs_shared = s2\<rparr>)"
        using server_accept_one_rtt [OF first(1-4), of now "serve_uses C scfg (drop (Suc k) us)" est s2] Pair Ok by simp
      moreover have "use_strike C scfg ?u (cache_after C scfg us) = (Some est, s2)"
        using Pair Ok by simp
      ultimately have "accepted_at io C scfg (us @ [?u]) {k, length us} c (established_conn r2 w est)"
        using k(1,2) unfolding accepted_at_def
        by (intro exI [of _ k] exI [of _ "length us"] exI [of _ est] exI [of _ r2] exI [of _ w]
            exI [of _ "\<lparr>cs_reader = r2, cs_writer = w, cs_shared = s2\<rparr>"]) (simp add: nth_append)
      then show ?thesis
        using LockSecond assms(3) Pair Ok k(3) by (auto simp: insert_commute)
    qed (use assms(3) LockSecond Pair in auto)
  qed
qed (use assms(2) in auto)


section \<open>Invariant of the loop\<close>

text \<open>
  The log of a run has an entry for every use of the cache, with the number of the task that made
  it; \<open>uses_by i\<close> are the positions of the uses of task \<open>i\<close>.
\<close>

type_synonym use_log = "(nat \<times> strike_use) list"

definition uses_by :: "nat \<Rightarrow> use_log \<Rightarrow> nat set" where
  "uses_by i log = {j. j < length log \<and> fst (log ! j) = i}"

lemma uses_by_append:
  "uses_by i (log @ [(j, u)]) = (if i = j then insert (length log) (uses_by i log) else uses_by i log)"
  by (auto simp: uses_by_def nth_append)

definition loop_inv where
  "loop_inv io C scfg log st \<longleftrightarrow> sl_strike st = cache_after C scfg (map snd log) \<and>
     (\<forall>j < length log. fst (log ! j) < length (sl_conns st)) \<and>
     (\<forall>i < length (sl_conns st). conn_at io C scfg (map snd log) (uses_by i log) (sl_conns st ! i) (sn_pc (sl_conns st ! i)))"

lemma conn_at_update: "conn_at io C scfg us K (c\<lparr>sn_pc := pc'\<rparr>) pc = conn_at io C scfg us K c pc"
  by (cases pc) (simp_all add: first_at_def accepted_at_def)

text \<open>A step of one task that does not use the cache keeps the log.\<close>

lemma loop_inv_task:
  assumes "loop_inv io C scfg log st" "i < length (sl_conns st)"
    and "conn_at io C scfg (map snd log) (uses_by i log) (sl_conns st ! i) pc"
  shows "loop_inv io C scfg log (st\<lparr>sl_conns := (sl_conns st)[i := (sl_conns st ! i)\<lparr>sn_pc := pc\<rparr>]\<rparr>)"
  using assms unfolding loop_inv_def by (simp add: nth_list_update conn_at_update)

lemma loop_inv_locked:
  assumes "loop_inv io C scfg log st" "i < length (sl_conns st)" and c: "c = sl_conns st ! i" "wants_lock (sn_pc c)"
    and "task_locked C scfg (sn_peer c) now (sn_pc c) (sl_strike st) = (pc, strike)"
  shows "loop_inv io C scfg (log @ [(i, lock_use (sn_peer c) now (sn_pc c))])
    (st\<lparr>sl_strike := strike, sl_conns := (sl_conns st)[i := c\<lparr>sn_pc := pc\<rparr>]\<rparr>)"
proof -
  let ?u = "lock_use (sn_peer c) now (sn_pc c)" and ?conns = "sl_conns st"
  from assms(1) have st: "sl_strike st = cache_after C scfg (map snd log)"
    and at: "\<And>j. j < length ?conns \<Longrightarrow> conn_at io C scfg (map snd log) (uses_by j log) (?conns ! j) (sn_pc (?conns ! j))"
    and owner: "\<forall>j < length log. fst (log ! j) < length ?conns"
    unfolding loop_inv_def by blast+
  have "strike = cache_after C scfg (map snd log @ [?u])"
    using task_locked_cache [OF c(2) assms(5)] st by (simp add: serve_uses_append)
  moreover have "conn_at io C scfg (map snd log @ [?u]) (insert (length log) (uses_by i log)) c pc"
    using conn_at_locked [OF _ c(2)] at [OF assms(2)] assms(5) c(1) st by (metis length_map)
  moreover have "\<forall>j < length (log @ [(i, ?u)]). fst ((log @ [(i, ?u)]) ! j) < length ?conns"
    using owner assms(2) by (auto simp: nth_append less_Suc_eq)
  ultimately show ?thesis
    unfolding loop_inv_def using at assms(2) c(1)
    by (simp add: nth_list_update conn_at_update conn_at_mono uses_by_append)
qed

lemma loop_inv_step:
  assumes "serve_step io C scfg st st'" "loop_inv io C scfg log st"
  shows "\<exists>new. loop_inv io C scfg (log @ new) st'"
  using assms(1)
proof (cases rule: serve_step.cases)
  case (accept peer r w)
  have "uses_by (length (sl_conns st)) log = {}"
    using assms(2) by (auto simp: loop_inv_def uses_by_def)
  then have "loop_inv io C scfg log st'"
    using assms(2) accept unfolding loop_inv_def by (auto simp: nth_append less_Suc_eq)
  then show ?thesis by (metis append_Nil2)
next
  case (local i c target)
  have "conn_at io C scfg (map snd log) (uses_by i log) c (task_local io target (sn_pc c))"
    using assms(2) local(2,3,4) unfolding loop_inv_def by (metis conn_at_local)
  then have "loop_inv io C scfg log st'"
    using loop_inv_task [OF assms(2) local(2)] local by metis
  then show ?thesis by (metis append_Nil2)
next
  case (locked i c now pc strike)
  show ?thesis
    using loop_inv_locked [OF assms(2) locked(2-5)] locked(1) by blast
next
  case (forward i c target b b')
  have "conn_at io C scfg (map snd log) (uses_by i log) (sl_conns st ! i) (Forwarding target b)"
    using assms(2) forward unfolding loop_inv_def by metis
  then have "conn_at io C scfg (map snd log) (uses_by i log) (sl_conns st ! i) (Forwarding target b')"
    using forward(5) by simp (meson rtranclp.rtrancl_into_rtrancl)
  then have "loop_inv io C scfg log st'"
    using loop_inv_task [OF assms(2) forward(2)] forward by metis
  then show ?thesis by (metis append_Nil2)
qed

lemma loop_inv_start: "loop_inv io C scfg [] (run_server_start scfg)"
  by (simp add: loop_inv_def run_server_start_def)

text \<open>The specification of the loop is its log, which grows by one use at a time.\<close>

definition log_use :: "use_log \<Rightarrow> use_log \<Rightarrow> bool" where
  "log_use log log' \<longleftrightarrow> (\<exists>e. log' = log @ [e])"

lemma log_use_run: "log_use\<^sup>*\<^sup>* log (log @ new)"
proof (induction new rule: rev_induct)
  case (snoc e new)
  have "log_use (log @ new) (log @ new @ [e])" by (simp add: log_use_def)
  with snoc show ?case by (rule rtranclp.rtrancl_into_rtrancl)
qed simp

interpretation loop: forward_simulation "serve_step io C scfg" log_use "\<lambda>st log. loop_inv io C scfg log st"
  for io C scfg
  by unfold_locales (meson loop_inv_step log_use_run)

lemma loop_inv_reachable:
  "(serve_step io C scfg)\<^sup>*\<^sup>* (run_server_start scfg) st \<Longrightarrow> \<exists>log. loop_inv io C scfg log st"
  using loop.run_simulated [of io C scfg "run_server_start scfg" st "[]"] loop_inv_start by blast


section \<open>Properties\<close>

text \<open>The session that a task holds after the handshake.\<close>

fun holds_session where
  "holds_session io C (Reply (ZeroRtt ack est) r w) se \<longleftrightarrow> est = se"
| "holds_session io C (Connect out) se \<longleftrightarrow> so_early_data out = se_early_data se \<and> oc_record (so_conn out) = se_record se"
| "holds_session io C (Forwarding target b) se \<longleftrightarrow>
     (\<exists>conn b0. forward_start io (fst target) (snd target) conn None (se_early_data se) = Ok b0 \<and> oc_record conn = se_record se \<and>
       oc_role conn = Server \<and> (fstep io C)\<^sup>*\<^sup>* b0 b)"
| "holds_session io C _ se \<longleftrightarrow> False"

fun in_session :: "('r, 'w, 'h) task_pc \<Rightarrow> bool" where
  "in_session (Reply (ZeroRtt _ _) _ _) = True"
| "in_session (Connect _) = True"
| "in_session (Forwarding _ _) = True"
| "in_session _ = False"

text \<open>The use that a session comes from is the last one of its task.\<close>

lemma accepted_at_last:
  assumes "accepted_at io C scfg us K c out"
  obtains se r w s' where "Max K \<in> K" "Max K < length us" "out = established_conn r w se"
    "use_strike C scfg (us ! Max K) (cache_after C scfg (take (Max K) us)) = (Some se, s')"
proof -
  from assms obtain n k se r w s' where "K = {n, k}" "n \<le> k" "k < length us" "out = established_conn r w se"
      "use_strike C scfg (us ! k) (cache_after C scfg (take k us)) = (Some se, s')"
    unfolding accepted_at_def by blast
  moreover from this(1,2) have "Max K = k" by (simp add: max_def)
  ultimately show thesis by (intro that [of r w se s']) simp_all
qed

lemma conn_at_session:
  assumes "conn_at io C scfg us K c pc" "in_session pc"
  shows "\<exists>se s'. Max K \<in> K \<and> Max K < length us \<and>
    use_strike C scfg (us ! Max K) (cache_after C scfg (take (Max K) us)) = (Some se, s') \<and> holds_session io C pc se"
proof (cases pc rule: in_session.cases)
  case (1 ack est r w)
  with assms(1) show ?thesis by (auto simp: first_at_def)
next
  case (2 out)
  with assms(1) have "accepted_at io C scfg us K c out" by simp
  with 2 show ?thesis by (elim accepted_at_last) (auto simp: established_conn_def)
next
  case (3 target b)
  with assms(1) obtain out b0 where b: "accepted_at io C scfg us K c out"
      "forward_start io (fst target) (snd target) (so_conn out) None (so_early_data out) = Ok b0" "(fstep io C)\<^sup>*\<^sup>* b0 b" by auto
  from b(1) obtain se r w s' where se: "Max K \<in> K" "Max K < length us" "out = established_conn r w se"
      "use_strike C scfg (us ! Max K) (cache_after C scfg (take (Max K) us)) = (Some se, s')" by (rule accepted_at_last)
  have "so_early_data out = se_early_data se" "oc_record (so_conn out) = se_record se" "oc_role (so_conn out) = Server"
    by (simp_all add: se(3) established_conn_def)
  with b(2,3) have "holds_session io C (Forwarding target b) se" by (metis holds_session.simps(3))
  with se 3 show ?thesis by blast
qed (use assms(2) in auto)


section \<open>Tasks get to forwarding\<close>

text \<open>Conversely, whatever \<open>server_accept\<close> can do, a task of the loop can do, whatever others have done.\<close>

lemma read_decoded_OkI:
  "next_body io \<lparr>cs_reader = r, cs_writer = w, cs_shared = x\<rparr> = (Ok body, s) \<Longrightarrow> decode body = Ok f \<Longrightarrow>
    \<exists>r'. read_decoded io r w = Some (f, r') \<and> s = \<lparr>cs_reader = r', cs_writer = w, cs_shared = x\<rparr>"
  by (auto simp: next_body_def outcome_iff on_part_Ok_iff) (simp add: read_decoded_def next_body_def sbind_def on_reader_def)

lemma server_accept_OkE:
  assumes "server_accept io C peer scfg now1 others now2 \<lparr>cs_reader = r0, cs_writer = w0, cs_shared = strike\<rparr> = (Ok outcome, s')"
  obtains (zero) f r ack est w where "read_decoded io r0 w0 = Some (f, r)"
    "server_on_first C (V1 C) scfg f peer now1 strike = (Ok (ZeroRtt ack est), cs_shared s')"
    "write_frame io (encode ack) w0 = (Ok (), w)" "outcome = established_conn r w est"
  | (one) f r hello w f2 r2 est where "read_decoded io r0 w0 = Some (f, r)"
    "server_on_first C (V1 C) scfg f peer now1 strike = (Ok (OneRtt hello), strike)"
    "write_frame io (encode hello) w0 = (Ok (), w)" "read_decoded io r w = Some (f2, r2)"
    "server_on_client_data C (V1 C) scfg f2 peer now2 (others strike) = (Ok est, cs_shared s')" "outcome = established_conn r2 w est"
proof -
  from assms obtain body s1 f where
      1: "next_body io \<lparr>cs_reader = r0, cs_writer = w0, cs_shared = strike\<rparr> = (Ok body, s1)" "decode body = Ok f"
    by (auto simp: server_accept_def outcome_iff)
  obtain r where r: "read_decoded io r0 w0 = Some (f, r)" "s1 = \<lparr>cs_reader = r, cs_writer = w0, cs_shared = strike\<rparr>"
    using read_decoded_OkI [OF 1] by blast
  from assms 1 r(2) obtain step strike' where step: "server_on_first C (V1 C) scfg f peer now1 strike = (Ok step, strike')"
    by (auto simp: server_accept_def outcome_iff on_part_Ok_iff)
  show thesis
  proof (cases step)
    case (ZeroRtt ack est)
    with assms 1 r step obtain w where "write_frame io (encode ack) w0 = (Ok (), w)" "outcome = established_conn r w est"
        "cs_shared s' = strike'"
      by (auto simp: server_accept_def established_conn_def outcome_iff on_part_Ok_iff)
    with zero [OF r(1)] step ZeroRtt show thesis by simp
  next
    case (OneRtt hello)
    have strike: "strike' = strike" using server_on_first_OkD [OF step] OneRtt by simp
    obtain w body2 s2 f2 est where 2: "write_frame io (encode hello) w0 = (Ok (), w)"
        "next_body io \<lparr>cs_reader = r, cs_writer = w, cs_shared = strike\<rparr> = (Ok body2, s2)" "decode body2 = Ok f2"
        "server_on_client_data C (V1 C) scfg f2 peer now2 (others (cs_shared s2)) = (Ok est, cs_shared s')"
        "outcome = established_conn (cs_reader s2) (cs_writer s2) est"
      using assms 1 r(2) step OneRtt strike
      by (auto simp: server_accept_def established_conn_def outcome_iff on_part_Ok_iff)
    obtain r2 where "read_decoded io r w = Some (f2, r2)" "s2 = \<lparr>cs_reader = r2, cs_writer = w, cs_shared = strike\<rparr>"
      using read_decoded_OkI [OF 2(2,3)] by blast
    with 2 step strike OneRtt show thesis by (intro one [OF r(1)]) auto
  qed
qed

text \<open>The loop with one more connection, at some program counter.\<close>

definition with_new where
  "with_new st strike peer r w pc =
     st\<lparr>sl_strike := strike, sl_conns := sl_conns st @ [\<lparr>sn_peer = peer, sn_reader = r, sn_writer = w, sn_pc = pc\<rparr>]\<rparr>"

lemma new_local:
  "\<not> wants_lock pc \<Longrightarrow> task_local io target pc = pc' \<Longrightarrow>
    serve_step io C scfg (with_new st strike peer r w pc) (with_new st strike peer r w pc')"
  using serve_step.local [of "length (sl_conns st)" "with_new st strike peer r w pc" _ io C scfg target]
  by (simp add: with_new_def)

lemma new_locked:
  "wants_lock pc \<Longrightarrow> task_locked C scfg peer now pc strike = (pc', strike') \<Longrightarrow>
    serve_step io C scfg (with_new st strike peer r w pc) (with_new st strike' peer r w pc')"
  using serve_step.locked [of "length (sl_conns st)" "with_new st strike peer r w pc" _ C scfg now pc' strike' io]
  by (cases st) (simp add: with_new_def)

lemma new_forward:
  "(fstep io C)\<^sup>*\<^sup>* b b' \<Longrightarrow>
    (serve_step io C scfg)\<^sup>*\<^sup>* (with_new st strike peer r w (Forwarding target b)) (with_new st strike peer r w (Forwarding target b'))"
proof (induction rule: rtranclp_induct)
  case (step b' b'')
  have "serve_step io C scfg (with_new st strike peer r w (Forwarding target b')) (with_new st strike peer r w (Forwarding target b''))"
    using serve_step.forward [of "length (sl_conns st)" "with_new st strike peer r w (Forwarding target b')" _ target b' io C b'' scfg] step(2)
    by (simp add: with_new_def)
  with step(3) show ?case by (rule rtranclp.rtrancl_into_rtrancl)
qed simp

lemma new_accepted:
  assumes "server_accept io C (ip_to_bytes peer) scfg now1 id now2
      \<lparr>cs_reader = r0, cs_writer = w0, cs_shared = strike\<rparr> = (Ok outcome, s')"
  shows "(serve_step io C scfg)\<^sup>*\<^sup>* (with_new st strike peer r0 w0 (ReadFirst r0 w0)) (with_new st (cs_shared s') peer r0 w0 (Connect outcome))"
  using assms
proof (cases rule: server_accept_OkE)
  case (zero f r ack est w)
  let ?L = "\<lambda>strike. with_new st strike peer r0 w0"
  have "serve_step io C scfg (?L strike (ReadFirst r0 w0)) (?L strike (LockFirst f r w0))"
    by (rule new_local) (simp_all add: zero(1))
  moreover have "serve_step io C scfg (?L strike (LockFirst f r w0)) (?L (cs_shared s') (Reply (ZeroRtt ack est) r w0))"
    by (rule new_locked [where now = now1]) (simp_all add: zero(2))
  moreover have "serve_step io C scfg (?L (cs_shared s') (Reply (ZeroRtt ack est) r w0)) (?L (cs_shared s') (Connect outcome))"
    by (rule new_local) (simp_all add: zero(3,4))
  ultimately show ?thesis by (elim converse_rtranclp_into_rtranclp r_into_rtranclp)
next
  case (one f r hello w f2 r2 est)
  let ?L = "\<lambda>strike. with_new st strike peer r0 w0"
  have "serve_step io C scfg (?L strike (ReadFirst r0 w0)) (?L strike (LockFirst f r w0))"
    by (rule new_local) (simp_all add: one(1))
  moreover have "serve_step io C scfg (?L strike (LockFirst f r w0)) (?L strike (Reply (OneRtt hello) r w0))"
    by (rule new_locked [where now = now1]) (simp_all add: one(2))
  moreover have "serve_step io C scfg (?L strike (Reply (OneRtt hello) r w0)) (?L strike (ReadSecond r w))"
    by (rule new_local) (simp_all add: one(3))
  moreover have "serve_step io C scfg (?L strike (ReadSecond r w)) (?L strike (LockSecond f2 r2 w))"
    by (rule new_local) (simp_all add: one(4))
  moreover have "serve_step io C scfg (?L strike (LockSecond f2 r2 w)) (?L (cs_shared s') (Connect outcome))"
    using one(5,6) by (intro new_locked [where now = now2]) simp_all
  ultimately show ?thesis by (elim converse_rtranclp_into_rtranclp r_into_rtranclp)
qed

lemma new_conn_served:
  assumes "server_task io C scfg peer now1 id now2 (Ok target) \<lparr>cs_reader = r, cs_writer = w, cs_shared = sl_strike st\<rparr> =
      (Some (Ok b0), s')" "(fstep io C)\<^sup>*\<^sup>* b0 b"
  shows "(serve_step io C scfg)\<^sup>*\<^sup>* st (with_new st (cs_shared s') peer r w (Forwarding target b))"
proof -
  obtain outcome where acc: "server_accept io C (ip_to_bytes peer) scfg now1 id now2
        \<lparr>cs_reader = r, cs_writer = w, cs_shared = sl_strike st\<rparr> = (Ok outcome, s')"
      "forward_start io (fst target) (snd target) (so_conn outcome) None (so_early_data outcome) = Ok b0"
    using assms(1) by (cases target) (auto simp: server_task_def split: prod.splits result.splits)
  have "serve_step io C scfg st (with_new st (sl_strike st) peer r w (ReadFirst r w))"
    using serve_step.accept [of io C scfg st peer r w] by (cases st) (simp add: with_new_def)
  moreover note new_accepted [OF acc(1), of st]
  moreover have "serve_step io C scfg (with_new st (cs_shared s') peer r w (Connect outcome))
      (with_new st (cs_shared s') peer r w (Forwarding target b0))"
    using acc(2) by (intro new_local [where target = "Ok target"]) (cases target; simp)+
  moreover note new_forward [OF assms(2), of scfg st "cs_shared s'" peer r w target]
  ultimately show ?thesis by (meson converse_rtranclp_into_rtranclp rtranclp_trans)
qed

lemma sample_loop_run:
  obtains st target b where
    "(serve_step sample_io sample_crates sample_server)\<^sup>*\<^sup>* (run_server_start sample_server) st"
    "length (sl_conns st) = 1" "sn_pc (sl_conns st ! 0) = Forwarding target b"
proof -
  obtain p se where se: "process_payload sample_crates (V1 sample_crates) sample_server (cc_client_pk sample_client) p
      (replicate 16 1) 1000000 (sc_new 2000) =
      (Ok se, snd (check_and_insert (payload_tag (V1 sample_crates) p) 1000000 (sc_new 2000)))"
    and fits: "frame_ok (ClientHelloZeroRtt 1 (cc_client_pk sample_client) p)"
      "length (encode (ClientHelloZeroRtt 1 (cc_client_pk sample_client) p)) \<le> MAX_FRAME"
    by (rule sample_flight)
  let ?f = "ClientHelloZeroRtt 1 (cc_client_pk sample_client) p"
  have net: "pending sample_io fst snd (encode_framed (encode ?f), None) [encode ?f]"
    using sample_pending [of "[encode ?f]"] fits(2) by simp
  obtain r where r: "read_decoded sample_io (encode_framed (encode ?f), None) ([], True) = Some (?f, r)"
    using next_body_pending [OF net, of "([], True)" "()"] decode_encode [OF fits] by (auto simp: read_decoded_def)
  obtain w where w: "write_frame sample_io (encode (ServerAck (enc_key_hash (V1 sample_crates) (se_record se)))) ([], True) = (Ok (), w)"
    using sink.send_next [OF sample_sent] by blast
  have init: "run_server_init sample_server = sc_new 2000"
    by (simp add: run_server_init_def sample_server_def)
  obtain b where b: "forward_start sample_io ([], None) ([], True) (so_conn (established_conn r w se)) None (se_early_data se) = Ok b"
    using forward_start_eq [OF sample_io_ok(2), of "([], True)"] by (metis snd_conv)
  have first: "server_on_first sample_crates (V1 sample_crates) sample_server ?f (ip_to_bytes (V6 (replicate 16 1))) 1000000
      (run_server_init sample_server) = (Ok (ZeroRtt (ServerAck (enc_key_hash (V1 sample_crates) (se_record se))) se),
        snd (check_and_insert (payload_tag (V1 sample_crates) p) 1000000 (sc_new 2000)))"
    using server_on_first_zero_rtt [OF se] by (simp add: init)
  let ?st = "run_server_start sample_server"
  have "server_task sample_io sample_crates sample_server (V6 (replicate 16 1)) 1000000 id 1000000 (Ok (([], None), ([], True)))
      \<lparr>cs_reader = (encode_framed (encode ?f), None), cs_writer = ([], True), cs_shared = sl_strike ?st\<rparr> =
      (Some (Ok b), \<lparr>cs_reader = r, cs_writer = w, cs_shared = snd (check_and_insert (payload_tag (V1 sample_crates) p) 1000000 (sc_new 2000))\<rparr>)"
    using server_accept_zero_rtt [OF r first w, of id 1000000] b
    by (simp add: server_task_def run_server_start_def established_conn_def)
  from new_conn_served [OF this rtranclp.rtrancl_refl] show thesis
    by (rule that) (simp_all add: with_new_def run_server_start_def)
qed

text \<open>Two uses of a log that accept the same payload, which was not ahead of the clock: the clock went back between them.\<close>

lemma same_payload_clock:
  assumes "use_strike C scfg (us ! m) (cache_after C scfg (take m us)) = (Some se, s')"
    and "use_strike C scfg (us ! n) (cache_after C scfg (take n us)) = (Some se2, s2)" "m < n" "n < length us"
    and "use_payload (us ! m) = Some (pk, p, peer, now)" "use_payload (us ! n) = Some (pk', p, peer', now')"
    and "unat (kp_ts_millis p) \<le> unat now"
  shows "\<exists>k. m < k \<and> k < n \<and> unat (use_clock (us ! k)) > unat now'"
proof (rule ccontr)
  assume "\<not> ?thesis"
  then have mono: "unat (use_clock (us ! k)) \<le> unat now'" if "m < k" "k < n" for k
    using that by (metis not_less)
  let ?vs = "drop (Suc m) (take n us)"
  have split: "take n us = take m us @ us ! m # ?vs"
    using assms(3,4) id_take_nth_drop [of m "take n us"] by (simp add: min_def)
  have vs: "\<forall>v \<in> set ?vs. unat (use_clock v) \<le> unat now'"
  proof
    fix v assume "v \<in> set ?vs"
    then obtain l where "v = us ! (Suc m + l)" "Suc m + l < n"
      using assms(4) by (auto simp: in_set_conv_nth)
    with mono [of "Suc m + l"] show "unat (use_clock v) \<le> unat now'" by simp
  qed
  have "cache_after C scfg (take n us) = serve_uses C scfg ?vs s'"
    by (subst split) (simp add: serve_uses_append assms(1))
  with payload_accepted_once [OF assms(1,5,7) vs assms(6)] assms(2) show False by simp
qed

text \<open>
  C5. The concurrent server is linearizable. In every state that the accept loop and its
  connection tasks can reach, the shared strike cache is what a sequence \<open>us\<close> of uses, one after
  the other, makes of the initial cache. Each session that a task holds was established by one
  of these uses, on the cache as the uses before it left it, and two sessions never by the same.
  Two sessions can come from the same payload only if it was ahead of the clock when first
  accepted, or if some use between the two read a later clock than the second: for a payload that
  was not ahead of the clock, and uses in the order of their clock readings, there is one at most.
\<close>

theorem server_loop_linearisable:
  assumes "(serve_step io C scfg)\<^sup>*\<^sup>* (run_server_start scfg) st"
  shows "\<exists>us pos. sl_strike st = serve_uses C scfg us (run_server_init scfg) \<and>
    inj_on pos {i. i < length (sl_conns st) \<and> in_session (sn_pc (sl_conns st ! i))} \<and>
    (\<forall>i < length (sl_conns st). in_session (sn_pc (sl_conns st ! i)) \<longrightarrow>
      (\<exists>se s'. pos i < length us \<and>
        use_strike C scfg (us ! pos i) (serve_uses C scfg (take (pos i) us) (run_server_init scfg)) = (Some se, s') \<and>
        holds_session io C (sn_pc (sl_conns st ! i)) se)) \<and>
    (\<forall>i < length (sl_conns st). \<forall>j < length (sl_conns st). \<forall>p pk peer now pk' peer' now'.
      in_session (sn_pc (sl_conns st ! i)) \<longrightarrow> in_session (sn_pc (sl_conns st ! j)) \<longrightarrow> pos i < pos j \<longrightarrow>
      use_payload (us ! pos i) = Some (pk, p, peer, now) \<longrightarrow> use_payload (us ! pos j) = Some (pk', p, peer', now') \<longrightarrow>
      unat (kp_ts_millis p) \<le> unat now \<longrightarrow>
      (\<exists>k. pos i < k \<and> k < pos j \<and> unat (use_clock (us ! k)) > unat now'))"
proof -
  obtain log where inv: "loop_inv io C scfg log st"
    using loop_inv_reachable [OF assms] by blast
  define us pos where "us = map snd log" and "pos i = Max (uses_by i log)" for i
  let ?pc = "\<lambda>i. sn_pc (sl_conns st ! i)"
  have own: "pos i \<in> uses_by i log" and session: "\<exists>se s'. pos i < length us \<and>
      use_strike C scfg (us ! pos i) (cache_after C scfg (take (pos i) us)) = (Some se, s') \<and> holds_session io C (?pc i) se"
    if "i < length (sl_conns st)" "in_session (?pc i)" for i
    using conn_at_session [of io C scfg us "uses_by i log"] inv that unfolding loop_inv_def us_def pos_def by blast+
  have distinct: "\<exists>k. pos i < k \<and> k < pos j \<and> unat (use_clock (us ! k)) > unat now'"
    if ij: "i < length (sl_conns st)" "j < length (sl_conns st)" "in_session (?pc i)" "in_session (?pc j)" "pos i < pos j"
      and p: "use_payload (us ! pos i) = Some (pk, p, peer, now)" "use_payload (us ! pos j) = Some (pk', p, peer', now')"
        "unat (kp_ts_millis p) \<le> unat now" for i j p pk peer now pk' peer' now'
    using session [OF ij(1,3)] session [OF ij(2,4)] same_payload_clock [OF _ _ ij(5) _ p] by blast
  have inj: "inj_on pos {i. i < length (sl_conns st) \<and> in_session (?pc i)}"
    using own by (intro inj_onI) (metis (mono_tags, lifting) mem_Collect_eq uses_by_def)
  have strike: "sl_strike st = cache_after C scfg us"
    using inv by (simp add: loop_inv_def us_def)
  show ?thesis
    by (intro exI [of _ us] exI [of _ pos] conjI allI impI)
      (rule strike, rule inj, erule (1) session, (rule distinct; assumption))
qed

theorem server_loop_linearisable_witness:
  "\<exists>st us pos se s'. (serve_step sample_io sample_crates sample_server)\<^sup>*\<^sup>* (run_server_start sample_server) st \<and>
    length (sl_conns st) = 1 \<and> sl_strike st = serve_uses sample_crates sample_server us (run_server_init sample_server) \<and>
    use_strike sample_crates sample_server (us ! pos)
      (serve_uses sample_crates sample_server (take pos us) (run_server_init sample_server)) = (Some se, s') \<and>
    holds_session sample_io sample_crates (sn_pc (sl_conns st ! 0)) se"
proof -
  obtain st target b where run: "(serve_step sample_io sample_crates sample_server)\<^sup>*\<^sup>* (run_server_start sample_server) st"
    and st: "length (sl_conns st) = 1" "sn_pc (sl_conns st ! 0) = Forwarding target b"
    by (rule sample_loop_run)
  have "0 < length (sl_conns st)" "in_session (sn_pc (sl_conns st ! 0))" using st by simp_all
  with server_loop_linearisable [OF run] run st(1) show ?thesis by blast
qed

text \<open>A task that forwards is a run of \<open>server_task\<close>, with the uses that the log has for it.\<close>

lemma forwarding_logged:
  assumes "loop_inv io C scfg log st" "i < length (sl_conns st)" "c = sl_conns st ! i" "sn_pc c = Forwarding target b"
  obtains n k s' b0 where "uses_by i log = {n, k}" "n \<le> k" "k < length log"
    "server_task io C scfg (sn_peer c) (use_clock (snd (log ! n))) (serve_uses C scfg (map snd (drop (Suc n) (take k log))))
      (use_clock (snd (log ! k))) (Ok target)
      \<lparr>cs_reader = sn_reader c, cs_writer = sn_writer c, cs_shared = cache_after C scfg (map snd (take n log))\<rparr> = (Some (Ok b0), s')"
    "cs_shared s' = cache_after C scfg (map snd (take (Suc k) log))" "(fstep io C)\<^sup>*\<^sup>* b0 b"
proof -
  let ?us = "map snd log"
  have "conn_at io C scfg ?us (uses_by i log) c (Forwarding target b)"
    using assms unfolding loop_inv_def by metis
  then obtain out tr tw b0 where target: "target = (tr, tw)" and out: "accepted_at io C scfg ?us (uses_by i log) c out"
      "forward_start io tr tw (so_conn out) None (so_early_data out) = Ok b0" "(fstep io C)\<^sup>*\<^sup>* b0 b" by (cases target) auto
  from out(1) obtain n k se s' where at: "uses_by i log = {n, k}" "n \<le> k" "k < length log"
      "use_strike C scfg (?us ! k) (cache_after C scfg (take k ?us)) = (Some se, cs_shared s')"
      "server_accept io C (ip_to_bytes (sn_peer c)) scfg (use_clock (?us ! n)) (serve_uses C scfg (drop (Suc n) (take k ?us)))
        (use_clock (?us ! k)) \<lparr>cs_reader = sn_reader c, cs_writer = sn_writer c, cs_shared = cache_after C scfg (take n ?us)\<rparr> = (Ok out, s')"
    unfolding accepted_at_def length_map by blast
  have "cs_shared s' = cache_after C scfg (take (Suc k) ?us)"
    using at(3,4) by (simp add: take_Suc_conv_app_nth serve_uses_append)
  moreover have "server_task io C scfg (sn_peer c) (use_clock (?us ! n)) (serve_uses C scfg (drop (Suc n) (take k ?us)))
      (use_clock (?us ! k)) (Ok target)
      \<lparr>cs_reader = sn_reader c, cs_writer = sn_writer c, cs_shared = cache_after C scfg (take n ?us)\<rparr> = (Some (Ok b0), s')"
    using at(5) out(2) target by (simp add: server_task_def)
  ultimately show thesis
    using at(1-3) out(3) by (intro that [of n k b0 s']) (simp_all add: take_map drop_map)
qed

lemma forwarding_task:
  assumes "(serve_step io C scfg)\<^sup>*\<^sup>* (run_server_start scfg) st" "c \<in> set (sl_conns st)" "sn_pc c = Forwarding target b"
  shows "\<exists>us vs now1 now2 s' b0. server_task io C scfg (sn_peer c) now1 (serve_uses C scfg vs) now2 (Ok target)
      \<lparr>cs_reader = sn_reader c, cs_writer = sn_writer c, cs_shared = serve_uses C scfg us (run_server_init scfg)\<rparr> =
      (Some (Ok b0), s') \<and> (fstep io C)\<^sup>*\<^sup>* b0 b"
proof -
  obtain log where inv: "loop_inv io C scfg log st" using loop_inv_reachable [OF assms(1)] by blast
  obtain i where "i < length (sl_conns st)" "c = sl_conns st ! i" using assms(2) by (metis in_set_conv_nth)
  then show ?thesis by (rule forwarding_logged [OF inv _ _ assms(3)]) (intro exI conjI)
qed

text \<open>
  C11. Every task of the concurrent server runs the sequential program on the shared strike cache.
  For every reachable state there is one log of all uses that the tasks have made of the cache, each
  entry with the number of its task; the cache is what these uses, in the order of the log, have
  made of the initial one. A task that forwards has the entries \<open>n\<close> and \<open>k\<close> of the log and no others,
  one and the same in 0-RTT. And \<open>server_task\<close>, run on the arguments that the task was spawned with,
  on the cache as the entries before \<open>n\<close> left it, with the clock readings of \<open>n\<close> and \<open>k\<close>, and with
  the entries between \<open>n\<close> and \<open>k\<close>, which are all of other tasks, made to the cache between its
  two flights, leaves the cache as it is after \<open>k\<close> and starts a forwarder from which the task's state
  is reached. All that is shown of \<open>server_accept\<close>, \<open>server_task\<close> and forwarding so holds for every
  task.
\<close>

theorem server_loop_runs_tasks:
  assumes "(serve_step io C scfg)\<^sup>*\<^sup>* (run_server_start scfg) st"
  shows "\<exists>log. sl_strike st = serve_uses C scfg (map snd log) (run_server_init scfg) \<and>
    (\<forall>j < length log. fst (log ! j) < length (sl_conns st)) \<and>
    (\<forall>i < length (sl_conns st). \<forall>c target b. c = sl_conns st ! i \<longrightarrow> sn_pc c = Forwarding target b \<longrightarrow>
      (\<exists>n k s' b0. {j. j < length log \<and> fst (log ! j) = i} = {n, k} \<and> n \<le> k \<and>
        server_task io C scfg (sn_peer c) (use_clock (snd (log ! n))) (serve_uses C scfg (map snd (drop (Suc n) (take k log))))
          (use_clock (snd (log ! k))) (Ok target)
          \<lparr>cs_reader = sn_reader c, cs_writer = sn_writer c,
           cs_shared = serve_uses C scfg (map snd (take n log)) (run_server_init scfg)\<rparr> = (Some (Ok b0), s') \<and>
        cs_shared s' = serve_uses C scfg (map snd (take (Suc k) log)) (run_server_init scfg) \<and> (fstep io C)\<^sup>*\<^sup>* b0 b))"
proof -
  obtain log where inv: "loop_inv io C scfg log st" using loop_inv_reachable [OF assms] by blast
  then have "sl_strike st = cache_after C scfg (map snd log)" "\<And>j. j < length log \<Longrightarrow> fst (log ! j) < length (sl_conns st)"
    unfolding loop_inv_def by blast+
  moreover have "\<exists>n k s' b0. {j. j < length log \<and> fst (log ! j) = i} = {n, k} \<and> n \<le> k \<and>
        server_task io C scfg (sn_peer c) (use_clock (snd (log ! n))) (serve_uses C scfg (map snd (drop (Suc n) (take k log))))
          (use_clock (snd (log ! k))) (Ok target)
          \<lparr>cs_reader = sn_reader c, cs_writer = sn_writer c, cs_shared = cache_after C scfg (map snd (take n log))\<rparr> = (Some (Ok b0), s') \<and>
        cs_shared s' = cache_after C scfg (map snd (take (Suc k) log)) \<and> (fstep io C)\<^sup>*\<^sup>* b0 b"
    if task: "i < length (sl_conns st)" "c = sl_conns st ! i" "sn_pc c = Forwarding target b" for i c target b
    by (rule forwarding_logged [OF inv task]) (unfold uses_by_def, intro exI conjI, assumption+)
  ultimately show ?thesis by (intro exI [of _ log] conjI allI impI)
qed

theorem server_loop_runs_tasks_witness:
  "\<exists>st log target b n k s' b0. (serve_step sample_io sample_crates sample_server)\<^sup>*\<^sup>* (run_server_start sample_server) st \<and>
    sn_pc (sl_conns st ! 0) = Forwarding target b \<and>
    sl_strike st = serve_uses sample_crates sample_server (map snd log) (run_server_init sample_server) \<and>
    {j. j < length log \<and> fst (log ! j) = (0 :: nat)} = {n, k} \<and>
    server_task sample_io sample_crates sample_server (sn_peer (sl_conns st ! 0)) (use_clock (snd (log ! n)))
      (serve_uses sample_crates sample_server (map snd (drop (Suc n) (take k log)))) (use_clock (snd (log ! k))) (Ok target)
      \<lparr>cs_reader = sn_reader (sl_conns st ! 0), cs_writer = sn_writer (sl_conns st ! 0),
       cs_shared = serve_uses sample_crates sample_server (map snd (take n log)) (run_server_init sample_server)\<rparr> = (Some (Ok b0), s')"
proof -
  obtain st target b where run: "(serve_step sample_io sample_crates sample_server)\<^sup>*\<^sup>* (run_server_start sample_server) st"
    and st: "length (sl_conns st) = 1" "sn_pc (sl_conns st ! 0) = Forwarding target b"
    by (rule sample_loop_run)
  have "0 < length (sl_conns st)" using st(1) by simp
  obtain log where log: "sl_strike st = serve_uses sample_crates sample_server (map snd log) (run_server_init sample_server)"
    and tasks: "\<forall>i < length (sl_conns st). \<forall>c target b. c = sl_conns st ! i \<longrightarrow> sn_pc c = Forwarding target b \<longrightarrow>
      (\<exists>n k s' b0. {j. j < length log \<and> fst (log ! j) = i} = {n, k} \<and> n \<le> k \<and>
        server_task sample_io sample_crates sample_server (sn_peer c) (use_clock (snd (log ! n)))
          (serve_uses sample_crates sample_server (map snd (drop (Suc n) (take k log)))) (use_clock (snd (log ! k))) (Ok target)
          \<lparr>cs_reader = sn_reader c, cs_writer = sn_writer c,
           cs_shared = serve_uses sample_crates sample_server (map snd (take n log)) (run_server_init sample_server)\<rparr> = (Some (Ok b0), s') \<and>
        cs_shared s' = serve_uses sample_crates sample_server (map snd (take (Suc k) log)) (run_server_init sample_server) \<and>
        (fstep sample_io sample_crates)\<^sup>*\<^sup>* b0 b)"
    using server_loop_runs_tasks [OF run] by (elim exE conjE)
  from tasks [rule_format, OF \<open>0 < length (sl_conns st)\<close> refl st(2)] run log st(2) show ?thesis
    by (elim exE conjE) (intro exI conjI, assumption+)
qed

end
