(* ===== verification/Tunnel.thy ===== *)
theory Tunnel
  imports Run
begin

text \<open>
  The composition of the connection tasks of \<open>ort-net/src/run.rs\<close> with forwarding: what a client
  task and a server task that talk to each other deliver, after either mode of the handshake.
\<close>

section \<open>What one end sends and the other delivers\<close>

lemma acknowledged_hash_length:
  "crates_ok C \<Longrightarrow> session_agreed C ce se \<Longrightarrow> length (ce_expected_ek_hash ce) = 64"
  using v1.hash_lengths [of C] by (simp add: session_agreed_def enc_key_hash_def)

text \<open>
  The server's connection task on the stream of a 0-RTT client: it gets to forwarding with a
  connection whose record layer agrees with the client's, and the records that follow the
  handshake are the next on its stream.
\<close>

lemma server_task_serves:
  assumes "crates_ok C" "flight_served io C scfg (ip_to_bytes peer) now strike out up pk p [] ce"
    and "pending io inc fin rs (encode (ClientHelloZeroRtt 1 pk p) # later)" "sent io out up ws []"
    and "write_ok io out up" "up tw"
  obtains conn b0 s' where
    "server_task io C scfg peer now others now2 (Ok (tr, tw)) \<lparr>cs_reader = rs, cs_writer = ws, cs_shared = strike\<rparr> =
      (Some (Ok b0), s')"
    "forward_start io tr tw conn None [] = Ok b0" "oc_role conn = Server" "rl_valid C (oc_record conn)"
    "rl_same ClientToServer (ce_record ce) (oc_record conn)" "rl_same ServerToClient (ce_record ce) (oc_record conn)"
    "pending io inc fin (oc_reader conn) later"
    "sent io out up (oc_writer conn) [encode (ServerAck (ce_expected_ek_hash ce))]"
    "length (ce_expected_ek_hash ce) = 64"
proof -
  obtain se r w' s' where acc: "server_accept io C (ip_to_bytes peer) scfg now others now2
        \<lparr>cs_reader = rs, cs_writer = ws, cs_shared = strike\<rparr> =
        (Ok \<lparr>so_conn = \<lparr>oc_reader = r, oc_writer = w', oc_record = se_record se, oc_role = Server\<rparr>,
             so_early_data = []\<rparr>, s')"
      "session_agreed C ce se" "sent io out up w' [encode (ServerAck (ce_expected_ek_hash ce))]"
      "pending io inc fin r later"
    by (rule flight_servedE [OF assms(2-4), of others now2])
  let ?conn = "\<lparr>oc_reader = r, oc_writer = w', oc_record = se_record se, oc_role = Server\<rparr>"
  obtain b0 where b0: "forward_start io tr tw ?conn None [] = Ok b0"
    by (rule forward_start_eq [OF assms(5,6)])
  then have "server_task io C scfg peer now others now2 (Ok (tr, tw)) \<lparr>cs_reader = rs, cs_writer = ws, cs_shared = strike\<rparr> =
      (Some (Ok b0), s')"
    using acc(1) by (simp add: server_task_def)
  then show thesis
    using b0 acc(2-4) acknowledged_hash_length [OF assms(1)] by (intro that [of b0 s' ?conn]) (simp_all add: session_agreed_def)
qed

lemma ip_to_bytes_length: "ip_ok addr \<Longrightarrow> length (ip_to_bytes addr) = 16"
  by (cases addr) (simp_all add: to_ipv6_mapped_def)

text \<open>The client's connection task, 0-RTT: the handshake flight is sent, and forwarding starts.\<close>

lemma client_task_flight:
  assumes "crates_ok C" "rng_ok g" "good_client C ccfg" "ip_ok addr" "sent io out up wc []" "up app_w"
  obtains p ce conn a0 s where
    "client_task io C X ccfg verifier False (Some addr) (Some (kem_public (V1 C) sk)) ts app_r app_w
      \<lparr>cs_reader = rc, cs_writer = wc, cs_shared = g\<rparr> = (Some (kem_public (V1 C) sk, Ok a0), s)"
    "forward_start io app_r app_w conn (Some (ce_expected_ek_hash ce)) [] = Ok a0"
    "oc_role conn = Client" "oc_reader conn = rc" "oc_record conn = ce_record ce" "rl_valid C (ce_record ce)"
    "sent io out up (oc_writer conn) [encode (ClientHelloZeroRtt 1 (cc_client_pk ccfg) p)]"
    "frame_ok (ClientHelloZeroRtt 1 (cc_client_pk ccfg) p)"
    "length (encode (ClientHelloZeroRtt 1 (cc_client_pk ccfg) p)) \<le> MAX_FRAME"
    "payload_for C ccfg sk (ip_to_bytes addr) ts [] p ce"
proof -
  let ?spk = "kem_public (V1 C) sk" and ?pk = "cc_client_pk ccfg"
  have ip: "length (ip_to_bytes addr) = 16" by (rule ip_to_bytes_length [OF assms(4)])
  obtain p ce g' where built: "build_payload C (V1 C) ccfg ?spk (ip_to_bytes addr) ts [] g = (Ok (p, ce), g')"
      "payload_for C ccfg sk (ip_to_bytes addr) ts [] p ce"
    using build_payload_ok [OF assms(1-3) ip, of "[]"] by (metis list.size(3) zero_le)
  let ?f = "ClientHelloZeroRtt 1 ?pk p"
  have fits: "frame_ok ?f" "length (encode ?f) \<le> MAX_FRAME"
    using honest_flight_fits [OF built(2) ip _ good_client_pk_length [OF assms(1,3)], of ?f] by simp_all
  have zero: "client_zero_rtt C (V1 C) ccfg ?spk (ip_to_bytes addr) ts [] g = (Ok (?f, ce), g')"
    using built(1) by (simp add: client_zero_rtt_def sbind_def)
  obtain w where run: "client_open io C X ccfg (ip_to_bytes addr) (Some ?spk) False verifier ts []
        \<lparr>cs_reader = rc, cs_writer = wc, cs_shared = g\<rparr> =
      (Ok \<lparr>co_conn = \<lparr>oc_reader = rc, oc_writer = w, oc_record = ce_record ce, oc_role = Client\<rparr>,
           co_expect_ack = Some (ce_expected_ek_hash ce), co_server_pk = ?spk\<rparr>,
       \<lparr>cs_reader = rc, cs_writer = w, cs_shared = g'\<rparr>)" "sent io out up w [encode ?f]"
    by (rule client_side_zero_rtt [OF zero assms(5)])
  let ?conn = "\<lparr>oc_reader = rc, oc_writer = w, oc_record = ce_record ce, oc_role = Client\<rparr>"
  have "write_ok io out up" using assms(5) by (simp add: sent_def)
  obtain a0 where a0: "forward_start io app_r app_w ?conn (Some (ce_expected_ek_hash ce)) [] = Ok a0"
    by (rule forward_start_eq [OF \<open>write_ok io out up\<close> assms(6)])
  show thesis
    by (rule that [OF _ a0 _ _ _ _ _ fits built(2)])
      (use run a0 payload_for_valid [OF built(2)] in \<open>simp_all add: client_task_def local_src_ip_def\<close>)
qed

lemma client_task_starts:
  assumes "crates_ok C" "rng_ok g" "good_client C ccfg" "ip_ok addr"
    and "sc_ok strike" "in_window now ts (sv_window_ms scfg) (sv_skew_ms scfg)"
    and "sent io out up wc []" "up app_w"
  obtains p ce conn a0 s where
    "client_task io C X ccfg verifier False (Some addr) (Some (kem_public (V1 C) (sv_kem_secret scfg))) ts app_r app_w
      \<lparr>cs_reader = rc, cs_writer = wc, cs_shared = g\<rparr> = (Some (kem_public (V1 C) (sv_kem_secret scfg), Ok a0), s)"
    "forward_start io app_r app_w conn (Some (ce_expected_ek_hash ce)) [] = Ok a0"
    "oc_role conn = Client" "oc_reader conn = rc" "oc_record conn = ce_record ce" "rl_valid C (ce_record ce)"
    "sent io out up (oc_writer conn) [encode (ClientHelloZeroRtt 1 (cc_client_pk ccfg) p)]"
    "length (encode (ClientHelloZeroRtt 1 (cc_client_pk ccfg) p)) \<le> MAX_FRAME"
    "tag_fresh strike now (payload_tag (V1 C) p) \<Longrightarrow>
      flight_served io C scfg (ip_to_bytes addr) now strike out up (cc_client_pk ccfg) p [] ce"
  by (rule client_task_flight [OF assms(1-4,7,8), where sk = "sv_kem_secret scfg" and ts = ts and X = X and verifier = verifier
        and rc = rc and app_r = app_r], rule that, assumption+, rule honest_flight_served [OF _ assms(6,5)])

text \<open>
  The bodies \<open>later\<close>, which a peer in state \<open>rec\<close> sent in direction \<open>d\<close>, carry \<open>D\<close>: every
  end that agrees with the peer and finds them on its stream delivers \<open>D\<close>.
\<close>

definition carries where
  "carries io C inc fin out up d rec later D \<longleftrightarrow>
     (\<forall>pr pw conn wanted b0 b. forward_start io pr pw conn wanted [] = Ok b0 \<longrightarrow> up pw \<longrightarrow> rl_valid C (oc_record conn) \<longrightarrow>
       rl_same d rec (oc_record conn) \<longrightarrow> recv_dir (oc_role conn) = d \<longrightarrow> (\<forall>h. wanted = Some h \<longrightarrow> length h = 64) \<longrightarrow>
       inc (oc_reader conn) = concat (map encode_framed (ack_bodies wanted @ later)) \<longrightarrow> fin (oc_reader conn) = None \<longrightarrow>
       (fstep io C)\<^sup>*\<^sup>* b0 b \<longrightarrow> delivered out (out pw @ D) b)"

lemma carriesD:
  assumes "carries io C inc fin out up d rec later D" "forward_start io pr pw conn wanted [] = Ok b0" "(fstep io C)\<^sup>*\<^sup>* b0 b"
    and "up pw" "rl_valid C (oc_record conn)" "rl_same d rec (oc_record conn)" "recv_dir (oc_role conn) = d"
    and "\<forall>h. wanted = Some h \<longrightarrow> length h = 64"
    and "inc (oc_reader conn) = concat (map encode_framed (ack_bodies wanted @ later))" "fin (oc_reader conn) = None"
  shows "delivered out (out pw @ D) b"
  using assms unfolding carries_def by blast

lemma up_task_carries:
  assumes "forward_start io pr pw conn wanted [] = Ok a0" "io_laws io inc fin out up"
    and "rl_valid C (oc_record conn)" "fin pr = None" "sent io out up (oc_writer conn) B"
    and "(fstep io C)\<^sup>*\<^sup>* a0 a" "fw_up a = UpDone x"
  obtains later where "out (fw_tun_w a) = concat (map encode_framed (B @ later))" "\<forall>b \<in> set later. length b \<le> MAX_FRAME"
    "carries io C inc fin out up (send_dir (oc_role conn)) (oc_record conn) later (inc pr)"
proof -
  let ?d = "send_dir (oc_role conn)"
  have w: "up (oc_writer conn)" "out (oc_writer conn) = concat (map encode_framed B)"
    using assms(5) by (simp_all add: sent_def)
  obtain q where q: "records_in_flight C ?d (fw_record a) (oc_record conn) q"
      "\<forall>(ct, pt) \<in> set q. length ct \<le> CHUNK + 16" "concat (map snd q) = inc pr"
      "out (fw_tun_w a) = concat (map encode_framed (B @ map (record_body ?d \<circ> fst) q @ [encode Close]))"
    using up_task_done [OF assms(1-4) w assms(6,7)] by metis
  have "carries io C inc fin out up ?d (oc_record conn) (map (record_body ?d \<circ> fst) q @ [encode Close]) (inc pr)"
    unfolding carries_def
  proof (intro allI impI)
    fix prb pwb cb wb b0 b
    assume b: "forward_start io prb pwb cb wb [] = Ok b0" "up pwb" "rl_valid C (oc_record cb)"
      "rl_same ?d (oc_record conn) (oc_record cb)" "recv_dir (oc_role cb) = ?d" "\<forall>h. wb = Some h \<longrightarrow> length h = 64"
      "inc (oc_reader cb) = concat (map encode_framed (ack_bodies wb @ map (record_body ?d \<circ> fst) q @ [encode Close]))"
      "fin (oc_reader cb) = None" "(fstep io C)\<^sup>*\<^sup>* b0 b"
    show "delivered out (out pwb @ inc pr) b"
      using down_task_delivers [OF b(1) assms(2) b(2,3) _ q(2) b(6) _ b(8,9)]
        rl.in_flight_receiver_cong [OF q(1) b(4)] b(5,7) q(3) by simp
  qed
  moreover have "\<forall>b \<in> set (map (record_body ?d \<circ> fst) q @ [encode Close]). length b \<le> MAX_FRAME"
    using bodies_fit [OF q(2), of "[encode Close]" None ?d] by (simp add: ack_bodies_def)
  ultimately show thesis
    using that q(4) by blast
qed

text \<open>Two ends that agree and forward: what either delivers, if each receives what the other has sent.\<close>

lemma tunnel_delivers:
  assumes laws: "io_laws io inc fin out up"
    and a0: "forward_start io app_r app_w ca wa [] = Ok a0" "oc_role ca = Client" "rl_valid C (oc_record ca)"
      "fin (oc_reader ca) = None" "up app_w" "\<forall>h. wa = Some h \<longrightarrow> length h = 64"
    and b0: "forward_start io tr tw cb None [] = Ok b0" "oc_role cb = Server" "rl_valid C (oc_record cb)" "fin tr = None" "up tw"
      "sent io out up (oc_writer cb) B" "pending io inc fin (oc_reader cb) later"
    and same: "rl_same ClientToServer (oc_record ca) (oc_record cb)" "rl_same ServerToClient (oc_record ca) (oc_record cb)"
    and there: "carries io C inc fin out up ClientToServer (oc_record ca) later (inc app_r)"
    and b: "(fstep io C)\<^sup>*\<^sup>* b0 b"
  shows "delivered out (out tw @ inc app_r) b"
    and "fw_up b = UpDone xb \<Longrightarrow>
      (\<And>answer. out (fw_tun_w b) = concat (map encode_framed (B @ answer)) \<Longrightarrow>
        inc (oc_reader ca) = concat (map encode_framed (ack_bodies wa @ answer))) \<Longrightarrow>
      (fstep io C)\<^sup>*\<^sup>* a0 a' \<Longrightarrow> delivered out (out app_w @ inc tr) a'"
proof -
  show "delivered out (out tw @ inc app_r) b"
    by (rule carriesD [OF there b0(1) b b0(5,3) same(1)])
      (use b0(2,7) in \<open>simp_all add: recv_dir_def ack_bodies_def pending_def\<close>)
next
  assume ended: "fw_up b = UpDone xb" and reply: "\<And>answer. out (fw_tun_w b) = concat (map encode_framed (B @ answer)) \<Longrightarrow>
        inc (oc_reader ca) = concat (map encode_framed (ack_bodies wa @ answer))" and a': "(fstep io C)\<^sup>*\<^sup>* a0 a'"
  obtain answer where answer: "out (fw_tun_w b) = concat (map encode_framed (B @ answer))"
      "carries io C inc fin out up (send_dir (oc_role cb)) (oc_record cb) answer (inc tr)"
    by (rule up_task_carries [OF b0(1) laws b0(3,4,6) b ended])
  show "delivered out (out app_w @ inc tr) a'"
    by (rule carriesD [OF answer(2) a0(1) a' a0(5,3)])
      (use b0(2) a0(2,4,6) same(2) reply [OF answer(1)] in \<open>simp_all add: recv_dir_def rl.same_sym\<close>)
qed

text \<open>
  A client that has started forwarding after its 0-RTT flight, and a server task that receives
  what the client's up task has sent.
\<close>

lemma served_both_ways:
  assumes "crates_ok C" "io_laws io inc fin out up"
    and a0: "forward_start io app_r app_w ca (Some (ce_expected_ek_hash ce)) [] = Ok a0"
    and ca: "oc_role ca = Client" "oc_record ca = ce_record ce" "rl_valid C (ce_record ce)"
      "sent io out up (oc_writer ca) [encode (ClientHelloZeroRtt 1 pk p)]"
      "length (encode (ClientHelloZeroRtt 1 pk p)) \<le> MAX_FRAME" "fin (oc_reader ca) = None"
    and app: "fin app_r = None" "up app_w"
    and served: "flight_served io C scfg (ip_to_bytes peer) now strike out up pk p [] ce"
    and a: "(fstep io C)\<^sup>*\<^sup>* a0 a" "fw_up a = UpDone xa"
    and net: "inc rs = out (fw_tun_w a)" "fin rs = None" "up ws" "out ws = []" and target: "fin tr = None" "up tw"
  shows "\<exists>b0 s'. server_task io C scfg peer now others now2 (Ok (tr, tw))
        \<lparr>cs_reader = rs, cs_writer = ws, cs_shared = strike\<rparr> = (Some (Ok b0), s') \<and>
      (\<forall>b. (fstep io C)\<^sup>*\<^sup>* b0 b \<longrightarrow> delivered out (out tw @ inc app_r) b) \<and>
      (\<forall>b xb. (fstep io C)\<^sup>*\<^sup>* b0 b \<longrightarrow> fw_up b = UpDone xb \<longrightarrow> inc (oc_reader ca) = out (fw_tun_w b) \<longrightarrow>
        (\<forall>a'. (fstep io C)\<^sup>*\<^sup>* a0 a' \<longrightarrow> delivered out (out app_w @ inc tr) a'))"
proof -
  have wok: "write_ok io out up" and rok: "read_exact_ok io inc fin" using io_lawsD [OF assms(2)] by simp_all
  have valid: "rl_valid C (oc_record ca)" using ca(2,3) by simp
  obtain later where later: "out (fw_tun_w a) = concat (map encode_framed ([encode (ClientHelloZeroRtt 1 pk p)] @ later))"
      "\<forall>b \<in> set later. length b \<le> MAX_FRAME"
    and there: "carries io C inc fin out up (send_dir (oc_role ca)) (oc_record ca) later (inc app_r)"
    by (rule up_task_carries [OF a0 assms(2) valid app(1) ca(4) a])
  have stream: "pending io inc fin rs (encode (ClientHelloZeroRtt 1 pk p) # later)" "sent io out up ws []"
    using rok wok net later ca(5) by (simp_all add: pending_def sent_def)
  obtain cb b0 s' where srv: "server_task io C scfg peer now others now2 (Ok (tr, tw))
        \<lparr>cs_reader = rs, cs_writer = ws, cs_shared = strike\<rparr> = (Some (Ok b0), s')"
      "forward_start io tr tw cb None [] = Ok b0" "oc_role cb = Server" "rl_valid C (oc_record cb)"
      "rl_same ClientToServer (ce_record ce) (oc_record cb)" "rl_same ServerToClient (ce_record ce) (oc_record cb)"
      "pending io inc fin (oc_reader cb) later" "sent io out up (oc_writer cb) [encode (ServerAck (ce_expected_ek_hash ce))]"
      "length (ce_expected_ek_hash ce) = 64"
    by (rule server_task_serves [OF assms(1) served stream wok target(2), of others now2 tr])
  have ack: "\<forall>h. Some (ce_expected_ek_hash ce) = Some h \<longrightarrow> length h = 64" using srv(9) by simp
  note tunnel = tunnel_delivers [OF assms(2) a0 ca(1) valid ca(6) app(2) ack srv(2,3,4) target srv(8,7)
      srv(5,6) [folded ca(2)] there [unfolded ca(1) send_dir.simps]]
  then show ?thesis
    using srv(1) by (auto simp: ack_bodies_def)
qed


section \<open>First contact: 1-RTT\<close>

text \<open>
  The client's connection task without a cached key, when the server answers with its hello and
  the policy accepts the key in it.
\<close>

lemma client_task_first_contact:
  assumes "crates_ok C" "rng_ok g" "good_client C ccfg" "ip_ok addr"
    and scfg: "sv_server_pk scfg = kem_public (V1 C) (sv_kem_secret scfg)" "length (sv_certificate scfg) \<le> MAX_EARLY"
      "sv_verify X verifier (sv_server_pk scfg) (sv_certificate scfg) = Ok ()"
    and net: "sent io out up wc []"
      "pending io inc fin rc (encode (ServerHello 1 (sv_server_pk scfg) (sv_certificate scfg) now1) # answer)" "up app_w"
  obtains p ce conn a0 s where
    "client_task io C X ccfg verifier force (Some addr) None ts app_r app_w
      \<lparr>cs_reader = rc, cs_writer = wc, cs_shared = g\<rparr> = (Some (sv_server_pk scfg, Ok a0), s)"
    "forward_start io app_r app_w conn None [] = Ok a0" "oc_role conn = Client" "oc_record conn = ce_record ce"
    "pending io inc fin (oc_reader conn) answer"
    "sent io out up (oc_writer conn) [encode (client_one_rtt_hello (V1 C) ccfg), encode (ClientData (cc_client_pk ccfg) p)]"
    "payload_for C ccfg (sv_kem_secret scfg) (ip_to_bytes addr) ts [] p ce"
proof -
  let ?hello = "ServerHello 1 (sv_server_pk scfg) (sv_certificate scfg) now1"
  have ip: "length (ip_to_bytes addr) = 16" using assms(4) by (cases addr) (simp_all add: to_ipv6_mapped_def)
  obtain p ce g' where built: "build_payload C (V1 C) ccfg (sv_server_pk scfg) (ip_to_bytes addr) ts [] g = (Ok (p, ce), g')"
      "payload_for C ccfg (sv_kem_secret scfg) (ip_to_bytes addr) ts [] p ce"
    using build_payload_ok [OF assms(1-3) ip, of "[]"] scfg(1) by (metis list.size(3) zero_le)
  have fin: "client_one_rtt_finish C (V1 C) ccfg (sv_server_pk scfg) (ip_to_bytes addr) ts [] g =
      (Ok (ClientData (cc_client_pk ccfg) p, ce), g')"
    using built(1) by (simp add: client_one_rtt_finish_def sbind_def)
  have hello: "frame_ok ?hello" "length (encode ?hello) \<le> MAX_FRAME"
    using scfg(1,2) v1.kem_public_length [OF assms(1)]
    by (simp_all add: encode_eq MAX_FRAME_def MAX_EARLY_def V1_def ML_KEM_768_EK_def)
  obtain r w where run: "client_open io C X ccfg (ip_to_bytes addr) None force verifier ts []
        \<lparr>cs_reader = rc, cs_writer = wc, cs_shared = g\<rparr> =
      (Ok \<lparr>co_conn = \<lparr>oc_reader = r, oc_writer = w, oc_record = ce_record ce, oc_role = Client\<rparr>,
           co_expect_ack = None, co_server_pk = sv_server_pk scfg\<rparr>, \<lparr>cs_reader = r, cs_writer = w, cs_shared = g'\<rparr>)"
    "sent io out up w [encode (client_one_rtt_hello (V1 C) ccfg), encode (ClientData (cc_client_pk ccfg) p)]"
    "pending io inc fin r answer"
    by (rule client_side_one_rtt [OF fin refl hello scfg(3) net(1,2)])
  let ?conn = "\<lparr>oc_reader = r, oc_writer = w, oc_record = ce_record ce, oc_role = Client\<rparr>"
  have "write_ok io out up" using net(1) by (simp add: sent_def)
  obtain a0 where a0: "forward_start io app_r app_w ?conn None [] = Ok a0"
    by (rule forward_start_eq [OF \<open>write_ok io out up\<close> net(3)])
  show thesis
    by (rule that [OF _ a0 _ _ _ _ built(2)]) (use run a0 in \<open>simp_all add: client_task_def local_src_ip_def\<close>)
qed

text \<open>The server's connection task on the two flights of that client.\<close>

lemma server_task_second_flight:
  assumes "crates_ok C" "good_client C ccfg" "ip_ok peer"
    and p: "payload_for C ccfg (sv_kem_secret scfg) (ip_to_bytes peer) ts [] p ce"
    and now: "in_window now2 ts (sv_window_ms scfg) (sv_skew_ms scfg)" "sc_ok (others strike)"
      "tag_fresh (others strike) now2 (payload_tag (V1 C) p)"
    and net: "pending io inc fin rs (encode (client_one_rtt_hello (V1 C) ccfg) # encode (ClientData (cc_client_pk ccfg) p) # later)"
      "sent io out up ws []" "up tw"
  obtains conn b0 s' where
    "server_task io C scfg peer now1 others now2 (Ok (tr, tw)) \<lparr>cs_reader = rs, cs_writer = ws, cs_shared = strike\<rparr> =
      (Some (Ok b0), s')"
    "forward_start io tr tw conn None [] = Ok b0" "oc_role conn = Server" "rl_valid C (oc_record conn)"
    "rl_same ClientToServer (ce_record ce) (oc_record conn)" "rl_same ServerToClient (ce_record ce) (oc_record conn)"
    "pending io inc fin (oc_reader conn) later"
    "sent io out up (oc_writer conn) [encode (ServerHello 1 (sv_server_pk scfg) (sv_certificate scfg) now1)]"
proof -
  have ip: "length (ip_to_bytes peer) = 16" using assms(3) by (cases peer) (simp_all add: to_ipv6_mapped_def)
  have early: "length ([] :: bytes) \<le> MAX_EARLY" by simp
  obtain se r w s' where acc: "server_accept io C (ip_to_bytes peer) scfg now1 others now2
      \<lparr>cs_reader = rs, cs_writer = ws, cs_shared = strike\<rparr> =
    (Ok \<lparr>so_conn = \<lparr>oc_reader = r, oc_writer = w, oc_record = se_record se, oc_role = Server\<rparr>, so_early_data = []\<rparr>, s')"
    "session_agreed C ce se" "sent io out up w [encode (ServerHello 1 (sv_server_pk scfg) (sv_certificate scfg) now1)]"
    "pending io inc fin r later"
    by (rule honest_second_flight_served [where others = others and strike = strike,
        OF p now ip early good_client_pk_length [OF assms(1,2)] net(1,2), of now1])
  let ?conn = "\<lparr>oc_reader = r, oc_writer = w, oc_record = se_record se, oc_role = Server\<rparr>"
  have "write_ok io out up" using net(2) by (simp add: sent_def)
  obtain b0 where b0: "forward_start io tr tw ?conn None [] = Ok b0"
    by (rule forward_start_eq [OF \<open>write_ok io out up\<close> net(3)])
  show thesis
    by (rule that [OF _ b0]) (use acc b0 in \<open>simp_all add: server_task_def session_agreed_def\<close>)
qed

text \<open>
  A client that has started forwarding after its second flight, and a server task that receives
  what the client's up task has sent.
\<close>

lemma answered_both_ways:
  assumes "crates_ok C" "good_client C ccfg" "ip_ok peer" and laws: "io_laws io inc fin out up"
    and a0: "forward_start io app_r app_w ca None [] = Ok a0" and ca: "oc_role ca = Client" "oc_record ca = ce_record ce"
      "fin (oc_reader ca) = None"
      "sent io out up (oc_writer ca) [encode (client_one_rtt_hello (V1 C) ccfg), encode (ClientData (cc_client_pk ccfg) p)]"
    and p: "payload_for C ccfg (sv_kem_secret scfg) (ip_to_bytes peer) ts [] p ce"
    and app: "fin app_r = None" "up app_w"
    and strike: "in_window now2 ts (sv_window_ms scfg) (sv_skew_ms scfg)" "sc_ok (others strike)"
      "tag_fresh (others strike) now2 (payload_tag (V1 C) p)"
    and a: "(fstep io C)\<^sup>*\<^sup>* a0 a" "fw_up a = UpDone xa" and wire: "inc rs = out (fw_tun_w a)" "fin rs = None" "up ws" "out ws = []"
    and target: "fin tr = None" "up tw"
  shows "\<exists>b0 s'. server_task io C scfg peer now1 others now2 (Ok (tr, tw))
          \<lparr>cs_reader = rs, cs_writer = ws, cs_shared = strike\<rparr> = (Some (Ok b0), s') \<and>
        (\<forall>b. (fstep io C)\<^sup>*\<^sup>* b0 b \<longrightarrow> delivered out (out tw @ inc app_r) b) \<and>
        (\<forall>b xb. (fstep io C)\<^sup>*\<^sup>* b0 b \<longrightarrow> fw_up b = UpDone xb \<longrightarrow>
          out (fw_tun_w b) = encode_framed (encode (ServerHello 1 (sv_server_pk scfg) (sv_certificate scfg) now1)) @ inc (oc_reader ca) \<longrightarrow>
          (\<forall>a'. (fstep io C)\<^sup>*\<^sup>* a0 a' \<longrightarrow> delivered out (out app_w @ inc tr) a'))"
proof -
  let ?h = "encode (client_one_rtt_hello (V1 C) ccfg)" and ?f = "encode (ClientData (cc_client_pk ccfg) p)"
  have wok: "write_ok io out up" and rok: "read_exact_ok io inc fin" using io_lawsD [OF laws] by simp_all
  have valid: "rl_valid C (oc_record ca)" using payload_for_valid [OF p] ca(2) by simp
  have pk: "length (cc_client_pk ccfg) = 1952" using good_client_pk_length [OF assms(1,2)] .
  have fits: "length ?h \<le> MAX_FRAME" "length ?f \<le> MAX_FRAME"
    using honest_flight_fits(2) [OF p ip_to_bytes_length [OF assms(3)] _ pk, of "ClientData (cc_client_pk ccfg) p"] pk
    by (simp_all add: client_one_rtt_hello_def encode_eq MAX_FRAME_def)
  obtain later where later: "out (fw_tun_w a) = concat (map encode_framed ([?h, ?f] @ later))" "\<forall>b \<in> set later. length b \<le> MAX_FRAME"
    and there: "carries io C inc fin out up (send_dir (oc_role ca)) (oc_record ca) later (inc app_r)"
    by (rule up_task_carries [OF a0 laws valid app(1) ca(4) a])
  have stream: "pending io inc fin rs (?h # ?f # later)" "sent io out up ws []"
    using rok wok wire later fits by (simp_all add: pending_def sent_def)
  obtain cb b0 s' where srv: "server_task io C scfg peer now1 others now2 (Ok (tr, tw))
        \<lparr>cs_reader = rs, cs_writer = ws, cs_shared = strike\<rparr> = (Some (Ok b0), s')"
      "forward_start io tr tw cb None [] = Ok b0" "oc_role cb = Server" "rl_valid C (oc_record cb)"
      "rl_same ClientToServer (ce_record ce) (oc_record cb)" "rl_same ServerToClient (ce_record ce) (oc_record cb)"
      "pending io inc fin (oc_reader cb) later"
      "sent io out up (oc_writer cb) [encode (ServerHello 1 (sv_server_pk scfg) (sv_certificate scfg) now1)]"
    by (rule server_task_second_flight [where others = others and strike = strike,
          OF assms(1-3) p strike stream target(2), of now1 tr])
  have ack: "\<forall>h. (None :: bytes option) = Some h \<longrightarrow> length h = 64" by simp
  note tunnel = tunnel_delivers [OF laws a0 ca(1) valid ca(3) app(2) ack srv(2,3,4) target srv(8,7)
      srv(5,6) [folded ca(2)] there [unfolded ca(1) send_dir.simps]]
  have "delivered out (out app_w @ inc tr) a'"
    if "(fstep io C)\<^sup>*\<^sup>* b0 b" "fw_up b = UpDone xb" "(fstep io C)\<^sup>*\<^sup>* a0 a'"
      and reply: "out (fw_tun_w b) = encode_framed (encode (ServerHello 1 (sv_server_pk scfg) (sv_certificate scfg) now1)) @ inc (oc_reader ca)"
    for b xb a'
    by (rule tunnel(2) [OF that(1,2) _ that(3)]) (simp add: reply ack_bodies_def)
  with tunnel(1) srv(1) show ?thesis by blast
qed

text \<open>Both tasks of a first contact, and what they deliver.\<close>

lemma first_contact_both_ways:
  assumes "crates_ok C" "rng_ok g" "good_client C ccfg" "ip_ok addr" "ip_ok peer" "ip_to_bytes peer = ip_to_bytes addr"
    and scfg: "sv_server_pk scfg = kem_public (V1 C) (sv_kem_secret scfg)" "length (sv_certificate scfg) \<le> MAX_EARLY"
      "sv_verify X verifier (sv_server_pk scfg) (sv_certificate scfg) = Ok ()"
    and strike: "sc_ok (others strike)" "in_window now2 ts (sv_window_ms scfg) (sv_skew_ms scfg)"
    and laws: "io_laws io inc fin out up" and net: "sent io out up wc []"
      "pending io inc fin rc (encode (ServerHello 1 (sv_server_pk scfg) (sv_certificate scfg) now1) # answer)"
    and app: "fin app_r = None" "up app_w"
  shows "\<exists>p a0 s. client_task io C X ccfg verifier force (Some addr) None ts app_r app_w
        \<lparr>cs_reader = rc, cs_writer = wc, cs_shared = g\<rparr> = (Some (sv_server_pk scfg, Ok a0), s) \<and>
    (\<forall>a xa rs ws tr tw. (fstep io C)\<^sup>*\<^sup>* a0 a \<longrightarrow> fw_up a = UpDone xa \<longrightarrow>
      inc rs = out (fw_tun_w a) \<longrightarrow> fin rs = None \<longrightarrow> up ws \<longrightarrow> out ws = [] \<longrightarrow> fin tr = None \<longrightarrow> up tw \<longrightarrow>
      tag_fresh (others strike) now2 (payload_tag (V1 C) p) \<longrightarrow>
      (\<exists>b0 s'. server_task io C scfg peer now1 others now2 (Ok (tr, tw))
          \<lparr>cs_reader = rs, cs_writer = ws, cs_shared = strike\<rparr> = (Some (Ok b0), s') \<and>
        (\<forall>b. (fstep io C)\<^sup>*\<^sup>* b0 b \<longrightarrow> delivered out (out tw @ inc app_r) b) \<and>
        (\<forall>b xb. (fstep io C)\<^sup>*\<^sup>* b0 b \<longrightarrow> fw_up b = UpDone xb \<longrightarrow> inc rc = out (fw_tun_w b) \<longrightarrow>
          (\<forall>a'. (fstep io C)\<^sup>*\<^sup>* a0 a' \<longrightarrow> delivered out (out app_w @ inc tr) a'))))"
proof -
  let ?hello = "encode (ServerHello 1 (sv_server_pk scfg) (sv_certificate scfg) now1)"
  obtain p ce ca a0 s where task: "client_task io C X ccfg verifier force (Some addr) None ts app_r app_w
        \<lparr>cs_reader = rc, cs_writer = wc, cs_shared = g\<rparr> = (Some (sv_server_pk scfg, Ok a0), s)"
    and a0: "forward_start io app_r app_w ca None [] = Ok a0" and ca: "oc_role ca = Client" "oc_record ca = ce_record ce"
      "pending io inc fin (oc_reader ca) answer"
      "sent io out up (oc_writer ca) [encode (client_one_rtt_hello (V1 C) ccfg), encode (ClientData (cc_client_pk ccfg) p)]"
    and p: "payload_for C ccfg (sv_kem_secret scfg) (ip_to_bytes addr) ts [] p ce"
    by (rule client_task_first_contact [OF assms(1-4) scfg net app(2)])
  have ends: "fin (oc_reader ca) = None" and left: "encode_framed ?hello @ inc (oc_reader ca) = inc rc"
    using ca(3) net(2) by (simp_all add: pending_def)
  note both = answered_both_ways [where others = others and strike = strike,
      OF assms(1,3,5) laws a0 ca(1,2) ends ca(4) p [folded assms(6)] app strike(2,1), where ?now1.0 = now1, unfolded left eq_commute [of _ "inc rc"]]
  show ?thesis
    by (rule exI [of _ p], rule exI [of _ a0], rule exI [of _ s], rule conjI [OF task], intro allI impI, rule both)
qed

text \<open>The up task of a freshly started end can run to its end.\<close>

lemma up_task_completes:
  assumes "forward_start io app_r app_w conn wanted [] = Ok a0" "io_laws io inc fin out up"
    and "rl_valid C (oc_record conn)" "fin app_r = None" "sent io out up (oc_writer conn) B"
  shows "\<exists>a. (fstep io C)\<^sup>*\<^sup>* a0 a \<and> fw_up a = UpDone (Ok ())"
proof -
  have "up_inv io C inc fin out up (oc_record conn) B (inc app_r) a0"
    using assms(4,5) by (intro up_inv_start [OF assms(1,3) rl.same_refl]) (simp_all add: sent_def)
  from up_completes_from [OF this assms(2)] show ?thesis
    by (simp add: forward_start_fields [OF assms(1)] split: option.split)
qed

end
