(* ===== verification/System.thy ===== *)
theory System
  imports Dialling Serving Tunnel
begin

text \<open>
  The whole system: the concurrent client of \<open>Dialling\<close> and the concurrent server of \<open>Serving\<close>, each
  with any number of tasks in any interleaving. What is shown of a pair of connection tasks in
  \<open>Tunnel\<close> is carried over to any task of the one and any task of the other that are connected.
  Then what the running server does with the flight of an honest client, and with a recorded stream
  whose payload somebody else has signed anew.
\<close>

section \<open>What a task that forwards has accepted\<close>

lemma cache_ok: "sc_ok (serve_uses C scfg us (run_server_init scfg))"
  by (rule serve_uses_ok(1) [OF run_server_init_ok(1)])

text \<open>The payload of a client whose first or second flight got a server task to forwarding.\<close>

definition payload_taken where
  "payload_taken C scfg peer now strike p \<longleftrightarrow> kp_src_ip p = ip_to_bytes peer \<and>
     in_window now (kp_ts_millis p) (sv_window_ms scfg) (sv_skew_ms scfg) \<and> tag_fresh strike now (payload_tag (V1 C) p)"

lemma processed_taken:
  "sc_ok strike \<Longrightarrow> process_payload C (V1 C) scfg pk p (ip_to_bytes peer) now strike = (Ok se, strike') \<Longrightarrow>
    payload_taken C scfg peer now strike p"
  by (simp add: process_payload_Ok_iff precheck_Ok_iff payload_taken_def)

lemma first_flight_taken:
  assumes "server_task io C scfg peer now1 others now2 target \<lparr>cs_reader = rs, cs_writer = ws, cs_shared = strike\<rparr> = (Some x, s')"
    and "pending io inc fin rs (encode (ClientHelloZeroRtt 1 pk p) # later)" "sc_ok strike"
    and "frame_ok (ClientHelloZeroRtt 1 pk p)" "length (encode (ClientHelloZeroRtt 1 pk p)) \<le> MAX_FRAME"
  shows "payload_taken C scfg peer now1 strike p"
proof -
  let ?f = "ClientHelloZeroRtt 1 pk p"
  obtain r where r: "next_body io \<lparr>cs_reader = rs, cs_writer = ws, cs_shared = strike\<rparr> =
      (Ok (encode ?f), \<lparr>cs_reader = r, cs_writer = ws, cs_shared = strike\<rparr>)"
    using next_body_pending [OF assms(2), of ws strike] by blast
  obtain y strike' where y: "server_on_first C (V1 C) scfg ?f (ip_to_bytes peer) now1 strike = (y, strike')" by fastforce
  with r assms(1) obtain step where "y = Ok step"
    by (cases y) (auto simp: server_task_def server_accept_def sbind_def on_shared_def decode_encode [OF assms(4,5)])
  with y have "server_on_first C (V1 C) scfg ?f (ip_to_bytes peer) now1 strike = (Ok step, strike')" by simp
  then obtain se where "process_payload C (V1 C) scfg pk p (ip_to_bytes peer) now1 strike = (Ok se, strike')"
    by (auto simp: server_on_first_def sbind_def split: prod.splits result.splits)
  with assms(3) show ?thesis by (rule processed_taken)
qed

lemma second_flight_taken:
  assumes "server_task io C scfg peer now1 others now2 target \<lparr>cs_reader = rs, cs_writer = ws, cs_shared = strike\<rparr> = (Some x, s')"
    and "pending io inc fin rs (encode (client_one_rtt_hello (V1 C) ccfg) # encode (ClientData pk p) # later)" "sc_ok (others strike)"
    and "sent io out up ws []" "length (cc_client_pk ccfg) = 1952"
    and "frame_ok (ClientData pk p)" "length (encode (ClientData pk p)) \<le> MAX_FRAME"
  shows "payload_taken C scfg peer now2 (others strike) p"
proof -
  let ?h = "client_one_rtt_hello (V1 C) ccfg" and ?f = "ClientData pk p"
  let ?hello = "ServerHello 1 (sv_server_pk scfg) (sv_certificate scfg) now1"
  have h: "frame_ok ?h" "length (encode ?h) \<le> MAX_FRAME"
    using assms(5) by (simp_all add: client_one_rtt_hello_def encode_eq MAX_FRAME_def)
  have first: "server_on_first C (V1 C) scfg ?h (ip_to_bytes peer) now1 strike = (Ok (OneRtt ?hello), strike)"
    by (simp add: server_on_first_one_rtt)
  obtain r1 where r1: "next_body io \<lparr>cs_reader = rs, cs_writer = ws, cs_shared = strike\<rparr> =
      (Ok (encode ?h), \<lparr>cs_reader = r1, cs_writer = ws, cs_shared = strike\<rparr>)" "pending io inc fin r1 (encode ?f # later)"
    using next_body_pending [OF assms(2), of ws strike] by blast
  obtain w where w: "on_writer Io (write_frame io (encode ?hello)) \<lparr>cs_reader = r1, cs_writer = ws, cs_shared = strike\<rparr> =
      (Ok (), \<lparr>cs_reader = r1, cs_writer = w, cs_shared = strike\<rparr>)"
    using on_writer_sent [OF assms(4), where r = r1 and x = strike] by fastforce
  obtain r2 where r2: "next_body io \<lparr>cs_reader = r1, cs_writer = w, cs_shared = strike\<rparr> =
      (Ok (encode ?f), \<lparr>cs_reader = r2, cs_writer = w, cs_shared = strike\<rparr>)"
    using next_body_pending [OF r1(2), of w strike] by blast
  obtain y strike' where y: "server_on_client_data C (V1 C) scfg ?f (ip_to_bytes peer) now2 (others strike) = (y, strike')" by fastforce
  from assms(1) obtain se where "y = Ok se"
    using r1(1) w r2 first y
    by (cases y) (auto simp: server_task_def server_accept_def sbind_def on_shared_def decode_encode [OF h] decode_encode [OF assms(6,7)])
  with y have "process_payload C (V1 C) scfg pk p (ip_to_bytes peer) now2 (others strike) = (Ok se, strike')"
    by (simp add: server_on_client_data_ClientData)
  with assms(3) show ?thesis by (rule processed_taken)
qed


section \<open>A pair of connected tasks\<close>

text \<open>A client that knows the server's key.\<close>

lemma zero_rtt_pair:
  assumes "crates_ok C" "good_client C ccfg" "ip_ok addr" "io_laws io inc fin out up" "rng_ok g"
    and client: "client_task io C X ccfg verifier False (Some addr) (Some (kem_public (V1 C) (sv_kem_secret scfg))) ts app_r app_w
      \<lparr>cs_reader = rc, cs_writer = wc, cs_shared = g\<rparr> = (Some (pk, Ok a0), s)" "(fstep io C)\<^sup>*\<^sup>* a0 a" "fw_up a = UpDone xa"
    and server: "server_task io C scfg peer now1 others now2 (Ok (tr, tw))
      \<lparr>cs_reader = rs, cs_writer = ws, cs_shared = strike\<rparr> = (Some (Ok b0), s')" "(fstep io C)\<^sup>*\<^sup>* b0 b" "sc_ok strike"
    and rc: "fin rc = None" "up wc" "out wc = []" "fin app_r = None" "up app_w"
    and rs: "fin rs = None" "up ws" "out ws = []" "fin tr = None" "up tw" and there: "inc rs = out (fw_tun_w a)"
  shows "delivered out (out tw @ inc app_r) b \<and>
    (\<forall>xb. fw_up b = UpDone xb \<longrightarrow> inc rc = out (fw_tun_w b) \<longrightarrow> delivered out (out app_w @ inc tr) a)"
proof -
  have wok: "write_ok io out up" and rok: "read_exact_ok io inc fin" using io_lawsD [OF assms(4)] by simp_all
  have wc: "sent io out up wc []" using wok rc by (simp add: sent_def)
  obtain p ce ca a0' s1 where task: "client_task io C X ccfg verifier False (Some addr) (Some (kem_public (V1 C) (sv_kem_secret scfg))) ts app_r app_w
      \<lparr>cs_reader = rc, cs_writer = wc, cs_shared = g\<rparr> = (Some (kem_public (V1 C) (sv_kem_secret scfg), Ok a0'), s1)"
    and a0: "forward_start io app_r app_w ca (Some (ce_expected_ek_hash ce)) [] = Ok a0'"
    and ca: "oc_role ca = Client" "oc_reader ca = rc" "oc_record ca = ce_record ce" "rl_valid C (ce_record ce)"
      "sent io out up (oc_writer ca) [encode (ClientHelloZeroRtt 1 (cc_client_pk ccfg) p)]"
    and fits: "frame_ok (ClientHelloZeroRtt 1 (cc_client_pk ccfg) p)"
      "length (encode (ClientHelloZeroRtt 1 (cc_client_pk ccfg) p)) \<le> MAX_FRAME"
    and p: "payload_for C ccfg (sv_kem_secret scfg) (ip_to_bytes addr) ts [] p ce"
    by (rule client_task_flight [OF assms(1,5,2,3) wc rc(5)])
  have same: "a0' = a0" using task client(1) by simp
  have a0_a: "(fstep io C)\<^sup>*\<^sup>* a0' a" using same client(2) by simp
  have fin: "fin (oc_reader ca) = None" and valid: "rl_valid C (oc_record ca)" using ca rc(1) by simp_all
  obtain later where later: "out (fw_tun_w a) = concat (map encode_framed ([encode (ClientHelloZeroRtt 1 (cc_client_pk ccfg) p)] @ later))"
      "\<forall>b \<in> set later. length b \<le> MAX_FRAME"
    by (rule up_task_carries [OF a0 assms(4) valid rc(4) ca(5) a0_a client(3)])
  have stream: "pending io inc fin rs (encode (ClientHelloZeroRtt 1 (cc_client_pk ccfg) p) # later)"
    using rok rs(1) there later fits(2) by (simp add: pending_def)
  have taken: "payload_taken C scfg peer now1 strike p"
    by (rule first_flight_taken [OF server(1) stream server(3) fits])
  then have now: "ip_to_bytes peer = ip_to_bytes addr" "in_window now1 ts (sv_window_ms scfg) (sv_skew_ms scfg)"
      "tag_fresh strike now1 (payload_tag (V1 C) p)"
    using p by (auto simp: payload_taken_def payload_for_def)
  then have served: "flight_served io C scfg (ip_to_bytes peer) now1 strike out up (cc_client_pk ccfg) p [] ce"
    using honest_flight_served [OF p now(2) server(3) now(3) fits] by simp
  obtain b0' s2 where b0: "server_task io C scfg peer now1 others now2 (Ok (tr, tw))
        \<lparr>cs_reader = rs, cs_writer = ws, cs_shared = strike\<rparr> = (Some (Ok b0'), s2)"
      "\<forall>b. (fstep io C)\<^sup>*\<^sup>* b0' b \<longrightarrow> delivered out (out tw @ inc app_r) b"
      "\<forall>b xb. (fstep io C)\<^sup>*\<^sup>* b0' b \<longrightarrow> fw_up b = UpDone xb \<longrightarrow> inc (oc_reader ca) = out (fw_tun_w b) \<longrightarrow>
        (\<forall>a'. (fstep io C)\<^sup>*\<^sup>* a0' a' \<longrightarrow> delivered out (out app_w @ inc tr) a')"
    using served_both_ways [OF assms(1,4) a0 ca(1,3-5) fits(2) fin rc(4,5) served a0_a client(3) there rs] by blast
  have "b0' = b0" using b0(1) server(1) by simp
  with b0(2,3) server(2) a0_a ca(2) show ?thesis by blast
qed

text \<open>What a server task has written before it forwards: its hello, or the acknowledgement.\<close>

lemma unwrap_valid: "crates_ok C \<Longrightarrow> unwrap_payload C (V1 C) sk p = Ok se \<Longrightarrow> rl_valid C (se_record se)"
proof -
  assume C: "crates_ok C" and "unwrap_payload C (V1 C) sk p = Ok se"
  then obtain shared keys early where keys: "derive_session_keys (V1 C) shared (kp_ciphertext p) = Ok keys"
      "rl_open C (V1 C) ClientToServer (kp_enc_data p) (rl_new C keys (kp_nonce p)) = (Ok early, se_record se)"
    by (auto simp: unwrap_payload_def outcome_iff Let_def case_prod_unfold prod_eq_iff)
  have "length (enc_key keys) = 32" using v1.derive_total [OF C, of shared "kp_ciphertext p"] keys(1) by auto
  then have "rl_valid C (rl_new C keys (kp_nonce p))" using C by (simp add: rl_valid_def rl_new_def Let_def)
  from rl.valid_open [OF this, of ClientToServer "kp_enc_data p"] keys(2) show ?thesis by simp
qed

lemma server_task_wrote:
  assumes "crates_ok C" "sent io out up ws []"
    and "server_task io C scfg peer now1 others now2 (Ok (tr, tw)) \<lparr>cs_reader = rs, cs_writer = ws, cs_shared = strike\<rparr> = (Some (Ok b0), s')"
    and "sc_ok strike" "sc_ok (others strike)"
  obtains conn early f where "forward_start io tr tw conn None early = Ok b0" "rl_valid C (oc_record conn)"
    "sent io out up (oc_writer conn) [encode f]"
    "f = ServerHello 1 (sv_server_pk scfg) (sv_certificate scfg) now1 \<or> (\<exists>h. f = ServerAck h \<and> length h = 64)"
proof -
  let ?s = "\<lparr>cs_reader = rs, cs_writer = ws, cs_shared = strike\<rparr>"
  obtain so where so: "server_accept io C (ip_to_bytes peer) scfg now1 others now2 ?s = (Ok so, s')"
      "forward_start io tr tw (so_conn so) None (so_early_data so) = Ok b0"
    using assms(3) by (auto simp: server_task_def split: prod.splits result.splits)
  obtain second pk p now strike1 se where "payload_in io (cs_reader ?s) second pk p"
    and se: "(now, strike1) = (if second then (now2, others (cs_shared ?s)) else (now1, cs_shared ?s))"
      "process_payload C (V1 C) scfg pk p (ip_to_bytes peer) now strike1 = (Ok se, cs_shared s')" "oc_record (so_conn so) = se_record se"
    and wrote: "\<exists>f. write_frame io (encode f) (cs_writer ?s) = (Ok (), oc_writer (so_conn so)) \<and>
      (f = ServerAck (enc_key_hash (V1 C) (se_record se)) \<or> f = server_hello (V1 C) scfg now1)"
    by (rule server_accept_run [OF so(1)])
  have ok: "sc_ok strike1" using se(1) assms(4,5) by (simp split: if_splits)
  have valid: "rl_valid C (oc_record (so_conn so))"
    using se(2,3) unwrap_valid [OF assms(1)] process_payload_Ok_iff [OF ok] by metis
  from wrote obtain f where f: "write_frame io (encode f) ws = (Ok (), oc_writer (so_conn so))"
      "f = ServerAck (enc_key_hash (V1 C) (se_record se)) \<or> f = server_hello (V1 C) scfg now1" by auto
  have "sent io out up (oc_writer (so_conn so)) [encode f]"
    using sink.send_next [OF assms(2), of "encode f"] f(1) by auto
  moreover have "f = ServerHello 1 (sv_server_pk scfg) (sv_certificate scfg) now1 \<or> (\<exists>h. f = ServerAck h \<and> length h = 64)"
    using f(2) v1.hash_lengths [OF assms(1)] by (auto simp: server_hello_def enc_key_hash_def)
  ultimately show thesis using that so(2) valid by blast
qed

text \<open>A client on first contact has got the server's hello, and has accepted it.\<close>

lemma hello_received:
  assumes "client_task io C X ccfg verifier force addr None ts app_r app_w
      \<lparr>cs_reader = rc, cs_writer = wc, cs_shared = g\<rparr> = (Some (pk, x), s)" "sent io out up wc []"
    and "pending io inc fin rc (encode f # answer)" "frame_ok f" "length (encode f) \<le> MAX_FRAME"
  shows "\<exists>suite certificate t. f = ServerHello suite pk certificate t \<and> sv_verify X verifier pk certificate = Ok ()"
proof -
  obtain w where w: "write_frame io (encode (client_one_rtt_hello (V1 C) ccfg)) wc = (Ok (), w)"
    using sink.send_next [OF assms(2)] by blast
  obtain r where r: "read_decoded io rc w = Some (f, r)"
    using next_body_pending [OF assms(3), of w "()"] decode_encode [OF assms(4,5)] by (auto simp: read_decoded_def)
  obtain co where co: "client_open io C X ccfg (local_src_ip addr) None force verifier ts []
      \<lparr>cs_reader = rc, cs_writer = wc, cs_shared = g\<rparr> = (Ok co, s)" "pk = co_server_pk co"
    using assms(1) by (auto simp: client_task_def split: prod.splits result.splits)
  obtain pk' r' where hello: "await_hello io X verifier None rc w = Some (pk', r')"
    using client_open_first_contact(2) [OF disjI1 [OF refl] w] co(1) by (metis fst_conv not_Some_eq surj_pair)
  have "co_server_pk co = pk'"
    using co(1) unfolding client_open_first_contact(1) [OF disjI1 [OF refl] w hello]
    by (auto simp: opened_conn_def elim!: built_flight_OkD [where ack = "\<lambda>_. None"])
  with hello r co(2) show ?thesis
    by (auto simp: await_hello_def split: frame.splits result.splits)
qed

text \<open>All that a server task has sent, when its up task has ended.\<close>

lemma server_reply:
  assumes "crates_ok C" "io_laws io inc fin out up" "length (sv_certificate scfg) \<le> MAX_EARLY"
    and "sv_server_pk scfg = kem_public (V1 C) (sv_kem_secret scfg)"
    and server: "server_task io C scfg peer now1 others now2 (Ok (tr, tw))
      \<lparr>cs_reader = rs, cs_writer = ws, cs_shared = strike\<rparr> = (Some (Ok b0), s')" "(fstep io C)\<^sup>*\<^sup>* b0 b" "fw_up b = UpDone xb"
      "sc_ok strike" "sc_ok (others strike)" "sent io out up ws []" "fin tr = None"
    and rc: "inc rc = out (fw_tun_w b)" "fin rc = None"
  obtains f answer where "pending io inc fin rc (encode f # answer)" "frame_ok f" "length (encode f) \<le> MAX_FRAME"
    "f = ServerHello 1 (sv_server_pk scfg) (sv_certificate scfg) now1 \<or> (\<exists>h. f = ServerAck h \<and> length h = 64)"
proof -
  obtain cb early f where cb: "forward_start io tr tw cb None early = Ok b0" "rl_valid C (oc_record cb)"
      "sent io out up (oc_writer cb) [encode f]"
    and f: "f = ServerHello 1 (sv_server_pk scfg) (sv_certificate scfg) now1 \<or> (\<exists>h. f = ServerAck h \<and> length h = 64)"
    by (rule server_task_wrote [OF assms(1) server(6,1,4,5)])
  have wb: "up (oc_writer cb)" "out (oc_writer cb) = concat (map encode_framed [encode f])" using cb(3) by (simp_all add: sent_def)
  let ?bodies = "\<lambda>q. map (record_body (send_dir (oc_role cb)) \<circ> fst) q @ [encode Close]"
  obtain q where "xb = Ok ()" "records_in_flight C (send_dir (oc_role cb)) (fw_record b) (oc_record cb) q"
    and q: "\<forall>(ct, pt) \<in> set q. length ct \<le> CHUNK + 16" "concat (map snd q) = inc tr"
      "out (fw_tun_w b) = concat (map encode_framed ([encode f] @ ?bodies q))"
    by (rule up_task_done [OF cb(1) assms(2) cb(2) server(7) wb server(2,3)])
  have fits: "frame_ok f" "length (encode f) \<le> MAX_FRAME"
    using f assms(3,4) v1.kem_public_length [OF assms(1)]
    by (auto simp: encode_eq MAX_FRAME_def MAX_EARLY_def V1_def ML_KEM_768_EK_def)
  moreover have "pending io inc fin rc (encode f # ?bodies q)"
    using io_lawsD(1) [OF assms(2)] rc q fits(2) bodies_fit [OF q(1), of "[encode Close]" None "send_dir (oc_role cb)"]
    by (simp add: pending_def ack_bodies_def)
  ultimately show thesis using that f by blast
qed

text \<open>The two flights of a client, and what the server task that forwards has found in them.\<close>

lemma flights_taken:
  assumes "crates_ok C" "good_client C ccfg" "ip_ok addr" "io_laws io inc fin out up"
    and a0: "forward_start io app_r app_w ca None [] = Ok a0" "oc_record ca = ce_record ce"
      "sent io out up (oc_writer ca) [encode (client_one_rtt_hello (V1 C) ccfg), encode (ClientData (cc_client_pk ccfg) p)]"
    and p: "payload_for C ccfg (sv_kem_secret scfg) (ip_to_bytes addr) ts [] p ce"
    and a: "(fstep io C)\<^sup>*\<^sup>* a0 a" "fw_up a = UpDone xa" "fin app_r = None"
    and server: "server_task io C scfg peer now1 others now2 target
      \<lparr>cs_reader = rs, cs_writer = ws, cs_shared = strike\<rparr> = (Some x, s')" "sc_ok (others strike)" "sent io out up ws []"
      "fin rs = None" "inc rs = out (fw_tun_w a)"
  shows "ip_to_bytes peer = ip_to_bytes addr \<and> in_window now2 ts (sv_window_ms scfg) (sv_skew_ms scfg) \<and>
    tag_fresh (others strike) now2 (payload_tag (V1 C) p)"
proof -
  have pk: "length (cc_client_pk ccfg) = 1952" by (rule good_client_pk_length [OF assms(1,2)])
  have valid: "rl_valid C (oc_record ca)" using payload_for_valid [OF p] a0(2) by simp
  obtain later where later: "out (fw_tun_w a) = concat (map encode_framed
        ([encode (client_one_rtt_hello (V1 C) ccfg), encode (ClientData (cc_client_pk ccfg) p)] @ later))"
      "\<forall>b \<in> set later. length b \<le> MAX_FRAME"
    by (rule up_task_carries [OF a0(1) assms(4) valid a(3) a0(3) a(1,2)])
  have data: "frame_ok (ClientData (cc_client_pk ccfg) p)" "length (encode (ClientData (cc_client_pk ccfg) p)) \<le> MAX_FRAME"
    using honest_flight_fits [OF p ip_to_bytes_length [OF assms(3)] _ pk, of "ClientData (cc_client_pk ccfg) p"] by simp_all
  have "pending io inc fin rs (encode (client_one_rtt_hello (V1 C) ccfg) # encode (ClientData (cc_client_pk ccfg) p) # later)"
    using io_lawsD(1) [OF assms(4)] server(4,5) later data(2) pk
    by (simp add: pending_def client_one_rtt_hello_def encode_eq MAX_FRAME_def)
  from second_flight_taken [where others = others and strike = strike, OF server(1) this server(2,3) pk data] p
  show ?thesis by (auto simp: payload_taken_def payload_for_def)
qed

lemma first_contact_pair:
  assumes "crates_ok C" "good_client C ccfg" "ip_ok addr" "ip_ok peer" "io_laws io inc fin out up" "rng_ok g"
    and scfg: "sv_server_pk scfg = kem_public (V1 C) (sv_kem_secret scfg)" "length (sv_certificate scfg) \<le> MAX_EARLY"
    and client: "client_task io C X ccfg verifier force (Some addr) None ts app_r app_w
      \<lparr>cs_reader = rc, cs_writer = wc, cs_shared = g\<rparr> = (Some (pk, Ok a0), s)" "(fstep io C)\<^sup>*\<^sup>* a0 a" "fw_up a = UpDone xa"
    and server: "server_task io C scfg peer now1 others now2 (Ok (tr, tw))
      \<lparr>cs_reader = rs, cs_writer = ws, cs_shared = strike\<rparr> = (Some (Ok b0), s')" "(fstep io C)\<^sup>*\<^sup>* b0 b" "fw_up b = UpDone xb"
      "sc_ok strike" "sc_ok (others strike)"
    and rc: "fin rc = None" "up wc" "out wc = []" "fin app_r = None" "up app_w"
    and rs: "fin rs = None" "up ws" "out ws = []" "fin tr = None" "up tw"
    and there: "inc rs = out (fw_tun_w a)" and answer: "inc rc = out (fw_tun_w b)"
  shows "pk = sv_server_pk scfg \<and> delivered out (out tw @ inc app_r) b \<and> delivered out (out app_w @ inc tr) a"
proof -
  have wc: "sent io out up wc []" and ws: "sent io out up ws []"
    using io_lawsD(3) [OF assms(5)] rc rs by (simp_all add: sent_def)
  let ?hello = "ServerHello 1 (sv_server_pk scfg) (sv_certificate scfg) now1"
  obtain f reply where reply: "pending io inc fin rc (encode f # reply)" "frame_ok f" "length (encode f) \<le> MAX_FRAME"
      "f = ?hello \<or> (\<exists>h. f = ServerAck h \<and> length h = 64)"
    by (rule server_reply [where others = others and strike = strike, OF assms(1,5) scfg(2,1) server ws rs(4) answer rc(1)])
  from hello_received [OF client(1) wc reply(1-3)] reply(4)
  have hello: "f = ?hello" "pk = sv_server_pk scfg" "sv_verify X verifier (sv_server_pk scfg) (sv_certificate scfg) = Ok ()" by auto
  obtain p ce ca a0' s1 where task: "client_task io C X ccfg verifier force (Some addr) None ts app_r app_w
        \<lparr>cs_reader = rc, cs_writer = wc, cs_shared = g\<rparr> = (Some (sv_server_pk scfg, Ok a0'), s1)"
    and a0: "forward_start io app_r app_w ca None [] = Ok a0'" and ca: "oc_role ca = Client" "oc_record ca = ce_record ce"
      "pending io inc fin (oc_reader ca) reply"
      "sent io out up (oc_writer ca) [encode (client_one_rtt_hello (V1 C) ccfg), encode (ClientData (cc_client_pk ccfg) p)]"
    and p: "payload_for C ccfg (sv_kem_secret scfg) (ip_to_bytes addr) ts [] p ce"
    by (rule client_task_first_contact [OF assms(1,6,2,3) scfg hello(3) wc reply(1) [unfolded hello(1)] rc(5)])
  have a0_a: "(fstep io C)\<^sup>*\<^sup>* a0' a" using task client(1,2) by simp
  have left: "out (fw_tun_w b) = encode_framed (encode ?hello) @ inc (oc_reader ca)" "fin (oc_reader ca) = None"
    using ca(3) reply(1) answer hello(1) by (simp_all add: pending_def)
  have now: "ip_to_bytes peer = ip_to_bytes addr" "in_window now2 ts (sv_window_ms scfg) (sv_skew_ms scfg)"
      "tag_fresh (others strike) now2 (payload_tag (V1 C) p)"
    using flights_taken [where others = others and strike = strike,
        OF assms(1-3,5) a0 ca(2,4) p a0_a client(3) rc(4) server(1,5) ws rs(1) there] by simp_all
  obtain b0' s2 where b0: "server_task io C scfg peer now1 others now2 (Ok (tr, tw))
        \<lparr>cs_reader = rs, cs_writer = ws, cs_shared = strike\<rparr> = (Some (Ok b0'), s2)"
      "\<forall>b. (fstep io C)\<^sup>*\<^sup>* b0' b \<longrightarrow> delivered out (out tw @ inc app_r) b"
      "\<forall>b xb. (fstep io C)\<^sup>*\<^sup>* b0' b \<longrightarrow> fw_up b = UpDone xb \<longrightarrow> out (fw_tun_w b) = encode_framed (encode ?hello) @ inc (oc_reader ca) \<longrightarrow>
        (\<forall>a'. (fstep io C)\<^sup>*\<^sup>* a0' a' \<longrightarrow> delivered out (out app_w @ inc tr) a')"
    using answered_both_ways [where others = others and strike = strike,
        OF assms(1,2,4,5) a0 ca(1,2) left(2) ca(4) p [folded now(1)] rc(4,5) now(2) server(5) now(3) a0_a client(3) there rs, of now1] by blast
  have "b0' = b0" using b0(1) server(1) by simp
  with b0(2,3) server(2,3) a0_a left(1) hello(2) show ?thesis by blast
qed


section \<open>Properties\<close>

text \<open>
  C1. The whole system is transparent. Let the concurrent client and the concurrent server run, each
  with any number of connections in any interleaving. Take any task of the client that forwards,
  on first contact or with the server's key as its copy of the pin, and any task of the server
  that forwards, such that each gets from its socket what the other has written, and the up
  tasks of both have read their plaintext sockets to the end. Then the target has been written
  a prefix of the application's bytes, and all of them, without an error, if the server's down
  task has ended; and the application a prefix of the target's bytes, and all of them if the
  client's down task has ended. Nothing is assumed of the clocks, the addresses and the strike cache:
  that the server's task forwards shows that they were in order.
\<close>

theorem concurrent_tunnel_end_to_end:
  assumes "crates_ok C" "good_client C ccfg" "io_laws io inc fin out up" "rng_ok g"
    and scfg: "sv_server_pk scfg = kem_public (V1 C) (sv_kem_secret scfg)" "length (sv_certificate scfg) \<le> MAX_EARLY"
    and client: "(dial_step io C X ccfg verifier False)\<^sup>*\<^sup>* (run_client_start g) st" "c \<in> set (dl_conns st)"
      "dc_pc c = Tunnelled a" "fw_up a = UpDone xa" "dc_cached c = None \<or> dc_cached c = Some (sv_server_pk scfg)"
    and server: "(serve_step io C scfg)\<^sup>*\<^sup>* (run_server_start scfg) st'" "d \<in> set (sl_conns st')"
      "sn_pc d = Forwarding (tr, tw) b" "fw_up b = UpDone xb"
    and ips: "dc_addr c = Some addr" "ip_ok addr" "ip_ok (sn_peer d)"
    and app: "dc_app c = (app_r, app_w)" "fin app_r = None" "up app_w" and target: "fin tr = None" "up tw"
    and rc: "dc_ortd c = Some (rc, wc)" "fin rc = None" "up wc" "out wc = []"
    and rs: "fin (sn_reader d) = None" "up (sn_writer d)" "out (sn_writer d) = []"
    and wire: "inc (sn_reader d) = out (fw_tun_w a)" "inc rc = out (fw_tun_w b)"
  shows "delivered out (out tw @ inc app_r) b \<and> delivered out (out app_w @ inc tr) a"
proof -
  obtain l ts g' s pk a0 where "(client_step io C X ccfg verifier False)\<^sup>*\<^sup>* run_client_init l" and a0: "rng_ok g'"
      "client_task io C X ccfg verifier False (Some addr) (dc_cached c) ts app_r app_w
        \<lparr>cs_reader = rc, cs_writer = wc, cs_shared = g'\<rparr> = (Some (pk, Ok a0), s)" "(fstep io C)\<^sup>*\<^sup>* a0 a"
    and "pk \<in> set (cl_established l)" "\<forall>pin. dc_cached c = Some pin \<longrightarrow> pk = pin"
    by (rule forwarding_client_task [OF assms(4) client(1-3), unfolded ips(1) app(1) rc(1) option.sel fst_conv snd_conv])
  obtain us vs now1 now2 s' b0 where b0: "server_task io C scfg (sn_peer d) now1 (serve_uses C scfg vs) now2 (Ok (tr, tw))
      \<lparr>cs_reader = sn_reader d, cs_writer = sn_writer d, cs_shared = serve_uses C scfg us (run_server_init scfg)\<rparr> =
      (Some (Ok b0), s')" "(fstep io C)\<^sup>*\<^sup>* b0 b"
    using forwarding_task [OF server(1-3)] by blast
  have ok: "sc_ok (serve_uses C scfg us (run_server_init scfg))" "sc_ok (serve_uses C scfg vs (serve_uses C scfg us (run_server_init scfg)))"
    using cache_ok serve_uses_ok(1) by blast+
  from client(5) show ?thesis
  proof
    assume "dc_cached c = None"
    from first_contact_pair [OF assms(1,2) ips(2,3) assms(3) a0(1) scfg a0(2) [unfolded this] a0(3) client(4) b0 server(4) ok
        rc(2-4) app(2,3) rs target wire] show ?thesis by simp
  next
    assume "dc_cached c = Some (sv_server_pk scfg)"
    from zero_rtt_pair [OF assms(1,2) ips(2) assms(3) a0(1) a0(2) [unfolded this scfg(1)] a0(3) client(4) b0 ok(1)
        rc(2-4) app(2,3) rs target wire(1)] server(4) wire(2) show ?thesis by blast
  qed
qed

text \<open>
  A sample system: a client that sends three bytes on first contact, a server whose target sends
  nothing, and the sockets between them.
\<close>

abbreviation sample_greeting :: frame where
  "sample_greeting \<equiv> ServerHello 1 (sv_server_pk sample_server) (sv_certificate sample_server) 1000000"

abbreviation sample_ortd :: "bytes \<times> io_error option" where
  "sample_ortd \<equiv> (concat (map encode_framed [encode sample_greeting, encode Close]), None)"

lemma sample_greeting_fits: "pending sample_io fst snd sample_ortd (encode sample_greeting # [encode Close])"
  using sample_pending [of "[encode sample_greeting, encode Close]"] v1.kem_public_length [OF sample_crates_ok, of 9]
  by (simp add: sample_server_def encode_eq MAX_FRAME_def V1_def ML_KEM_768_EK_def)

lemma empty_up_runs:
  assumes "forward_start sample_io ([], None) pw conn None early = Ok b0" "sent sample_io fst snd (oc_writer conn) B"
  obtains b where "(fstep sample_io C)\<^sup>*\<^sup>* b0 b" "fw_up b = UpDone (Ok ())" "fst (fw_tun_w b) = concat (map encode_framed (B @ [encode Close]))"
proof -
  note b0 = forward_start_fields [OF assms(1)]
  obtain w where w: "write_frame sample_io (encode Close) (oc_writer conn) = (Ok (), w)" "sent sample_io fst snd w (B @ [encode Close])"
    using sink.send_next [OF assms(2)] by blast
  let ?b1 = "b0\<lparr>fw_plain_r := ([], None), fw_up := UpClose\<rparr>" let ?b2 = "?b1\<lparr>fw_tun_w := w, fw_up := UpShutdown\<rparr>"
  let ?b3 = "?b2\<lparr>fw_tun_w := (fst w, False), fw_up := UpDone (Ok ())\<rparr>"
  have "fstep sample_io C b0 ?b1" using fstep.up [of b0 sample_io C] b0 by (simp add: sample_io_def)
  moreover have "fstep sample_io C ?b1 ?b2" using fstep.up [of ?b1 sample_io C] b0 w(1) by simp
  moreover have "fstep sample_io C ?b2 ?b3"
    using fstep.up [of ?b2 sample_io C] b0 by (simp add: fw_shutdown_def sample_io_def case_prod_unfold)
  ultimately have "(fstep sample_io C)\<^sup>*\<^sup>* b0 ?b3" by (elim converse_rtranclp_into_rtranclp r_into_rtranclp)
  moreover have "fst w = concat (map encode_framed (B @ [encode Close]))" using w(2) by (simp add: sent_def)
  ultimately show thesis using that by simp
qed

lemma sample_tasks:
  obtains a0 s a b0 s' b where
    "client_task sample_io sample_crates sample_x509 sample_client TrustOnFirstUse False (Some (V6 (replicate 16 1))) None 1000900
      ([1, 2, 3], None) ([], True) \<lparr>cs_reader = sample_ortd, cs_writer = ([], True), cs_shared = sample_rng\<rparr> =
      (Some (sv_server_pk sample_server, Ok a0), s)" "(fstep sample_io sample_crates)\<^sup>*\<^sup>* a0 a" "fw_up a = UpDone (Ok ())"
    "server_task sample_io sample_crates sample_server (V6 (replicate 16 1)) 1000000 id 1000000 (Ok (([], None), ([], True)))
      \<lparr>cs_reader = (fst (fw_tun_w a), None), cs_writer = ([], True), cs_shared = run_server_init sample_server\<rparr> = (Some (Ok b0), s')"
    "(fstep sample_io sample_crates)\<^sup>*\<^sup>* b0 b" "fw_up b = UpDone (Ok ())" "fst (fw_tun_w b) = fst sample_ortd"
proof -
  let ?ip = "V6 (replicate 16 1)" and ?app = "([1, 2, 3] :: bytes, None :: io_error option)"
  let ?C = sample_crates and ?S = sample_server and ?new = "([] :: bytes, True)"
  let ?flights = "\<lambda>p. [encode (client_one_rtt_hello (V1 ?C) sample_client), encode (ClientData (cc_client_pk sample_client) p)]"
  have S: "sv_server_pk ?S = kem_public (V1 ?C) (sv_kem_secret ?S)" "length (sv_certificate ?S) \<le> MAX_EARLY"
      "sv_verify sample_x509 TrustOnFirstUse (sv_server_pk ?S) (sv_certificate ?S) = Ok ()"
    by (simp_all add: sample_server_def sv_verify_def)
  have ip: "ip_ok ?ip" and sock: "snd ?new" "snd ?app = None" by simp_all
  obtain p ce ca a0 s where task: "client_task sample_io ?C sample_x509 sample_client TrustOnFirstUse False (Some ?ip) None 1000900 ?app ?new
        \<lparr>cs_reader = sample_ortd, cs_writer = ?new, cs_shared = sample_rng\<rparr> = (Some (sv_server_pk ?S, Ok a0), s)"
    and a0: "forward_start sample_io ?app ?new ca None [] = Ok a0" and ca: "oc_role ca = Client" "oc_record ca = ce_record ce"
      "pending sample_io fst snd (oc_reader ca) [encode Close]" "sent sample_io fst snd (oc_writer ca) (?flights p)"
    and p: "payload_for ?C sample_client (sv_kem_secret ?S) (ip_to_bytes ?ip) 1000900 [] p ce"
    by (rule client_task_first_contact [OF sample_crates_ok sample_rng_ok sample_client_good ip S sample_sent sample_greeting_fits sock(1)])
  have valid: "rl_valid ?C (oc_record ca)" using payload_for_valid [OF p] ca(2) by simp
  obtain a where a: "(fstep sample_io ?C)\<^sup>*\<^sup>* a0 a" "fw_up a = UpDone (Ok ())"
    using up_task_completes [OF a0 sample_laws valid sock(2) ca(4)] by blast
  obtain later where later: "fst (fw_tun_w a) = concat (map encode_framed (?flights p @ later))" "\<forall>b \<in> set later. length b \<le> MAX_FRAME"
    by (rule up_task_carries [OF a0 sample_laws valid sock(2) ca(4) a])
  have pk: "length (cc_client_pk sample_client) = 1952" by (rule good_client_pk_length [OF sample_crates_ok sample_client_good])
  have "pending sample_io fst snd (fst (fw_tun_w a), None) (?flights p @ later)"
    using sample_io_ok(1) later honest_flight_fits(2) [OF p _ _ pk, of "ClientData (cc_client_pk sample_client) p"] pk
    by (simp add: pending_def client_one_rtt_hello_def encode_eq MAX_FRAME_def)
  then have net: "pending sample_io fst snd (fst (fw_tun_w a), None) (encode (client_one_rtt_hello (V1 ?C) sample_client) #
      encode (ClientData (cc_client_pk sample_client) p) # later)" by simp
  have strike: "in_window 1000000 1000900 (sv_window_ms ?S) (sv_skew_ms ?S)" "sc_ok (id (run_server_init ?S))"
      "tag_fresh (id (run_server_init ?S)) 1000000 (payload_tag (V1 ?C) p)"
    using sample_window run_server_init_ok(1) tag_fresh_new by (simp_all add: run_server_init_def)
  obtain cb b0 s' where b0: "server_task sample_io ?C ?S ?ip 1000000 id 1000000 (Ok (([], None), ?new))
        \<lparr>cs_reader = (fst (fw_tun_w a), None), cs_writer = ?new, cs_shared = run_server_init ?S\<rparr> = (Some (Ok b0), s')"
      "forward_start sample_io ([], None) ?new cb None [] = Ok b0" "sent sample_io fst snd (oc_writer cb) [encode sample_greeting]"
    by (rule server_task_second_flight [where others = id and strike = "run_server_init ?S",
          OF sample_crates_ok sample_client_good ip p strike net sample_sent sock(1), of 1000000 "([], None)"])
  obtain b where b: "(fstep sample_io ?C)\<^sup>*\<^sup>* b0 b" "fw_up b = UpDone (Ok ())"
      "fst (fw_tun_w b) = concat (map encode_framed ([encode sample_greeting] @ [encode Close]))"
    by (rule empty_up_runs [OF b0(2,3)])
  show thesis using that [OF task a b0(1) b(1,2)] b(3) by simp
qed

lemma sample_system:
  obtains st c a st' d b where
    "(dial_step sample_io sample_crates sample_x509 sample_client TrustOnFirstUse False)\<^sup>*\<^sup>* (run_client_start sample_rng) st"
    "c = tunnelled_conn (([1, 2, 3], None), ([], True)) (sample_ortd, ([], True)) (Some (V6 (replicate 16 1))) None a"
    "c \<in> set (dl_conns st)" "fw_up a = UpDone (Ok ())"
    "(serve_step sample_io sample_crates sample_server)\<^sup>*\<^sup>* (run_server_start sample_server) st'"
    "d = \<lparr>sn_peer = V6 (replicate 16 1), sn_reader = (fst (fw_tun_w a), None), sn_writer = ([], True),
      sn_pc = Forwarding (([], None), ([], True)) b\<rparr>"
    "d \<in> set (sl_conns st')" "fw_up b = UpDone (Ok ())" "fst (fw_tun_w b) = fst sample_ortd"
proof -
  let ?ip = "V6 (replicate 16 1)" and ?app = "([1, 2, 3] :: bytes, None :: io_error option)" and ?new = "([] :: bytes, True)"
  let ?dial = "dial_step sample_io sample_crates sample_x509 sample_client TrustOnFirstUse False"
  let ?st = "run_client_start sample_rng :: (bytes \<times> io_error option, bytes \<times> bool, bytes option \<times> bytes) dial_loop"
  let ?st' = "run_server_start sample_server :: (bytes \<times> io_error option, bytes \<times> bool, bytes option \<times> bytes) server_loop"
  obtain a0 s a b0 s' b where
      task: "client_task sample_io sample_crates sample_x509 sample_client TrustOnFirstUse False (Some ?ip) None 1000900 ?app ?new
        \<lparr>cs_reader = sample_ortd, cs_writer = ?new, cs_shared = sample_rng\<rparr> = (Some (sv_server_pk sample_server, Ok a0), s)"
    and a: "(fstep sample_io sample_crates)\<^sup>*\<^sup>* a0 a" "fw_up a = UpDone (Ok ())"
    and srv: "server_task sample_io sample_crates sample_server ?ip 1000000 id 1000000 (Ok (([], None), ?new))
        \<lparr>cs_reader = (fst (fw_tun_w a), None), cs_writer = ?new, cs_shared = run_server_init sample_server\<rparr> = (Some (Ok b0), s')"
    and b: "(fstep sample_io sample_crates)\<^sup>*\<^sup>* b0 b" "fw_up b = UpDone (Ok ())" "fst (fw_tun_w b) = fst sample_ortd"
    by (rule sample_tasks)
  have "client_task sample_io sample_crates sample_x509 sample_client TrustOnFirstUse False (Some ?ip) (dl_pin ?st) 1000900 ?app ?new
        \<lparr>cs_reader = sample_ortd, cs_writer = ?new, cs_shared = dl_rng ?st\<rparr> = (Some (sv_server_pk sample_server, Ok a0), s)"
    using task by (simp add: run_client_start_def)
  from rtranclp_trans [OF new_conn_completes [OF this] new_conn_forwards [OF a(1)]]
  have client: "?dial\<^sup>*\<^sup>* ?st (?st\<lparr>dl_pin := remember_pin (sv_server_pk sample_server) (dl_pin ?st), dl_rng := cs_shared s,
      dl_conns := dl_conns ?st @ [tunnelled_conn (?app, ?new) (sample_ortd, ?new) (Some ?ip) (dl_pin ?st) a]\<rparr>)" .
  have "sl_strike ?st' = run_server_init sample_server" by (simp add: run_server_start_def)
  with new_conn_served [of sample_io sample_crates sample_server ?ip 1000000 1000000 "(([], None), ?new)" "(fst (fw_tun_w a), None)" ?new ?st'] srv b(1)
  have server: "(serve_step sample_io sample_crates sample_server)\<^sup>*\<^sup>* ?st'
      (with_new ?st' (cs_shared s') ?ip (fst (fw_tun_w a), None) ?new (Forwarding (([], None), ?new) b))"
    by metis
  show thesis
    by (rule that [OF client refl _ a(2) server refl _ b(2,3)]) (simp_all add: run_client_start_def with_new_def)
qed

theorem concurrent_tunnel_end_to_end_witness:
  "\<exists>st c a st' d b.
    (dial_step sample_io sample_crates sample_x509 sample_client TrustOnFirstUse False)\<^sup>*\<^sup>* (run_client_start sample_rng) st \<and>
    c \<in> set (dl_conns st) \<and> dc_pc c = Tunnelled a \<and>
    (serve_step sample_io sample_crates sample_server)\<^sup>*\<^sup>* (run_server_start sample_server) st' \<and>
    d \<in> set (sl_conns st') \<and> sn_pc d = Forwarding (([], None), ([], True)) b \<and>
    delivered fst [1, 2, 3] b \<and> delivered fst [] a"
proof -
  let ?ip = "V6 (replicate 16 1)" and ?app = "([1, 2, 3] :: bytes, None :: io_error option)" and ?new = "([] :: bytes, True)"
  obtain st c a st' d b where
      client: "(dial_step sample_io sample_crates sample_x509 sample_client TrustOnFirstUse False)\<^sup>*\<^sup>* (run_client_start sample_rng) st"
      "c = tunnelled_conn (?app, ?new) (sample_ortd, ?new) (Some ?ip) None a" "c \<in> set (dl_conns st)" "fw_up a = UpDone (Ok ())"
    and server: "(serve_step sample_io sample_crates sample_server)\<^sup>*\<^sup>* (run_server_start sample_server) st'"
      "d = \<lparr>sn_peer = ?ip, sn_reader = (fst (fw_tun_w a), None), sn_writer = ?new, sn_pc = Forwarding (([], None), ?new) b\<rparr>"
      "d \<in> set (sl_conns st')" "fw_up b = UpDone (Ok ())" "fst (fw_tun_w b) = fst sample_ortd"
    by (rule sample_system)
  have S: "sv_server_pk sample_server = kem_public (V1 sample_crates) (sv_kem_secret sample_server)"
      "length (sv_certificate sample_server) \<le> MAX_EARLY" by (simp_all add: sample_server_def)
  have c: "dc_pc c = Tunnelled a" "dc_cached c = None \<or> dc_cached c = Some (sv_server_pk sample_server)" "dc_addr c = Some ?ip"
      "dc_app c = (?app, ?new)" "dc_ortd c = Some (sample_ortd, ?new)"
    by (simp_all add: client(2) tunnelled_conn_def)
  have d: "sn_pc d = Forwarding (([], None), ?new) b" by (simp add: server(2))
  have "delivered fst (fst ?new @ fst ?app) b \<and> delivered fst (fst ?new @ fst ([], None :: io_error option)) a"
    by (rule concurrent_tunnel_end_to_end [OF sample_crates_ok sample_client_good sample_laws sample_rng_ok S client(1,3) c(1) client(4) c(2)
          server(1,3) d server(4) c(3) _ _ c(4) _ _ _ _ c(5)]) (simp_all add: server(2,5))
  then have "delivered fst [1, 2, 3] b" "delivered fst [] a" by simp_all
  with client(1,3) c(1) server(1,3) d show ?thesis by blast
qed


section \<open>Honest clients are served\<close>

lemma seen_at_check_and_insert:
  assumes "sc_ok c" "seen_at (snd (check_and_insert tag' now c)) tag = Some t"
  shows "tag = tag' \<and> t = now \<or> seen_at c tag = Some t"
  using assms by (auto simp: check_and_insert_spec seen_at_insert seen_at_evict split: option.splits if_splits)

text \<open>Every tag in the cache is that of a payload that has passed the checks.\<close>

lemma cache_tag_source:
  assumes "seen_at (serve_uses C scfg us (run_server_init scfg)) tag = Some t"
  shows "\<exists>k < length us. \<exists>pk p peer. use_payload (us ! k) = Some (pk, p, peer, t) \<and>
    precheck (V1 C) scfg pk p peer t = Ok () \<and> payload_tag (V1 C) p = tag"
  using assms
proof (induction us rule: rev_induct)
  case Nil
  then show ?case by (simp add: run_server_init_def sc_new_def seen_at_def)
next
  case (snoc u us)
  let ?c = "serve_uses C scfg us (run_server_init scfg)"
  have ok: "sc_ok ?c" by (rule cache_ok)
  have seen: "seen_at (snd (use_strike C scfg u ?c)) tag = Some t"
    using snoc.prems by (simp add: serve_uses_append)
  have "seen_at ?c tag = Some t \<or> (\<exists>pk p peer. use_payload u = Some (pk, p, peer, t) \<and>
      precheck (V1 C) scfg pk p peer t = Ok () \<and> payload_tag (V1 C) p = tag)"
  proof (cases "use_payload u")
    case None
    with seen show ?thesis by (simp add: use_strike_eq)
  next
    case (Some r)
    obtain pk p peer now where r: "r = (pk, p, peer, now)" by (cases r)
    have snd: "snd (use_strike C scfg u ?c) = snd (process_payload C (V1 C) scfg pk p peer now ?c)"
      using Some r by (simp add: use_strike_eq split: prod.split result.split)
    show ?thesis
      using seen seen_at_check_and_insert [OF ok, of "payload_tag (V1 C) p" now tag t] Some r
      unfolding snd process_payload_outcome [OF ok]
      by (auto split: result.splits)
  qed
  then show ?case
  proof
    assume "seen_at ?c tag = Some t"
    from snoc.IH [OF this] obtain k where "k < length us" "\<exists>pk p peer. use_payload (us ! k) = Some (pk, p, peer, t) \<and>
      precheck (V1 C) scfg pk p peer t = Ok () \<and> payload_tag (V1 C) p = tag" by blast
    then show ?thesis by (intro exI [of _ k]) (simp add: nth_append)
  qed (intro exI [of _ "length us"], simp add: nth_append)
qed

text \<open>
  C13. An honest client is served, whatever else the server does. Let an honest client have made its
  0-RTT flight, and let, in any reachable state of the concurrent server, a task that has the
  client's address as its peer be about to handle that flight, at a time within the window. Then the
  payload is accepted: the task replies with the acknowledgement that the client expects, has the
  early data, and its session agrees with the client's. The only exception is that the strike cache
  holds the tag, still live, and then some earlier payload that passed all checks, on whatever
  connection and by whatever client, had the same nonce and early data hashed into it.
\<close>

theorem honest_flight_served_concurrently:
  assumes "crates_ok C" "rng_ok g" "good_client C ccfg" "length src_ip = 16" "length early \<le> MAX_EARLY"
    and "client_zero_rtt C (V1 C) ccfg (kem_public (V1 C) (sv_kem_secret scfg)) src_ip ts early g = (Ok (f, ce), g')"
    and "(serve_step io C scfg)\<^sup>*\<^sup>* (run_server_start scfg) st"
    and "c \<in> set (sl_conns st)" "sn_pc c = LockFirst f r w" "ip_to_bytes (sn_peer c) = src_ip"
    and "in_window now ts (sv_window_ms scfg) (sv_skew_ms scfg)"
  shows "(\<exists>ack se strike. task_locked C scfg (sn_peer c) now (sn_pc c) (sl_strike st) = (Reply (ZeroRtt ack se) r w, strike) \<and>
      ack = ServerAck (ce_expected_ek_hash ce) \<and> se_early_data se = early \<and> session_agreed C ce se) \<or>
    (\<exists>us k pk p pk' p' peer t. sl_strike st = serve_uses C scfg us (run_server_init scfg) \<and> k < length us \<and>
      f = ClientHelloZeroRtt 1 pk p \<and> use_payload (us ! k) = Some (pk', p', peer, t) \<and>
      payload_checked (V1 C) scfg pk' p' peer t \<and> payload_tag (V1 C) p' = payload_tag (V1 C) p \<and>
      seen_at (sl_strike st) (payload_tag (V1 C) p) = Some t \<and> live (sv_window_ms scfg) now t)"
proof -
  have "length early \<le> 2 ^ 36" using assms(5) by (simp add: MAX_EARLY_def)
  then obtain p ce' g1 where built: "build_payload C (V1 C) ccfg (kem_public (V1 C) (sv_kem_secret scfg)) src_ip ts early g = (Ok (p, ce'), g1)"
      "payload_for C ccfg (sv_kem_secret scfg) src_ip ts early p ce'"
    using build_payload_ok [OF assms(1-4)] by metis
  then have f: "f = ClientHelloZeroRtt 1 (cc_client_pk ccfg) p" "ce' = ce"
    using assms(6) by (auto simp: client_zero_rtt_def sbind_def)
  obtain us where cache: "sl_strike st = serve_uses C scfg us (run_server_init scfg)"
    using loop_inv_reachable [OF assms(7)] unfolding loop_inv_def by blast
  have ok: "sc_ok (sl_strike st)" "sc_window_ms (sl_strike st) = sv_window_ms scfg"
    unfolding cache using serve_uses_ok [OF run_server_init_ok(1)] run_server_init_ok(2) by metis+
  show ?thesis
  proof (cases "tag_fresh (sl_strike st) now (payload_tag (V1 C) p)")
    case True
    obtain se where se: "process_payload C (V1 C) scfg (cc_client_pk ccfg) p src_ip now (sl_strike st) =
        (Ok se, snd (check_and_insert (payload_tag (V1 C) p) now (sl_strike st)))" "se_early_data se = early" "session_agreed C ce se"
      using honest_payload_accepted [OF built(2) assms(11) ok(1) True] f(2) by metis
    have "ce_expected_ek_hash ce = enc_key_hash (V1 C) (se_record se)" using se(3) by (simp add: session_agreed_def)
    with server_on_first_zero_rtt [OF se(1)] se(2,3) show ?thesis
      by (intro disjI1) (simp add: assms(9,10) f(1))
  next
    case False
    then obtain t where t: "seen_at (sl_strike st) (payload_tag (V1 C) p) = Some t" "live (sv_window_ms scfg) now t"
      using ok(2) by (auto simp: tag_fresh_def split: option.splits)
    from cache_tag_source [OF t(1) [unfolded cache]] obtain k pk' p' peer where "k < length us" "use_payload (us ! k) = Some (pk', p', peer, t)"
        "payload_checked (V1 C) scfg pk' p' peer t" "payload_tag (V1 C) p' = payload_tag (V1 C) p"
      using precheck_payload_checked by metis
    with cache t f(1) show ?thesis by blast
  qed
qed

lemma sample_first_flight:
  obtains p ce g' r where
    "client_zero_rtt sample_crates (V1 sample_crates) sample_client (kem_public (V1 sample_crates) (sv_kem_secret sample_server))
      (replicate 16 1) 1000900 [1, 2] sample_rng = (Ok (ClientHelloZeroRtt 1 (cc_client_pk sample_client) p, ce), g')"
    "read_decoded sample_io (encode_framed (encode (ClientHelloZeroRtt 1 (cc_client_pk sample_client) p)), None) ([], True) =
      Some (ClientHelloZeroRtt 1 (cc_client_pk sample_client) p, r)"
proof -
  obtain p ce g' where built: "build_payload sample_crates (V1 sample_crates) sample_client (kem_public (V1 sample_crates) (sv_kem_secret sample_server))
      (replicate 16 1) 1000900 [1, 2] sample_rng = (Ok (p, ce), g')"
      "payload_for sample_crates sample_client (sv_kem_secret sample_server) (replicate 16 1) 1000900 [1, 2] p ce"
    by (rule build_payload_ok [OF sample_crates_ok sample_rng_ok sample_client_good, where src_ip = "replicate 16 1" and early = "[1, 2]"]) simp_all
  let ?f = "ClientHelloZeroRtt 1 (cc_client_pk sample_client) p"
  have fits: "frame_ok ?f" "length (encode ?f) \<le> MAX_FRAME"
    using honest_flight_fits [OF built(2) _ _ good_client_pk_length [OF sample_crates_ok sample_client_good], of ?f] by (simp_all add: MAX_EARLY_def)
  have net: "pending sample_io fst snd (encode_framed (encode ?f), None) [encode ?f]"
    using sample_pending [of "[encode ?f]"] fits(2) by simp
  obtain r where "read_decoded sample_io (encode_framed (encode ?f), None) ([], True) = Some (?f, r)"
    using next_body_pending [OF net, of "([], True)" "()"] decode_encode [OF fits] by (auto simp: read_decoded_def)
  with built(1) that show thesis by (simp add: client_zero_rtt_def sbind_def)
qed

theorem honest_flight_served_concurrently_witness:
  "\<exists>f ce g' st c r w ack se strike.
    client_zero_rtt sample_crates (V1 sample_crates) sample_client (kem_public (V1 sample_crates) (sv_kem_secret sample_server))
      (replicate 16 1) 1000900 [1, 2] sample_rng = (Ok (f, ce), g') \<and>
    (serve_step sample_io sample_crates sample_server)\<^sup>*\<^sup>* (run_server_start sample_server) st \<and>
    c \<in> set (sl_conns st) \<and> sn_pc c = LockFirst f r w \<and>
    task_locked sample_crates sample_server (sn_peer c) 1000000 (sn_pc c) (sl_strike st) = (Reply (ZeroRtt ack se) r w, strike) \<and>
    se_early_data se = [1, 2]"
proof -
  obtain p ce g' r where run: "client_zero_rtt sample_crates (V1 sample_crates) sample_client
      (kem_public (V1 sample_crates) (sv_kem_secret sample_server)) (replicate 16 1) 1000900 [1, 2] sample_rng =
        (Ok (ClientHelloZeroRtt 1 (cc_client_pk sample_client) p, ce), g')"
    and read: "read_decoded sample_io (encode_framed (encode (ClientHelloZeroRtt 1 (cc_client_pk sample_client) p)), None) ([], True) =
      Some (ClientHelloZeroRtt 1 (cc_client_pk sample_client) p, r)"
    by (rule sample_first_flight)
  let ?f = "ClientHelloZeroRtt 1 (cc_client_pk sample_client) p" and ?ip = "V6 (replicate 16 1)" and ?w = "([] :: bytes, True)"
  let ?st = "run_server_start sample_server :: (bytes \<times> io_error option, bytes \<times> bool, bytes option \<times> bytes) server_loop"
  let ?new = "with_new ?st (sl_strike ?st) ?ip (encode_framed (encode ?f), None) ?w"
  let ?c = "\<lparr>sn_peer = ?ip, sn_reader = (encode_framed (encode ?f), None), sn_writer = ?w, sn_pc = LockFirst ?f r ?w\<rparr> :: (bytes \<times> io_error option, bytes \<times> bool, bytes option \<times> bytes) server_conn"
  have "serve_step sample_io sample_crates sample_server ?st (?new (ReadFirst (encode_framed (encode ?f), None) ?w))"
    using serve_step.accept [of sample_io sample_crates sample_server ?st ?ip _ ?w] by (simp add: with_new_def run_server_start_def)
  moreover have "serve_step sample_io sample_crates sample_server (?new (ReadFirst (encode_framed (encode ?f), None) ?w)) (?new (LockFirst ?f r ?w))"
    by (rule new_local) (simp_all add: read)
  ultimately have loop: "(serve_step sample_io sample_crates sample_server)\<^sup>*\<^sup>* ?st (?new (LockFirst ?f r ?w))"
    by (elim converse_rtranclp_into_rtranclp r_into_rtranclp)
  have c: "?c \<in> set (sl_conns (?new (LockFirst ?f r ?w)))" "sn_pc ?c = LockFirst ?f r ?w" "ip_to_bytes (sn_peer ?c) = replicate 16 1"
    by (simp_all add: with_new_def)
  have len: "length (replicate 16 (1 :: u8)) = 16" "length [1, 2 :: u8] \<le> MAX_EARLY" by (simp_all add: MAX_EARLY_def)
  have "seen_at (sl_strike (?new (LockFirst ?f r ?w))) tag = None" for tag
    by (simp add: with_new_def run_server_start_def run_server_init_def sc_new_def seen_at_def)
  with honest_flight_served_concurrently [OF sample_crates_ok sample_rng_ok sample_client_good len run loop c sample_window]
  obtain ack se strike where locked: "task_locked sample_crates sample_server (sn_peer ?c) 1000000 (sn_pc ?c) (sl_strike (?new (LockFirst ?f r ?w))) =
      (Reply (ZeroRtt ack se) r ?w, strike)" "se_early_data se = [1, 2]" by auto
  show ?thesis by (intro exI conjI) (rule run loop c locked)+
qed


section \<open>A recorded session\<close>

text \<open>What a 0-RTT client has sent when its up task has ended: its flight, and then records.\<close>

lemma zero_rtt_stream:
  assumes "crates_ok C" "rng_ok g" "good_client C ccfg" "ip_ok addr" "io_laws io inc fin out up"
    and client: "client_task io C X ccfg verifier False (Some addr) (Some (kem_public (V1 C) sk)) ts app_r app_w
        \<lparr>cs_reader = rc, cs_writer = wc, cs_shared = g\<rparr> = (Some (pk, Ok a0), s)" "(fstep io C)\<^sup>*\<^sup>* a0 a" "fw_up a = UpDone xa"
      "up wc" "out wc = []" "fin app_r = None" "up app_w"
  obtains p ce later where "out (fw_tun_w a) = encode_framed (encode (ClientHelloZeroRtt 1 (cc_client_pk ccfg) p)) @ concat (map encode_framed later)"
    "frame_ok (ClientHelloZeroRtt 1 (cc_client_pk ccfg) p)" "length (encode (ClientHelloZeroRtt 1 (cc_client_pk ccfg) p)) \<le> MAX_FRAME"
    "payload_for C ccfg sk (ip_to_bytes addr) ts [] p ce"
    "\<forall>b \<in> set later. length b \<le> MAX_FRAME" "carries io C inc fin out up ClientToServer (ce_record ce) later (inc app_r)"
proof -
  let ?f = "\<lambda>p. ClientHelloZeroRtt 1 (cc_client_pk ccfg) p"
  have wc: "sent io out up wc []" using io_lawsD [OF assms(5)] client(4,5) by (simp add: sent_def)
  obtain p ce ca a0' s1 where task: "client_task io C X ccfg verifier False (Some addr) (Some (kem_public (V1 C) sk)) ts app_r app_w
      \<lparr>cs_reader = rc, cs_writer = wc, cs_shared = g\<rparr> = (Some (kem_public (V1 C) sk, Ok a0'), s1)"
    and a0: "forward_start io app_r app_w ca (Some (ce_expected_ek_hash ce)) [] = Ok a0'"
    and ca: "oc_role ca = Client" "oc_reader ca = rc" "oc_record ca = ce_record ce" "rl_valid C (ce_record ce)"
      "sent io out up (oc_writer ca) [encode (?f p)]"
    and fits: "frame_ok (?f p)" "length (encode (?f p)) \<le> MAX_FRAME"
    and p: "payload_for C ccfg sk (ip_to_bytes addr) ts [] p ce"
    by (rule client_task_flight [OF assms(1-4) wc client(7)])
  have a: "(fstep io C)\<^sup>*\<^sup>* a0' a" and valid: "rl_valid C (oc_record ca)" using task client(1,2) ca(3,4) by simp_all
  obtain later where later: "out (fw_tun_w a) = concat (map encode_framed ([encode (?f p)] @ later))"
      "\<forall>b \<in> set later. length b \<le> MAX_FRAME"
    and there: "carries io C inc fin out up (send_dir (oc_role ca)) (oc_record ca) later (inc app_r)"
    by (rule up_task_carries [OF a0 assms(5) valid client(6) ca(5) a client(3)])
  show thesis
    by (rule that [OF _ fits p later(2)]) (use later(1) there ca(1,3) in simp_all)
qed

text \<open>
  C30. A recorded session can be replayed. Let a client that knows the server's key have sent its
  0-RTT flight with payload \<open>p\<close> and the records of all that its application wrote, and let somebody
  who has recorded this stream, but knows none of its keys, sign the payload anew with a key pair of
  his own, for his own address and with a current timestamp, and send it with the recorded records
  after it. If the payload's tag is not, or no longer, in the strike cache, the handshake succeeds,
  and in every interleaving the target is written what the application of the first client wrote:
  a prefix of it, and all of it when the down task ends.
\<close>

theorem recorded_session_replayed:
  assumes "crates_ok C" "rng_ok g" "good_client C ccfg" "good_client C other" "ip_ok addr" "ip_ok peer" "io_laws io inc fin out up"
    and client: "client_task io C X ccfg verifier False (Some addr) (Some (kem_public (V1 C) (sv_kem_secret scfg))) ts app_r app_w
        \<lparr>cs_reader = rc, cs_writer = wc, cs_shared = g\<rparr> = (Some (pk, Ok a0), s)" "(fstep io C)\<^sup>*\<^sup>* a0 a" "fw_up a = UpDone xa"
      "up wc" "out wc = []" "fin app_r = None" "up app_w"
    and recorded: "out (fw_tun_w a) = encode_framed (encode (ClientHelloZeroRtt 1 (cc_client_pk ccfg) p)) @ records"
      "frame_ok (ClientHelloZeroRtt 1 (cc_client_pk ccfg) p)" "length (encode (ClientHelloZeroRtt 1 (cc_client_pk ccfg) p)) \<le> MAX_FRAME"
    and replayed: "inc rs = encode_framed (encode (ClientHelloZeroRtt 1 (cc_client_pk other)
        (resigned C other (ip_to_bytes peer) ts' p))) @ records" "fin rs = None" "up ws" "out ws = []" "up tw"
    and "in_window now ts' (sv_window_ms scfg) (sv_skew_ms scfg)" "sc_ok strike" "tag_fresh strike now (payload_tag (V1 C) p)"
  shows "\<exists>b0 s'. server_task io C scfg peer now others now2 (Ok (tr, tw))
        \<lparr>cs_reader = rs, cs_writer = ws, cs_shared = strike\<rparr> = (Some (Ok b0), s') \<and>
      (\<forall>b. (fstep io C)\<^sup>*\<^sup>* b0 b \<longrightarrow> delivered out (out tw @ inc app_r) b)"
proof -
  let ?f = "\<lambda>p. ClientHelloZeroRtt 1 (cc_client_pk ccfg) p"
  let ?p = "resigned C other (ip_to_bytes peer) ts' p" let ?f' = "ClientHelloZeroRtt 1 (cc_client_pk other) ?p"
  have wok: "write_ok io out up" and rok: "read_exact_ok io inc fin" using io_lawsD [OF assms(7)] by simp_all
  obtain p0 ce later where stream: "out (fw_tun_w a) = encode_framed (encode (?f p0)) @ concat (map encode_framed later)"
    and fits: "frame_ok (?f p0)" "length (encode (?f p0)) \<le> MAX_FRAME"
    and p0: "payload_for C ccfg (sv_kem_secret scfg) (ip_to_bytes addr) ts [] p0 ce"
    and later: "\<forall>b \<in> set later. length b \<le> MAX_FRAME" "carries io C inc fin out up ClientToServer (ce_record ce) later (inc app_r)"
    by (rule zero_rtt_stream [OF assms(1-3,5,7) client])
  note eq = recorded(1) [unfolded stream, symmetric]
  have same: "encode (?f p) = encode (?f p0)" and records: "records = concat (map encode_framed later)"
    by (rule encode_framed_inject [OF eq recorded(3) fits(2)])+
  have "p = p0" using decode_encode [OF recorded(2,3)] unfolding same decode_encode [OF fits] by simp
  have ip: "length (ip_to_bytes peer) = 16" by (rule ip_to_bytes_length [OF assms(6)])
  have p: "payload_for C other (sv_kem_secret scfg) (ip_to_bytes peer) ts' [] ?p ce"
    using resigned_payload_for [OF assms(1,4) ip p0] \<open>p = p0\<close> by simp
  have fits': "frame_ok ?f'" "length (encode ?f') \<le> MAX_FRAME"
    using honest_flight_fits [OF p ip _ good_client_pk_length [OF assms(1,4)], of ?f'] by simp_all
  have net: "pending io inc fin rs (encode ?f' # later)" "sent io out up ws []"
    using rok wok replayed later(1) fits'(2) records by (simp_all add: pending_def sent_def)
  have served: "flight_served io C scfg (ip_to_bytes peer) now strike out up (cc_client_pk other) ?p [] ce"
    using honest_flight_served [OF p assms(23,24) _ fits'] assms(25) by simp
  obtain cb b0 s' where srv: "server_task io C scfg peer now others now2 (Ok (tr, tw))
        \<lparr>cs_reader = rs, cs_writer = ws, cs_shared = strike\<rparr> = (Some (Ok b0), s')"
      "forward_start io tr tw cb None [] = Ok b0" "oc_role cb = Server" "rl_valid C (oc_record cb)"
      "rl_same ClientToServer (ce_record ce) (oc_record cb)" "pending io inc fin (oc_reader cb) later"
    by (rule server_task_serves [OF assms(1) served net wok replayed(5), of others now2 tr])
  have "delivered out (out tw @ inc app_r) b" if "(fstep io C)\<^sup>*\<^sup>* b0 b" for b
    by (rule carriesD [OF later(2) srv(2) that replayed(5) srv(4,5)])
      (use srv(3,6) in \<open>simp_all add: recv_dir_def ack_bodies_def pending_def\<close>)
  with srv(1) show ?thesis by blast
qed

lemma sample_client_up:
  obtains a0 s a where
    "client_task sample_io sample_crates sample_x509 sample_client TrustOnFirstUse False (Some (V6 (replicate 16 1)))
      (Some (kem_public (V1 sample_crates) (sv_kem_secret sample_server))) 1000900 ([1, 2, 3], None) ([], True)
      \<lparr>cs_reader = ([], None), cs_writer = ([], True), cs_shared = sample_rng\<rparr> =
      (Some (kem_public (V1 sample_crates) (sv_kem_secret sample_server), Ok a0), s)"
    "(fstep sample_io sample_crates)\<^sup>*\<^sup>* a0 a" "fw_up a = UpDone (Ok ())"
proof -
  let ?addr = "V6 (replicate 16 1)" and ?app = "([1, 2, 3] :: bytes, None :: io_error option)"
  have ip: "ip_ok ?addr" and sock: "snd ([] :: bytes, True)" "snd ?app = None" by simp_all
  obtain p conn a0 s and ce :: "(bytes option \<times> bytes) client_established" where a0:
      "client_task sample_io sample_crates sample_x509 sample_client TrustOnFirstUse False (Some ?addr)
        (Some (kem_public (V1 sample_crates) (sv_kem_secret sample_server))) 1000900 ?app ([], True)
        \<lparr>cs_reader = ([], None), cs_writer = ([], True), cs_shared = sample_rng\<rparr> =
        (Some (kem_public (V1 sample_crates) (sv_kem_secret sample_server), Ok a0), s)"
      "forward_start sample_io ?app ([], True) conn (Some (ce_expected_ek_hash ce)) [] = Ok a0"
      "oc_record conn = ce_record ce" "rl_valid sample_crates (ce_record ce)"
      "sent sample_io fst snd (oc_writer conn) [encode (ClientHelloZeroRtt 1 (cc_client_pk sample_client) p)]"
    by (rule client_task_starts [OF sample_crates_ok sample_rng_ok sample_client_good ip sc_ok_new [of 2000] sample_window sample_sent sock(1),
        where X = sample_x509 and verifier = TrustOnFirstUse and rc = "([], None)" and app_r = ?app])
  obtain a where a: "(fstep sample_io sample_crates)\<^sup>*\<^sup>* a0 a" "fw_up a = UpDone (Ok ())"
    using up_task_completes [OF a0(2) sample_laws _ sock(2) a0(5)] a0(3,4) by auto
  show thesis using that a0(1) a .
qed

theorem recorded_session_replayed_witness:
  "\<exists>a0 s a p records b0 s'.
    client_task sample_io sample_crates sample_x509 sample_client TrustOnFirstUse False (Some (V6 (replicate 16 1)))
      (Some (kem_public (V1 sample_crates) (sv_kem_secret sample_server))) 1000900 ([1, 2, 3], None) ([], True)
      \<lparr>cs_reader = ([], None), cs_writer = ([], True), cs_shared = sample_rng\<rparr> =
      (Some (kem_public (V1 sample_crates) (sv_kem_secret sample_server), Ok a0), s) \<and>
    (fstep sample_io sample_crates)\<^sup>*\<^sup>* a0 a \<and> fw_up a = UpDone (Ok ()) \<and>
    fst (fw_tun_w a) = encode_framed (encode (ClientHelloZeroRtt 1 (cc_client_pk sample_client) p)) @ records \<and>
    server_task sample_io sample_crates sample_server (V6 (replicate 16 2)) 5000000 id 5000000 (Ok (([], None), ([], True)))
      \<lparr>cs_reader = (encode_framed (encode (ClientHelloZeroRtt 1 (cc_client_pk other_client)
          (resigned sample_crates other_client (replicate 16 2) 5000000 p))) @ records, None),
        cs_writer = ([], True), cs_shared = sc_new 2000\<rparr> = (Some (Ok b0), s') \<and>
    (\<forall>b. (fstep sample_io sample_crates)\<^sup>*\<^sup>* b0 b \<longrightarrow> delivered fst [1, 2, 3] b)"
proof -
  let ?addr = "V6 (replicate 16 1)" and ?peer = "V6 (replicate 16 2)" and ?app = "([1, 2, 3] :: bytes, None :: io_error option)"
  let ?new = "([] :: bytes, True)" and ?C = sample_crates and ?none = "([] :: bytes, None :: io_error option)"
  let ?f = "\<lambda>p. ClientHelloZeroRtt 1 (cc_client_pk sample_client) p"
  let ?f' = "\<lambda>p. ClientHelloZeroRtt 1 (cc_client_pk other_client) (resigned ?C other_client (ip_to_bytes ?peer) 5000000 p)"
  obtain a0 s a where a0: "client_task sample_io ?C sample_x509 sample_client TrustOnFirstUse False (Some ?addr)
        (Some (kem_public (V1 ?C) (sv_kem_secret sample_server))) 1000900 ?app ?new
        \<lparr>cs_reader = ?none, cs_writer = ?new, cs_shared = sample_rng\<rparr> =
        (Some (kem_public (V1 ?C) (sv_kem_secret sample_server), Ok a0), s)"
    and a: "(fstep sample_io ?C)\<^sup>*\<^sup>* a0 a" "fw_up a = UpDone (Ok ())"
    by (rule sample_client_up)
  have ip: "ip_ok ?addr" "ip_ok ?peer" and sock: "snd ?new" "fst ?new = []" "snd ?app = None" by simp_all
  obtain p records where rec: "fst (fw_tun_w a) = encode_framed (encode (?f p)) @ records" "frame_ok (?f p)" "length (encode (?f p)) \<le> MAX_FRAME"
    by (rule zero_rtt_stream [OF sample_crates_ok sample_rng_ok sample_client_good ip(1) sample_laws a0 a sock sock(1)])
  have rs: "fst (encode_framed (encode (?f' p)) @ records, None :: io_error option) = encode_framed (encode (?f' p)) @ records"
      "snd (encode_framed (encode (?f' p)) @ records, None :: io_error option) = None" by simp_all
  have win: "in_window 5000000 5000000 (sv_window_ms sample_server) (sv_skew_ms sample_server)" by (simp add: in_window_def)
  obtain b0 s' where b0: "server_task sample_io ?C sample_server ?peer 5000000 id 5000000 (Ok (?none, ?new))
        \<lparr>cs_reader = (encode_framed (encode (?f' p)) @ records, None), cs_writer = ?new, cs_shared = sc_new 2000\<rparr> = (Some (Ok b0), s')"
      "\<forall>b. (fstep sample_io ?C)\<^sup>*\<^sup>* b0 b \<longrightarrow> delivered fst (fst ?new @ fst ?app) b"
    using recorded_session_replayed [OF sample_crates_ok sample_rng_ok sample_client_good other_client_good ip sample_laws a0 a sock sock(1)
      rec rs sock(1,2,1) win sc_ok_new [of 2000] tag_fresh_new, where others = id and ?now2.0 = 5000000 and tr = ?none] by blast
  show ?thesis
    by (intro exI conjI, rule a0, rule a, rule a, rule rec) (use b0 in simp_all)
qed

end
