(* ===== verification/Authentic.thy ===== *)
theory Authentic
  imports Forward
begin

text \<open>
  The forwarder of \<open>ort-net/src/forward.rs\<close> on a hostile network. Nothing is assumed of what the
  tunnel delivers. The runs of the forwarder are recorded with the uses of the AEAD that they
  make; what an AEAD promises, that nobody but a holder of the key makes ciphertexts that open,
  is then a condition on the records of two runs.
\<close>

section \<open>Runs with their uses of the AEAD\<close>

text \<open>A use of the AEAD: nonce, associated data, ciphertext and plaintext.\<close>

type_synonym aead_use = "bytes \<times> bytes \<times> bytes \<times> bytes"

definition seal_event ::
    "('dk, 'ek, 'sk, 'vk, 'sg, 'h) crates \<Rightarrow> ('r, 'w, 'h) fwd \<Rightarrow> ('r, 'w, 'h) fwd \<Rightarrow> aead_use list" where
  "seal_event C s t =
     (let d = send_dir (fw_role s) in
      case (fw_up s, fw_up t) of
        (UpSeal buf, UpWrite _) \<Rightarrow>
          (case rl_seal C (V1 C) d buf (fw_record s) of
             (Ok ct, _) \<Rightarrow> [(rl_nonce C d (fw_record s), rl_aad d (fw_record s), ct, buf)]
           | _ \<Rightarrow> [])
      | _ \<Rightarrow> [])"

definition open_event ::
    "('dk, 'ek, 'sk, 'vk, 'sg, 'h) crates \<Rightarrow> ('r, 'w, 'h) fwd \<Rightarrow> ('r, 'w, 'h) fwd \<Rightarrow> aead_use list" where
  "open_event C s t =
     (let d = recv_dir (fw_role s) in
      case (fw_down s, fw_down t) of
        (DownOpen ct, DownWrite pt) \<Rightarrow> [(rl_nonce C d (fw_record s), rl_aad d (fw_record s), ct, pt)]
      | _ \<Rightarrow> [])"

inductive fruns ::
    "('r, 'w) tokio_io \<Rightarrow> ('dk, 'ek, 'sk, 'vk, 'sg, 'h) crates \<Rightarrow> ('r, 'w, 'h) fwd \<Rightarrow>
      aead_use list \<Rightarrow> aead_use list \<Rightarrow> ('r, 'w, 'h) fwd \<Rightarrow> bool"
  for io C s where
  start: "fruns io C s [] [] s"
| step: "fruns io C s sealed opened t \<Longrightarrow> fstep io C t u \<Longrightarrow>
    fruns io C s (sealed @ seal_event C t u) (opened @ open_event C t u) u"

lemma fruns_fstep: "fruns io C s sealed opened t \<Longrightarrow> (fstep io C)\<^sup>*\<^sup>* s t"
  by (induction rule: fruns.induct) auto

lemma fstep_fruns: "(fstep io C)\<^sup>*\<^sup>* s t \<Longrightarrow> \<exists>sealed opened. fruns io C s sealed opened t"
  by (induction rule: rtranclp_induct) (blast intro: fruns.start, blast intro: fruns.step)

text \<open>No forgery: what one side has opened, the other side has sealed, for that nonce and those data.\<close>

definition unforged :: "aead_use list \<Rightarrow> aead_use list \<Rightarrow> bool" where
  "unforged sealed opened \<longleftrightarrow> (\<forall>(n, ad, ct, pt) \<in> set opened. \<exists>pt'. (n, ad, ct, pt') \<in> set sealed)"


section \<open>Chains of records\<close>

text \<open>Opening the ciphertexts of a log one after the other, from one state of a direction to another.\<close>

fun open_chain ::
    "('dk, 'ek, 'sk, 'vk, 'sg, 'h) crates \<Rightarrow> direction \<Rightarrow> 'h record_layer \<Rightarrow> aead_use list \<Rightarrow> 'h record_layer \<Rightarrow> bool" where
  "open_chain C d rl [] rl' \<longleftrightarrow> rl_same d rl rl'"
| "open_chain C d rl ((n, ad, ct, pt) # log) rl' \<longleftrightarrow> n = rl_nonce C d rl \<and> ad = rl_aad d rl \<and>
     fst (rl_open C (V1 C) d ct rl) = Ok pt \<and> open_chain C d (snd (rl_open C (V1 C) d ct rl)) log rl'"

lemma open_chain_start_cong: "open_chain C d rl log rl' \<Longrightarrow> rl_same d rl rl2 \<Longrightarrow> open_chain C d rl2 log rl'"
proof (induction log arbitrary: rl rl2)
  case Nil
  then show ?case by (metis open_chain.simps(1) rl.same_sym rl.same_trans)
next
  case (Cons x log)
  obtain n ad ct pt where x: "x = (n, ad, ct, pt)" by (cases x)
  with Cons show ?case
    using rl.open_cong [OF Cons.prems(2), of C ct] rl_same_nonce_aad [OF Cons.prems(2), of C] by auto
qed

lemma open_chain_end_cong: "open_chain C d rl log rl' \<Longrightarrow> rl_same d rl' rl2 \<Longrightarrow> open_chain C d rl log rl2"
  by (induction log arbitrary: rl) (auto intro: rl.same_trans)

lemma open_chain_append:
  "open_chain C d rl (log @ log') rl' \<longleftrightarrow> (\<exists>m. open_chain C d rl log m \<and> open_chain C d m log' rl')"
proof (induction log arbitrary: rl)
  case Nil
  then show ?case by (auto intro: rl.same_refl open_chain_start_cong rl.same_sym)
next
  case (Cons x log)
  then show ?case by (cases x) auto
qed

lemma open_chain_functional: "open_chain C d rl log m \<Longrightarrow> open_chain C d rl log m' \<Longrightarrow> rl_same d m m'"
  by (induction log arbitrary: rl) (auto intro: rl.same_sym rl.same_trans)

lemma open_chain_snoc:
  assumes "open_chain C d rl log m" "rl_open C (V1 C) d ct m = (Ok pt, m')"
  shows "open_chain C d rl (log @ [(rl_nonce C d m, rl_aad d m, ct, pt)]) m'"
  using assms by (auto simp: open_chain_append rl.same_refl intro!: exI [of _ m])

text \<open>The associated data number the records.\<close>

definition rl_counter :: "direction \<Rightarrow> 'h record_layer \<Rightarrow> u64" where
  "rl_counter d rl = dp_counter (ep_dir d (rl_pool rl))"

lemma rl_counter_open: "fst (rl_open C S d ct rl) = Ok pt \<Longrightarrow> rl_counter d (snd (rl_open C S d ct rl)) = rl_counter d rl + 1"
  by (auto simp: rl_open_eq rl_counter_def rl_drawn_def rl_absorbed_def ep_absorb_def dp_absorb_def split: result.splits)

lemma rl_aad_counter: "rl_aad d a = rl_aad d b \<longleftrightarrow> rl_counter d a = rl_counter d b"
  by (simp add: rl_aad_def rl_counter_def)

lemma open_chain_counter: "open_chain C d rl log rl' \<Longrightarrow> rl_counter d rl' = rl_counter d rl + of_nat (length log)"
proof (induction log arbitrary: rl)
  case Nil
  then show ?case by (simp add: rl_same_def rl_counter_def)
next
  case (Cons x log)
  obtain n ad ct pt where x: "x = (n, ad, ct, pt)" by (cases x)
  with Cons.prems Cons.IH [of "snd (rl_open C (V1 C) d ct rl)"] show ?case
    using rl_counter_open [of C "V1 C" d ct rl pt] by simp
qed

lemma counter_neq:
  fixes c :: u64
  assumes "i < 2 ^ 64" "j < 2 ^ 64" "c + of_nat i = c + of_nat j"
  shows "i = j"
proof -
  from assms(3) have "(of_nat i :: u64) = of_nat j" by simp
  then have "unat (of_nat i :: u64) = unat (of_nat j :: u64)" by simp
  with assms(1,2) show ?thesis by (simp add: unsigned_of_nat take_bit_eq_mod)
qed

text \<open>Two logs that start from the same state: if everything in one occurs in the other, it is a prefix.\<close>

lemma open_chain_prefix:
  assumes "open_chain C d rl sealed m" "length sealed < 2 ^ 64"
  shows "open_chain C d rl opened m' \<Longrightarrow> unforged sealed opened \<Longrightarrow> opened = take (length opened) sealed \<and> length opened \<le> length sealed"
proof (induction opened arbitrary: m' rule: rev_induct)
  case Nil
  then show ?case by simp
next
  case (snoc x opened)
  obtain n ad ct pt where x: "x = (n, ad, ct, pt)" by (cases x)
  from snoc.prems(1) x obtain m1 where m1: "open_chain C d rl opened m1" "n = rl_nonce C d m1" "ad = rl_aad d m1"
      "fst (rl_open C (V1 C) d ct m1) = Ok pt"
    by (auto simp: open_chain_append)
  have "unforged sealed opened" using snoc.prems(2) by (simp add: unforged_def)
  with snoc.IH [OF m1(1)] have ih: "opened = take (length opened) sealed" "length opened \<le> length sealed" by simp_all
  from snoc.prems(2) x obtain pt' where "(n, ad, ct, pt') \<in> set sealed" by (auto simp: unforged_def)
  then obtain l1 l2 where l: "sealed = l1 @ (n, ad, ct, pt') # l2" by (meson split_list)
  from assms(1) l obtain m2 where m2: "open_chain C d rl l1 m2" "ad = rl_aad d m2" "fst (rl_open C (V1 C) d ct m2) = Ok pt'"
    by (auto simp: open_chain_append)
  have "rl_counter d m1 = rl_counter d m2" using m1(3) m2(2) by (simp add: rl_aad_counter)
  then have len: "length opened = length l1"
    using counter_neq [of "length opened" "length l1" "rl_counter d rl"] assms(2) ih(2) l
      open_chain_counter [OF m1(1)] open_chain_counter [OF m2(1)] by simp
  with ih(1) l have "opened = l1" by simp
  with m1(1) m2(1) have "rl_same d m1 m2" by (blast intro: open_chain_functional)
  with rl.open_cong [of d m1 m2 C ct] m1(4) m2(3) have "pt = pt'" by simp
  with \<open>opened = l1\<close> l x show ?case by simp
qed


section \<open>The logs of the two tasks\<close>

text \<open>
  The down task, from whatever the network delivers: what it has opened is a chain, and what it
  has written are the plaintexts of the chain.
\<close>

definition down_log where
  "down_log C out up d rl D opened s \<longleftrightarrow> recv_dir (fw_role s) = d \<and>
     ((\<forall>x. fw_down s \<noteq> DownDone x) \<longrightarrow> up (fw_plain_w s)) \<and>
     out (fw_plain_w s) @ down_unwritten (fw_down s) = D @ concat (map (snd \<circ> snd \<circ> snd) opened) \<and>
     (\<exists>m. open_chain C d rl opened m \<and> ((\<forall>x. fw_down s \<noteq> DownDone x) \<longrightarrow> rl_same d m (fw_record s)))"

lemma open_event_up: "open_event C s (up_step io C pc s) = []"
  by (cases "fw_down s") (simp_all add: open_event_def up_step_frame)

lemma seal_event_down: "seal_event C s (down_step io C pc s) = []"
  by (cases "fw_up s") (simp_all add: seal_event_def down_step_frame Let_def)

lemma down_log_up:
  assumes "down_log C out up d rl D opened s"
  shows "down_log C out up d rl D opened (up_step io C pc s)"
proof -
  have "rl_same d m (fw_record (up_step io C pc s))" if "rl_same d m (fw_record s)" for m
    using that up_step_channel(1) [of s io C pc] assms unfolding down_log_def
    by (metis rl.same_sym rl.same_trans)
  with assms show ?thesis unfolding down_log_def up_step_frame by blast
qed

lemma down_log_open:
  assumes "down_log C out up d rl D opened s" "fw_down s = DownOpen ct"
  shows "down_log C out up d rl D (opened @ open_event C s (down_step io C (DownOpen ct) s)) (down_step io C (DownOpen ct) s)"
proof -
  from assms obtain m where m: "recv_dir (fw_role s) = d" "up (fw_plain_w s)" "open_chain C d rl opened m" "rl_same d m (fw_record s)"
      "out (fw_plain_w s) = D @ concat (map (snd \<circ> snd \<circ> snd) opened)"
    by (auto simp: down_log_def down_unwritten_def)
  have chain: "open_chain C d rl opened (fw_record s)" by (rule open_chain_end_cong [OF m(3,4)])
  obtain x rec where x: "rl_open C (V1 C) d ct (fw_record s) = (x, rec)" by fastforce
  show ?thesis
  proof (cases x)
    case (Ok pt)
    with open_chain_snoc [OF chain] x m(1,2,5) assms(2) show ?thesis
      by (auto simp: down_log_def down_unwritten_def open_event_def Let_def rl.same_refl intro!: exI [of _ rec])
  qed (use x m assms(2) in \<open>auto simp: down_log_def down_unwritten_def open_event_def\<close>)
qed

lemma open_event_other: "(\<And>ct. fw_down s \<noteq> DownOpen ct) \<Longrightarrow> open_event C s t = []"
  by (cases "fw_down s") (auto simp: open_event_def)

lemma down_log_write:
  assumes "down_log C out up d rl D opened s" "write_ok io out up" "fw_down s = DownWrite pt"
  shows "down_log C out up d rl D opened (down_step io C (DownWrite pt) s)"
proof -
  have "up (fw_plain_w s)" using assms(1,3) by (simp add: down_log_def)
  then obtain w where "io_write_all io pt (fw_plain_w s) = (Ok (), w)" "out w = out (fw_plain_w s) @ pt" "up w"
    using assms(2) unfolding write_ok_def by blast
  with assms(1,3) show ?thesis by (auto simp: down_log_def down_unwritten_def)
qed

lemma down_log_shutdown:
  assumes "down_log C out up d rl D opened s" "shutdown_ok io out up" "fw_down s = DownShutdown"
  shows "down_log C out up d rl D opened (down_step io C DownShutdown s)"
proof -
  have "up (fw_plain_w s)" using assms(1,3) by (simp add: down_log_def)
  then obtain w where "io_shutdown io (fw_plain_w s) = (Ok (), w)" "out w = out (fw_plain_w s)"
    using assms(2) unfolding shutdown_ok_def by blast
  with assms(1,3) show ?thesis by (auto simp: down_log_def down_unwritten_def)
qed

lemma down_log_read:
  assumes "down_log C out up d rl D opened s"
  shows "fw_down s = DownRead \<Longrightarrow> down_log C out up d rl D opened (down_step io C DownRead s)"
    "fw_down s = DownAck h \<Longrightarrow> down_log C out up d rl D opened (down_step io C (DownAck h) s)"
  using assms
  by (auto simp: down_log_def down_unwritten_def split: prod.splits result.splits option.splits frame.splits down_pc.splits)

lemma down_log_step:
  assumes "down_log C out up d rl D opened s" "write_ok io out up" "shutdown_ok io out up" "fstep io C s t"
  shows "down_log C out up d rl D (opened @ open_event C s t) t"
  using assms(4)
proof (cases rule: fstep.cases)
  case up
  then show ?thesis using down_log_up [OF assms(1)] by (simp add: open_event_up)
next
  case down
  then show ?thesis
    using down_log_read [OF assms(1)] down_log_open [OF assms(1)] down_log_write [OF assms(1,2)]
      down_log_shutdown [OF assms(1,3)] assms(1)
    by (cases "fw_down s") (simp_all add: open_event_other)
qed

lemma down_log_run:
  assumes "fruns io C s sealed opened t" "write_ok io out up" "shutdown_ok io out up"
    and "up (fw_plain_w s)" "down_unwritten (fw_down s) = []"
  shows "down_log C out up (recv_dir (fw_role s)) (fw_record s) (out (fw_plain_w s)) opened t"
  using assms(1)
proof (induction rule: fruns.induct)
  case start
  then show ?case using assms(4,5) rl.same_refl by (auto simp: down_log_def)
next
  case (step sealed opened t u)
  then show ?case using down_log_step assms(2,3) by blast
qed

text \<open>The up task: what it has sealed is a chain too, and its plaintexts are what it has read.\<close>

definition up_log where
  "up_log C inc fin d rl D sealed s \<longleftrightarrow> send_dir (fw_role s) = d \<and> rl_valid C (fw_record s) \<and> fin (fw_plain_r s) = None \<and>
     (\<forall>buf. fw_up s = UpSeal buf \<longrightarrow> length buf \<le> CHUNK) \<and>
     (\<exists>left. concat (map (snd \<circ> snd \<circ> snd) sealed) @ left = D \<and>
       (\<forall>body buf. fw_up s \<in> {UpRead, UpSeal buf, UpWrite body} \<longrightarrow> left = up_unread (fw_up s) (inc (fw_plain_r s)))) \<and>
     (\<exists>m. open_chain C d rl sealed m \<and> ((\<forall>x. fw_up s \<noteq> UpDone x) \<longrightarrow> rl_same d m (fw_record s)))"

lemma seal_event_other: "(\<And>buf. fw_up s \<noteq> UpSeal buf) \<Longrightarrow> seal_event C s t = []"
  by (cases "fw_up s") (auto simp: seal_event_def)

lemma up_log_down:
  assumes "up_log C inc fin d rl D sealed s"
  shows "up_log C inc fin d rl D sealed (down_step io C pc s)"
proof -
  have "rl_same d m (fw_record (down_step io C pc s))" if "rl_same d m (fw_record s)" for m
    using that down_step_channel(1) [of s io C pc] assms unfolding up_log_def
    by (metis rl.same_sym rl.same_trans)
  with assms show ?thesis
    unfolding up_log_def down_step_frame using down_step_channel(2) [of C s io pc] by blast
qed

lemma up_log_read:
  assumes "up_log C inc fin d rl D sealed s" "read_ok io inc fin" "fw_up s = UpRead"
  shows "up_log C inc fin d rl D sealed (up_step io C UpRead s)"
proof -
  have "fin (fw_plain_r s) = None" "0 < CHUNK" using assms(1) by (simp_all add: up_log_def CHUNK_def)
  then have "(\<exists>r. io_read io CHUNK (fw_plain_r s) = (Ok [], r) \<and> inc r = inc (fw_plain_r s) \<and> fin r = None) \<or>
      (\<exists>k r. 0 < k \<and> k \<le> CHUNK \<and> k \<le> length (inc (fw_plain_r s)) \<and>
         io_read io CHUNK (fw_plain_r s) = (Ok (take k (inc (fw_plain_r s))), r) \<and>
         inc r = drop k (inc (fw_plain_r s)) \<and> fin r = None)"
    using assms(2) unfolding read_ok_def by metis
  then show ?thesis
    using assms(1,3) by (auto simp: up_log_def up_unread_def split: if_splits)
qed

lemma up_log_seal:
  assumes "up_log C inc fin d rl D sealed s" "fw_up s = UpSeal buf"
  shows "up_log C inc fin d rl D (sealed @ seal_event C s (up_step io C (UpSeal buf) s)) (up_step io C (UpSeal buf) s)"
proof -
  from assms obtain m where m: "send_dir (fw_role s) = d" "rl_valid C (fw_record s)" "fin (fw_plain_r s) = None" "length buf \<le> CHUNK"
      "open_chain C d rl sealed m" "rl_same d m (fw_record s)"
      "concat (map (snd \<circ> snd \<circ> snd) sealed) @ buf @ inc (fw_plain_r s) = D"
    by (auto simp: up_log_def up_unread_def)
  have "rl_fits buf" using m(4) by (simp add: rl_fits_def CHUNK_def)
  from rl.transfer [OF m(2) rl.same_refl this] obtain ct a b where
    ct: "rl_seal C (V1 C) d buf (fw_record s) = (Ok ct, a)" "rl_open C (V1 C) d ct (fw_record s) = (Ok buf, b)" "rl_same d a b" by blast
  have "open_chain C d rl (sealed @ [(rl_nonce C d (fw_record s), rl_aad d (fw_record s), ct, buf)]) b"
    by (rule open_chain_snoc [OF open_chain_end_cong [OF m(5,6)] ct(2)])
  moreover have "rl_same d b a" "rl_valid C a"
    using ct(3) rl.same_sym rl.valid_seal [OF m(2), of d buf] ct(1) by auto
  ultimately show ?thesis
    using m(1,3,7) ct(1) assms(2) by (auto simp: up_log_def up_unread_def seal_event_def Let_def)
qed

lemma up_log_write:
  assumes "up_log C inc fin d rl D sealed s"
  shows "fw_up s = UpWrite body \<Longrightarrow> up_log C inc fin d rl D sealed (up_step io C (UpWrite body) s)"
    "fw_up s = UpClose \<Longrightarrow> up_log C inc fin d rl D sealed (up_step io C UpClose s)"
    "fw_up s = UpShutdown \<Longrightarrow> up_log C inc fin d rl D sealed (up_step io C UpShutdown s)"
  using assms by (auto simp: up_log_def up_unread_def split: prod.splits result.splits)

lemma up_log_step:
  assumes "up_log C inc fin d rl D sealed s" "read_ok io inc fin" "fstep io C s t"
  shows "up_log C inc fin d rl D (sealed @ seal_event C s t) t"
  using assms(3)
proof (cases rule: fstep.cases)
  case down
  then show ?thesis using up_log_down [OF assms(1)] by (simp add: seal_event_down)
next
  case up
  show ?thesis
  proof (cases "fw_up s")
    case (UpSeal buf)
    with up up_log_seal [OF assms(1)] show ?thesis by simp
  qed (use up up_log_read [OF assms(1,2)] up_log_write [OF assms(1)] assms(1) in \<open>simp_all add: seal_event_other\<close>)
qed

lemma up_log_run:
  assumes "fruns io C s sealed opened t" "read_ok io inc fin" "rl_valid C (fw_record s)" "fin (fw_plain_r s) = None" "fw_up s = UpRead"
  shows "up_log C inc fin (send_dir (fw_role s)) (fw_record s) (inc (fw_plain_r s)) sealed t"
  using assms(1)
proof (induction rule: fruns.induct)
  case start
  then show ?case using assms(3-5) rl.same_refl by (auto simp: up_log_def up_unread_def)
next
  case (step sealed opened t u)
  then show ?case using up_log_step assms(2) by blast
qed


section \<open>Properties\<close>

text \<open>
  C4. Integrity of the tunnel against an active attacker. Let two ends agree on their record
  layers, run in any interleavings, and let the network deliver to the second end whatever it
  likes. As long as nobody forges a ciphertext, the records that the second end opens are the
  first records that the first end has sealed, in order, none of them twice and none left out;
  and it has written to its plaintext socket nothing but the early data and a prefix of what the
  first end has read from its own. So an attacker can cut the stream, but not change, reorder,
  repeat or insert anything. (The sequence numbers of records are 64 bits wide.)
\<close>

theorem forwarding_integrity:
  assumes "peers C ca cb" "read_ok io inc fin" "write_ok io out up" "shutdown_ok io out up"
    and "forward_start io pra pwa ca wa ea = Ok a0" "forward_start io prb pwb cb wb eb = Ok b0"
    and "fin pra = None" "up pwb"
    and "fruns io C a0 sealed opened' a" "fruns io C b0 sealed' opened b"
    and "unforged sealed opened" "length sealed < 2 ^ 64"
  shows "opened = take (length opened) sealed \<and> (\<exists>k. out (fw_plain_w b) = take k (out pwb @ eb @ inc pra))"
proof -
  let ?d = "send_dir (oc_role ca)"
  note a0 = forward_start_fields [OF assms(5)] and b0 = forward_start_fields [OF assms(6)]
  have ps: "rl_valid C (oc_record ca)" "rl_same ?d (oc_record ca) (oc_record cb)" "recv_dir (oc_role cb) = ?d"
    using assms(1) by (simp_all add: peers_def)
  obtain w where w: "up w" "out w = out pwb @ eb" "fw_plain_w b0 = w"
    using forward_start_eq [OF assms(3,8), where early = eb and pr = prb and conn = cb and wanted = wb] assms(6)
    by (metis fwd.select_convs(2) result.inject(1))
  have "up_log C inc fin ?d (oc_record ca) (inc pra) sealed a"
    using up_log_run [OF assms(9,2)] assms(7) ps(1) a0 by simp
  then obtain m left where sealed: "open_chain C ?d (oc_record ca) sealed m" "concat (map (snd \<circ> snd \<circ> snd) sealed) @ left = inc pra"
    unfolding up_log_def by blast
  have "down_log C out up ?d (oc_record cb) (out pwb @ eb) opened b"
    using down_log_run [OF assms(10,3,4)] w ps(3) b0 by (simp add: down_unwritten_def split: option.split)
  then obtain m' where opened: "open_chain C ?d (oc_record cb) opened m'"
      "out (fw_plain_w b) @ down_unwritten (fw_down b) = (out pwb @ eb) @ concat (map (snd \<circ> snd \<circ> snd) opened)"
    unfolding down_log_def by blast
  have pre: "opened = take (length opened) sealed"
    using open_chain_prefix [OF open_chain_start_cong [OF sealed(1) ps(2)] assms(12) opened(1) assms(11)] by simp
  then have "concat (map (snd \<circ> snd \<circ> snd) sealed) =
      concat (map (snd \<circ> snd \<circ> snd) opened) @ concat (map (snd \<circ> snd \<circ> snd) (drop (length opened) sealed))"
    by (metis append_take_drop_id concat_append map_append)
  then have "out pwb @ eb @ inc pra = out (fw_plain_w b) @ down_unwritten (fw_down b) @
      concat (map (snd \<circ> snd \<circ> snd) (drop (length opened) sealed)) @ left"
    using opened(2) sealed(2) by (metis append.assoc)
  then have "out (fw_plain_w b) = take (length (out (fw_plain_w b))) (out pwb @ eb @ inc pra)" by simp
  with pre show ?thesis by blast
qed

text \<open>One record sealed by a sample client and opened by a sample server.\<close>

definition sample_fwd ::
    "role \<Rightarrow> bytes \<Rightarrow> bytes \<Rightarrow> bytes \<Rightarrow> (bytes option \<times> bytes) record_layer \<Rightarrow> up_pc \<Rightarrow> down_pc \<Rightarrow>
      (bytes \<times> io_error option, bytes \<times> bool, bytes option \<times> bytes) fwd" where
  "sample_fwd role input written tunnel rec u d = \<lparr>fw_plain_r = (input, None), fw_plain_w = (written, True),
     fw_tun_r = (tunnel, None), fw_tun_w = ([], True), fw_record = rec, fw_role = role, fw_up = u, fw_down = d\<rparr>"

lemma sample_fwd_up:
  assumes "up_step sample_io sample_crates u (sample_fwd role i w t rec u DownRead) = s" "forward_result u DownRead = None"
    "\<forall>x. u \<noteq> UpDone x"
  shows "fstep sample_io sample_crates (sample_fwd role i w t rec u DownRead) s"
  using fstep.up [of "sample_fwd role i w t rec u DownRead" sample_io sample_crates] assms by (simp add: sample_fwd_def)

lemma sample_fwd_down:
  assumes "down_step sample_io sample_crates d (sample_fwd role i w t rec UpRead d) = s" "forward_result UpRead d = None"
    "\<forall>x. d \<noteq> DownDone x"
  shows "fstep sample_io sample_crates (sample_fwd role i w t rec UpRead d) s"
  using fstep.down [of "sample_fwd role i w t rec UpRead d" sample_io sample_crates] assms by (simp add: sample_fwd_def)

lemma sample_record_crosses:
  obtains a0 a b0 b sealed body where
    "forward_start sample_io ([1, 2], None) ([], True) (sample_conn Client []) None [] = Ok a0"
    "forward_start sample_io ([], None) ([], True) (sample_conn Server [body]) None [9] = Ok b0"
    "fruns sample_io sample_crates a0 [sealed] [] a" "fruns sample_io sample_crates b0 [] [sealed] b"
proof -
  let ?C = sample_crates and ?l = sample_layer and ?d = ClientToServer
  have "rl_fits [1, 2]" by (simp add: rl_fits_def)
  from rl.transfer [OF sample_layer_valid rl.same_refl this] obtain ct l l' where
    ct: "rl_seal ?C (V1 ?C) ?d [1, 2] ?l = (Ok ct, l)" "rl_open ?C (V1 ?C) ?d ct ?l = (Ok [1, 2], l')" "length ct = 18"
    by force
  let ?body = "record_body ?d ct"
  let ?a0 = "sample_fwd Client [1, 2] [] [] ?l UpRead DownRead" and ?a1 = "sample_fwd Client [] [] [] ?l (UpSeal [1, 2]) DownRead"
  let ?a2 = "sample_fwd Client [] [] [] l (UpWrite ?body) DownRead"
  let ?b0 = "sample_fwd Server [] [9] (encode_framed ?body) ?l UpRead DownRead"
  let ?b1 = "sample_fwd Server [] [9] [] ?l UpRead (DownOpen ct)" and ?b2 = "sample_fwd Server [] [9] [] l' UpRead (DownWrite [1, 2])"
  have "fstep sample_io ?C ?a0 ?a1" "fstep sample_io ?C ?a1 ?a2"
    by (rule sample_fwd_up; simp add: sample_fwd_def sample_io_def CHUNK_def ct(1) record_body_def)+
  from fruns.step [OF fruns.step [OF fruns.start this(1)] this(2)]
  have a: "fruns sample_io ?C ?a0 [(rl_nonce ?C ?d ?l, rl_aad ?d ?l, ct, [1, 2])] [] ?a2"
    by (simp add: seal_event_def open_event_def sample_fwd_def ct(1))
  have "pending sample_io fst snd (encode_framed ?body, None) [?body]"
    using sample_pending [of "[?body]"] ct(3) by (simp add: record_body_def encode_eq MAX_FRAME_def)
  then have "read_frame sample_io (encode_framed ?body, None) = (Ok (Some ?body), ([], None))"
    using source.recv_next [of sample_io fst snd "(encode_framed ?body, None)" ?body "[]"] by (auto simp: pending_def)
  moreover have "decode ?body = Ok (DataRecord (dir_code ?d) ct)"
    by (rule record_body_decodes) (simp add: ct(3) CHUNK_def)
  ultimately have "fstep sample_io ?C ?b0 ?b1" "fstep sample_io ?C ?b1 ?b2"
    by (intro sample_fwd_down; simp add: sample_fwd_def recv_dir_def ct(2))+
  from fruns.step [OF fruns.step [OF fruns.start this(1)] this(2)]
  have b: "fruns sample_io ?C ?b0 [] [(rl_nonce ?C ?d ?l, rl_aad ?d ?l, ct, [1, 2])] ?b2"
    by (simp add: seal_event_def open_event_def sample_fwd_def recv_dir_def)
  show thesis
    by (rule that [OF _ _ a b, of ?body]) (simp_all add: forward_start_def sample_conn_def sample_fwd_def sample_io_def)
qed

theorem forwarding_integrity_witness:
  "\<exists>a0 a b0 b body sealed.
    forward_start sample_io ([1, 2], None) ([], True) (sample_conn Client []) None [] = Ok a0 \<and>
    forward_start sample_io ([], None) ([], True) (sample_conn Server [body]) None [9] = Ok b0 \<and>
    fruns sample_io sample_crates a0 [sealed] [] a \<and> fruns sample_io sample_crates b0 [] [sealed] b \<and>
    (\<exists>k. fst (fw_plain_w b) = take k [9, 1, 2])"
proof -
  obtain a0 a b0 b sealed body where runs: "forward_start sample_io ([1, 2], None) ([], True) (sample_conn Client []) None [] = Ok a0"
    "forward_start sample_io ([], None) ([], True) (sample_conn Server [body]) None [9] = Ok b0"
    "fruns sample_io sample_crates a0 [sealed] [] a" "fruns sample_io sample_crates b0 [] [sealed] b"
    by (rule sample_record_crosses)
  have "unforged [sealed] [sealed]" by (cases sealed) (auto simp: unforged_def)
  with forwarding_integrity [OF sample_peers sample_io_read_ok sample_io_ok(2,3) runs(1,2) _ _ runs(3,4)]
  have "\<exists>k. fst (fw_plain_w b) = take k [9, 1, 2]" by simp
  with runs show ?thesis by blast
qed

text \<open>What holds of an end that waits for the acknowledgement of its key.\<close>

definition ack_inv where
  "ack_inv io h s0 s \<longleftrightarrow>
     (case fw_down s of
        DownAck h' \<Rightarrow> h' = h \<and> fw_plain_w s = fw_plain_w s0 \<and> fw_tun_r s = fw_tun_r s0
      | DownDone x \<Rightarrow> (\<exists>body r. read_frame io (fw_tun_r s0) = (Ok (Some body), r) \<and> decode body = Ok (ServerAck h)) \<or>
          fw_plain_w s = fw_plain_w s0 \<and> (x = Ok () \<longrightarrow> fst (read_frame io (fw_tun_r s0)) = Ok None)
      | _ \<Rightarrow> \<exists>body r. read_frame io (fw_tun_r s0) = (Ok (Some body), r) \<and> decode body = Ok (ServerAck h))"

lemma ack_inv_step: "fstep io C s t \<Longrightarrow> ack_inv io h s0 s \<Longrightarrow> ack_inv io h s0 t"
proof (erule fstepE)
  assume "t = up_step io C (fw_up s) s" "ack_inv io h s0 s"
  then show ?thesis by (simp add: ack_inv_def up_step_frame cong: down_pc.case_cong)
next
  assume t: "t = down_step io C (fw_down s) s" and inv: "ack_inv io h s0 s"
  show ?thesis
    using inv unfolding t
    by (cases "fw_down s") (auto simp: ack_inv_def split: prod.splits result.splits option.splits frame.splits down_pc.splits)
qed

lemma ack_inv_run: "(fstep io C)\<^sup>*\<^sup>* s0 s \<Longrightarrow> fw_down s0 = DownAck h \<Longrightarrow> ack_inv io h s0 s"
  by (induction rule: rtranclp_induct) (auto simp: ack_inv_def [of io h s0 s0] intro: ack_inv_step)

text \<open>
  C18. Key confirmation comes first. After a 0-RTT handshake the client waits for the hash of the
  session key. Whatever the network delivers and however the two tasks interleave, nothing is
  written to the application unless the first frame from the tunnel is a \<open>ServerAck\<close> with exactly
  that hash; and without it the receiving task ends without an error only if the stream ended
  before that frame.
\<close>

theorem key_confirmation_first:
  assumes "forward_start io pr pw conn (Some h) [] = Ok s0" "(fstep io C)\<^sup>*\<^sup>* s0 s"
  shows "(\<exists>body r. read_frame io (oc_reader conn) = (Ok (Some body), r) \<and> decode body = Ok (ServerAck h)) \<or>
    fw_plain_w s = pw \<and> (fw_down s = DownDone (Ok ()) \<longrightarrow> fst (read_frame io (oc_reader conn)) = Ok None)"
proof -
  have s0: "fw_down s0 = DownAck h" "fw_plain_w s0 = pw" "fw_tun_r s0 = oc_reader conn"
    using assms(1) by (auto simp: forward_start_def)
  from ack_inv_run [OF assms(2) s0(1)] s0(2,3) show ?thesis
    by (auto simp: ack_inv_def split: down_pc.splits)
qed

theorem key_confirmation_first_witness:
  "\<exists>s0. forward_start sample_io ([], None) ([], True) (sample_conn Client [encode (ServerAck (replicate 64 7))])
      (Some (replicate 64 8)) [] = Ok s0 \<and>
    (\<forall>s. (fstep sample_io sample_crates)\<^sup>*\<^sup>* s0 s \<longrightarrow> fw_plain_w s = ([], True) \<and> fw_down s \<noteq> DownDone (Ok ()))"
proof -
  let ?ack = "encode (ServerAck (replicate 64 7))"
  let ?c = "sample_conn Client [?ack]"
  have "length ?ack \<le> MAX_FRAME" by (simp add: encode_eq MAX_FRAME_def)
  then have "pending sample_io fst snd (oc_reader ?c) [?ack]"
    using sample_pending [of "[?ack]"] by (simp add: sample_conn_def)
  then obtain r where read: "read_frame sample_io (oc_reader ?c) = (Ok (Some ?ack), r)"
    using source.recv_next [of sample_io fst snd "oc_reader ?c" ?ack "[]"] by blast
  obtain s0 where s0: "forward_start sample_io ([], None) ([], True) ?c (Some (replicate 64 8)) [] = Ok s0"
    using forward_start_eq [OF sample_io_ok(2), of "([], True)"] by (metis snd_conv)
  have "replicate 64 7 \<noteq> replicate 64 (8 :: u8)" by (simp add: numeral_eq_Suc)
  then have "fw_plain_w s = ([], True) \<and> fw_down s \<noteq> DownDone (Ok ())" if "(fstep sample_io sample_crates)\<^sup>*\<^sup>* s0 s" for s
    using key_confirmation_first [OF s0 that] read ack_decodes [of "replicate 64 7"] by auto
  with s0 show ?thesis by blast
qed

end
