(* ===== verification/Typing.thy ===== *)
theory Typing
  imports Forward
begin

text \<open>
  No input makes the program panic, and what it computes has the sizes that its types promise.
  The theory has a small calculus for the fallible operations: \<open>safe I Q m\<close> says that \<open>m\<close>, run
  in a state that satisfies \<open>I\<close>, does not panic, keeps \<open>I\<close>, and returns only values that satisfy
  \<open>Q\<close>. The rules follow the combinators that the operations are made of.
\<close>

section \<open>The calculus\<close>

fun rsafe :: "('a \<Rightarrow> bool) \<Rightarrow> ('a, 'e) result \<Rightarrow> bool" where
  "rsafe Q (Ok x) \<longleftrightarrow> Q x"
| "rsafe Q (Err e) \<longleftrightarrow> True"
| "rsafe Q Panic \<longleftrightarrow> False"

definition safe :: "('s \<Rightarrow> bool) \<Rightarrow> ('a \<Rightarrow> bool) \<Rightarrow> ('a, 'e, 's) sm \<Rightarrow> bool" where
  "safe I Q m \<longleftrightarrow> (\<forall>s. I s \<longrightarrow> rsafe Q (fst (m s)) \<and> I (snd (m s)))"

lemma rsafe_mono: "rsafe Q m \<Longrightarrow> (\<And>x. Q x \<Longrightarrow> R x) \<Longrightarrow> rsafe R m"
  by (cases m) auto

lemma rsafe_bind: "rsafe Q m \<Longrightarrow> (\<And>x. Q x \<Longrightarrow> rsafe R (f x)) \<Longrightarrow> rsafe R (bind_result m f)"
  by (cases m) auto

lemma rsafe_map_err [simp]: "rsafe Q (map_err f m) = rsafe Q m"
  by (cases m) auto

lemma rsafe_ok_or [simp]: "rsafe Q (ok_or e m) \<longleftrightarrow> (\<forall>x. m = Some x \<longrightarrow> Q x)"
  by (cases m) auto

lemma safe_bind:
  "safe I Q m \<Longrightarrow> (\<And>x. Q x \<Longrightarrow> safe I R (f x)) \<Longrightarrow> safe I R (sbind m f)"
  unfolding safe_def sbind_def by (fastforce split: prod.split result.split)

lemma safe_lift: "rsafe Q m \<Longrightarrow> safe I Q (slift m)"
  by (simp add: safe_def)

lemma safe_return: "Q x \<Longrightarrow> safe I Q (sreturn x)"
  by (simp add: safe_def)

lemma safe_mono: "safe I Q m \<Longrightarrow> (\<And>x. Q x \<Longrightarrow> R x) \<Longrightarrow> safe I R m"
  unfolding safe_def by (blast intro: rsafe_mono)

lemma safeD: "safe (\<lambda>_. True) Q m \<Longrightarrow> m s = (x, s') \<Longrightarrow> rsafe Q x"
  unfolding safe_def by (metis fst_conv)

lemma rsafe_no_panic: "rsafe Q m \<Longrightarrow> m \<noteq> Panic"
  by auto

lemma safe_on_reader: "safe (\<lambda>_. True) Q m \<Longrightarrow> safe (\<lambda>s. I (cs_shared s)) Q (on_reader conv m)"
  by (simp add: safe_def on_reader_def split: prod.split) (metis fst_conv)

lemma safe_on_writer: "safe (\<lambda>_. True) Q m \<Longrightarrow> safe (\<lambda>s. I (cs_shared s)) Q (on_writer conv m)"
  by (simp add: safe_def on_writer_def split: prod.split) (metis fst_conv)

lemma safe_on_shared: "safe I Q m \<Longrightarrow> safe (\<lambda>s. I (cs_shared s)) Q (on_shared conv m)"
  by (auto simp: safe_def on_shared_def split: prod.split)


section \<open>What the types of the libraries say\<close>

text \<open>Shared secrets and ciphertexts of ML-KEM are arrays of 32 and 1088 bytes, for every key.\<close>

definition kem_typed :: "('dk, 'ek, 'sk, 'vk, 'sg, 'h) crates \<Rightarrow> bool" where
  "kem_typed C \<longleftrightarrow>
     (\<forall>ek m ct shared. length m = 32 \<longrightarrow> ek_encapsulate_deterministic C ek m = (ct, shared) \<longrightarrow>
       length ct = 1088 \<and> length shared = 32) \<and>
     (\<forall>dk ct shared. length ct = 1088 \<longrightarrow> dk_decapsulate_slice C dk ct = Some shared \<longrightarrow> length shared = 32)"

text \<open>The streams return errors, they do not panic; a read returns no more than it was asked for.\<close>

definition io_typed :: "('r, 'w) tokio_io \<Rightarrow> bool" where
  "io_typed io \<longleftrightarrow>
     (\<forall>n. safe (\<lambda>_. True) (\<lambda>bs. length bs \<le> n) (io_read io n)) \<and>
     (\<forall>n. safe (\<lambda>_. True) (\<lambda>bs. length bs = n) (io_read_exact io n)) \<and>
     (\<forall>bs. safe (\<lambda>_. True) (\<lambda>_. True) (io_write_all io bs)) \<and>
     safe (\<lambda>_. True) (\<lambda>_. True) (io_flush io) \<and> safe (\<lambda>_. True) (\<lambda>_. True) (io_shutdown io)"

text \<open>The certificate parser returns errors.\<close>

definition x509_typed :: "('c, 'k) x509 \<Rightarrow> bool" where
  "x509_typed X \<longleftrightarrow> (\<forall>bs. x_parse X bs \<noteq> Panic) \<and> (\<forall>c k. x_verify_signature X c k \<noteq> Panic)"


section \<open>Frames from the network\<close>

lemma read_frame_safe:
  assumes "io_typed io"
  shows "safe (\<lambda>_. True) (\<lambda>b. \<forall>body. b = Some body \<longrightarrow> length body \<le> MAX_FRAME) (read_frame io)"
  unfolding safe_def
proof (intro allI impI conjI)
  fix r
  have exact: "rsafe (\<lambda>bs. length bs = n) (fst (io_read_exact io n r))" for n r
    using assms unfolding io_typed_def safe_def by blast
  show "rsafe (\<lambda>b. \<forall>body. b = Some body \<longrightarrow> length body \<le> MAX_FRAME) (fst (read_frame io r))"
  proof (cases "io_read_exact io 4 r")
    case (Pair x r1)
    show ?thesis
    proof (cases x)
      case (Ok len)
      obtain y r2 where y: "io_read_exact io (unat (u32_from_be_bytes len)) r1 = (y, r2)" by fastforce
      with exact [of "unat (u32_from_be_bytes len)" r1] Pair Ok show ?thesis
        by (cases y) (auto simp: read_frame_def parse_len_def sbind_def Let_def)
    next
      case (Err e)
      with Pair show ?thesis by (simp add: read_frame_def)
    next
      case Panic
      with Pair exact [of 4 r] show ?thesis by simp
    qed
  qed
qed simp

lemma write_frame_safe: "io_typed io \<Longrightarrow> safe (\<lambda>_. True) (\<lambda>_. True) (write_frame io body)"
  unfolding write_frame_def Let_def
  by (rule safe_bind [where Q = "\<lambda>_. True"]) (simp_all add: io_typed_def)

lemma decode_safe: "length body \<le> MAX_FRAME \<Longrightarrow> rsafe frame_ok (decode body)"
proof -
  assume "length body \<le> MAX_FRAME"
  then have l: "length body \<le> isize_max" by (simp add: MAX_FRAME_def isize_max_def)
  show ?thesis
  proof (cases "decode body")
    case (Ok f)
    with decode_OkD [OF Ok l] show ?thesis by simp
  next
    case Panic
    with l show ?thesis by (rule_tac decode_not_Ok [of body]) simp_all
  qed simp
qed

lemma next_body_safe:
  "io_typed io \<Longrightarrow> safe (\<lambda>s. I (cs_shared s)) (\<lambda>body. length body \<le> MAX_FRAME) (next_body io)"
  unfolding next_body_def
  by (rule safe_bind [OF safe_on_reader [OF read_frame_safe]], assumption) (rule safe_lift, simp)


section \<open>The server's handshake\<close>

lemma rl_open_safe: "rsafe (\<lambda>_. True) (fst (rl_open C (V1 C) d ct rl))"
  by (cases "aead_open (V1 C) (enc_key (rl_keys rl)) (rl_nonce C d rl) (rl_aad d rl) ct")
    (simp_all add: rl_open_eq V1_def v1_aead_open_def, metis ok_or.simps option.exhaust result.distinct(3,5))

lemma derive_safe: "crates_ok C \<Longrightarrow> rsafe (\<lambda>keys. length (enc_key keys) = 32) (derive_session_keys (V1 C) shared ct)"
  using v1.derive_total [of C shared ct] by auto

lemma decapsulate_safe: "kem_typed C \<Longrightarrow> rsafe (\<lambda>_. True) (kem_decapsulate (V1 C) sk ct)"
proof -
  assume "kem_typed C"
  then have "length ct = 1088 \<Longrightarrow> dk_decapsulate_slice C sk ct = Some shared \<Longrightarrow> length shared = 32" for shared
    unfolding kem_typed_def by blast
  then show ?thesis
    by (cases "dk_decapsulate_slice C sk ct") (simp_all add: V1_def v1_kem_decapsulate_def v1_sizes copy_from_slice_def)
qed

lemma unwrap_safe:
  assumes "crates_ok C" "kem_typed C"
  shows "rsafe (\<lambda>se. rl_valid C (se_record se)) (unwrap_payload C (V1 C) sk p)"
  unfolding unwrap_payload_def
proof (rule rsafe_bind [OF decapsulate_safe [OF assms(2)]], rule rsafe_bind [OF derive_safe [OF assms(1)]])
  fix shared and keys :: session_keys
  assume "length (enc_key keys) = 32"
  then have v: "rl_valid C (rl_new C keys (kp_nonce p))"
    using assms(1) by (simp add: rl_valid_def rl_new_def Let_def)
  obtain x rec where x: "rl_open C (V1 C) ClientToServer (kp_enc_data p) (rl_new C keys (kp_nonce p)) = (x, rec)"
    by fastforce
  with rl.valid_open [OF v, of ClientToServer "kp_enc_data p"] rl_open_safe [of C ClientToServer "kp_enc_data p" "rl_new C keys (kp_nonce p)"]
  show "rsafe (\<lambda>se. rl_valid C (se_record se))
     (let (opened, record) = rl_open C (V1 C) ClientToServer (kp_enc_data p) (rl_new C keys (kp_nonce p)) in
      bind_result opened (\<lambda>early. Ok \<lparr>se_record = record, se_early_data = early\<rparr>))"
    by (cases x) simp_all
qed

lemma process_payload_safe:
  assumes "crates_ok C" "kem_typed C" "kp_ok p"
  shows "safe (\<lambda>_. True) (\<lambda>se. rl_valid C (se_record se)) (process_payload C (V1 C) cfg pk p peer now)"
  unfolding safe_def process_payload_eq precheck_v1 [OF assms(3)]
  using unwrap_safe [OF assms(1,2), of "sv_kem_secret cfg" p]
  by (simp add: check_and_insert_def Let_def)

lemma server_on_first_safe:
  assumes "crates_ok C" "kem_typed C" "frame_ok f"
  shows "safe (\<lambda>_. True) (\<lambda>step. \<forall>ack se. step = ZeroRtt ack se \<longrightarrow> rl_valid C (se_record se))
    (server_on_first C (V1 C) cfg f peer now)"
proof -
  have suite: "rsafe (\<lambda>_. True) (check_suite c)" for c
    by (simp add: check_suite_def split: option.split)
  have err: "safe (\<lambda>_. True) Q (slift (Err e))" for Q e
    by (simp add: safe_lift)
  show ?thesis
  proof (cases f)
    case (ClientHelloZeroRtt suite_id pk p)
    with assms(3) have "kp_ok p" by simp
    from process_payload_safe [OF assms(1,2) this] show ?thesis
      unfolding server_on_first_def ClientHelloZeroRtt frame.case Let_def
      by (intro safe_bind [OF safe_lift [OF suite]] safe_bind [where Q = "\<lambda>se. rl_valid C (se_record se)"] safe_return) auto
  next
    case (ClientHelloOneRtt suite_id pk)
    show ?thesis
      unfolding server_on_first_def ClientHelloOneRtt frame.case
      by (intro safe_bind [OF safe_lift [OF suite]] safe_return) simp
  qed (simp_all add: server_on_first_def err)
qed

lemma server_on_client_data_safe:
  assumes "crates_ok C" "kem_typed C" "frame_ok f"
  shows "safe (\<lambda>_. True) (\<lambda>se. rl_valid C (se_record se)) (server_on_client_data C (V1 C) cfg f peer now)"
  using process_payload_safe [OF assms(1,2)] assms(3)
  by (cases f) (simp_all add: server_on_client_data_def safe_def)

text \<open>The connection a server hands to the forwarder.\<close>

definition conn_typed :: "('dk, 'ek, 'sk, 'vk, 'sg, 'h) crates \<Rightarrow> role \<Rightarrow> ('r, 'w, 'h) ort_conn \<Rightarrow> bool" where
  "conn_typed C role conn \<longleftrightarrow> rl_valid C (oc_record conn) \<and> oc_role conn = role"

lemma decoded_safe: "length body \<le> MAX_FRAME \<Longrightarrow> safe I frame_ok (slift (map_err Proto (decode body)))"
  by (rule safe_lift) (simp add: decode_safe)

lemma written_safe: "io_typed io \<Longrightarrow> safe (\<lambda>s. I (cs_shared s)) (\<lambda>_. True) (on_writer Io (write_frame io body))"
  by (rule safe_on_writer [OF write_frame_safe])

lemma server_accept_safe:
  fixes C :: "('dk, 'ek, 'sk, 'vk, 'sg, 'h) crates"
  assumes "crates_ok C" "kem_typed C" "io_typed io"
  shows "safe (\<lambda>s. (\<lambda>_. True) (cs_shared s)) (\<lambda>out. conn_typed C Server (so_conn out)) (server_accept io C peer cfg now1 others now2)"
  unfolding server_accept_def
proof (rule safe_bind [OF next_body_safe [OF assms(3)]], rule safe_bind [OF decoded_safe], assumption,
    rule safe_bind [OF safe_on_shared [OF server_on_first_safe [OF assms(1,2)]]], assumption)
  fix step :: "'h server_step" assume step: "\<forall>ack se. step = ZeroRtt ack se \<longrightarrow> rl_valid C (se_record se)"
  have established: "safe (\<lambda>_. True) (\<lambda>out. conn_typed C Server (so_conn out))
      (\<lambda>s. (Ok \<lparr>so_conn = \<lparr>oc_reader = cs_reader s, oc_writer = cs_writer s, oc_record = se_record se, oc_role = Server\<rparr>,
              so_early_data = se_early_data se\<rparr>, s))" if "rl_valid C (se_record se)" for se :: "'h server_established"
    using that by (simp add: safe_def conn_typed_def)
  have second: "safe (\<lambda>_. True) (\<lambda>se. rl_valid C (se_record se))
      (on_shared Core (\<lambda>strike. server_on_client_data C (V1 C) cfg f peer now2 (others strike)))" if "frame_ok f" for f
    using server_on_client_data_safe [OF assms(1,2) that, of cfg peer now2] by (auto simp: safe_def on_shared_def split: prod.split) (metis fst_conv)
  show "safe (\<lambda>s. (\<lambda>_. True) (cs_shared s)) (\<lambda>out. conn_typed C Server (so_conn out)) (case step of
       ZeroRtt ack established \<Rightarrow>
         sbind (on_writer Io (write_frame io (encode ack))) (\<lambda>_ s.
         (Ok \<lparr>so_conn = \<lparr>oc_reader = cs_reader s, oc_writer = cs_writer s,
                oc_record = se_record established, oc_role = Server\<rparr>,
              so_early_data = se_early_data established\<rparr>, s))
     | OneRtt hello \<Rightarrow>
         sbind (on_writer Io (write_frame io (encode hello))) (\<lambda>_.
         sbind (next_body io) (\<lambda>body2.
         sbind (slift (map_err Proto (decode body2))) (\<lambda>frame2.
         sbind (on_shared Core (\<lambda>strike.
           server_on_client_data C (V1 C) cfg frame2 peer now2 (others strike))) (\<lambda>established s.
         (Ok \<lparr>so_conn = \<lparr>oc_reader = cs_reader s, oc_writer = cs_writer s,
                oc_record = se_record established, oc_role = Server\<rparr>,
              so_early_data = se_early_data established\<rparr>, s))))))"
  proof (cases step)
    case (ZeroRtt ack se)
    with step show ?thesis
      by (auto intro!: safe_bind [OF written_safe [OF assms(3)]] established)
  next
    case (OneRtt hello)
    show ?thesis
      unfolding OneRtt server_step.case
      by (rule safe_bind [OF written_safe [OF assms(3)]], rule safe_bind [OF next_body_safe [OF assms(3)]],
          rule safe_bind [OF decoded_safe], assumption, rule safe_bind [OF second], assumption, rule established)
  qed
qed

section \<open>The client's handshake\<close>

lemma fill_random_safe: "safe rng_ok (\<lambda>bs. length bs = length buf) (fill_random buf :: (bytes, 'e, os_rng) sm)"
proof -
  have "rsafe (\<lambda>bs. length bs = length buf) (expect (rng_out g (rng_calls g) (length buf)) :: (bytes, 'e) result)" if "rng_ok g" for g
  proof -
    from that obtain bs where "rng_out g (rng_calls g) (length buf) = Some bs" "length bs = length buf"
      unfolding rng_ok_def by blast
    then show ?thesis by simp
  qed
  then show ?thesis by (simp add: safe_def fill_random_def)
qed

lemma encapsulate_safe:
  "kem_typed C \<Longrightarrow> length r = 32 \<Longrightarrow> rsafe (\<lambda>(ct, _). length ct = 1088) (kem_encapsulate (V1 C) ek r)"
proof -
  assume "kem_typed C" "length r = 32"
  then have "ek_encapsulate_deterministic C e r = (ct, shared) \<Longrightarrow> length ct = 1088 \<and> length shared = 32" for e ct shared
    unfolding kem_typed_def by blast
  then show ?thesis
    by (cases "array_try_from (ek_size C) ek"; cases "ek_new C (the (array_try_from (ek_size C) ek))")
      (simp_all add: V1_def v1_kem_encapsulate_def v1_sizes copy_from_slice_def split: prod.split)
qed

lemma sign_safe:
  assumes "crates_ok C" "cm_ok cm"
  shows "rsafe (\<lambda>sig. length sig = 3309) (sign_client_binding (V1 C) sk cm pk ct ed)"
  using v1.sig_lengths [OF assms(1)] assms(2)
  by (simp add: sign_client_binding_def client_binding_msg_eq V1_def v1_sizes)

definition client_typed :: "('dk, 'ek, 'sk, 'vk, 'sg, 'h) crates \<Rightarrow> 'h client_established \<Rightarrow> bool" where
  "client_typed C ce \<longleftrightarrow> rl_valid C (ce_record ce) \<and> length (ce_expected_ek_hash ce) = 64"

lemma build_payload_safe:
  assumes "crates_ok C" "kem_typed C" "length src_ip = 16" "length early \<le> MAX_EARLY"
  shows "safe rng_ok (\<lambda>(p, ce). kp_ok p \<and> client_typed C ce) (build_payload C (V1 C) cfg spk src_ip now early)"
  unfolding build_payload_def fresh_r_def
proof (rule safe_bind [OF fill_random_safe], rule safe_bind [OF safe_lift [OF encapsulate_safe [OF assms(2)]]], simp add: R_LEN_def,
    clarify, rule safe_bind [OF safe_lift [OF derive_safe [OF assms(1)]]], rule safe_bind [OF fill_random_safe])
  fix ct shared nonce :: bytes and keys :: session_keys
  assume ct: "length ct = 1088" and keys: "length (enc_key keys) = 32" and nonce: "length nonce = length (replicate 32 (0 :: u8))"
  have "length early \<le> 2 ^ 36" using assms(4) by (simp add: MAX_EARLY_def)
  then obtain ed rc where rec: "rl_seal C (V1 C) ClientToServer early (rl_new C keys nonce) = (Ok ed, rc)"
      "length ed = length early + 16" "rl_valid C rc"
    using first_record [OF assms(1) keys] by metis
  have hash: "length (enc_key_hash (V1 C) rl) = 64" for rl :: "'f record_layer"
    using v1.hash_lengths [OF assms(1)] by (simp add: enc_key_hash_def)
  have cm: "cm_ok \<lparr>cm_src_ip = src_ip, cm_ts_millis = now, cm_nonce = nonce\<rparr>"
    using assms(3) nonce by (simp add: cm_ok_def)
  show "safe rng_ok (\<lambda>(p, ce). kp_ok p \<and> client_typed C ce)
     (let record = rl_new C keys nonce;
         expected_ek_hash = enc_key_hash (V1 C) record;
         (sealed, record) = rl_seal C (V1 C) ClientToServer early record in
     sbind (slift sealed) (\<lambda>enc_data.
     let cm = \<lparr>cm_src_ip = src_ip, cm_ts_millis = now, cm_nonce = nonce\<rparr> in
     sbind (slift (sign_client_binding (V1 C) (cc_sig_secret cfg) cm (cc_client_pk cfg) ct enc_data))
       (\<lambda>client_sig.
     sreturn
       (\<lparr>kp_ciphertext = ct, kp_src_ip = cm_src_ip cm, kp_ts_millis = cm_ts_millis cm,
         kp_nonce = cm_nonce cm, kp_client_sig = client_sig, kp_enc_data = enc_data\<rparr>,
        \<lparr>ce_record = record, ce_expected_ek_hash = expected_ek_hash\<rparr>))))"
    unfolding Let_def rec(1) prod.case
    by (rule safe_bind [OF safe_lift, where Q = "\<lambda>enc. enc = ed"], simp, simp only: ,
        rule safe_bind [OF safe_lift [OF sign_safe [OF assms(1) cm]]], rule safe_return)
      (use ct nonce assms(3,4) rec(2,3) hash in \<open>simp add: kp_ok_def client_typed_def MAX_EARLY_def\<close>)
qed

lemma client_frames_safe:
  assumes "crates_ok C" "kem_typed C" "length src_ip = 16" "length early \<le> MAX_EARLY"
  shows "safe rng_ok (\<lambda>(f, ce). client_typed C ce) (client_zero_rtt C (V1 C) cfg spk src_ip now early)"
    "safe rng_ok (\<lambda>(f, ce). client_typed C ce) (client_one_rtt_finish C (V1 C) cfg spk src_ip now early)"
  unfolding client_zero_rtt_def client_one_rtt_finish_def Let_def
  by (rule safe_bind [OF build_payload_safe [OF assms]], clarify, rule safe_return, simp)+

lemma sv_verify_safe:
  assumes "x509_typed X"
  shows "rsafe (\<lambda>_. True) (sv_verify X v spk certificate)"
proof -
  have parse: "rsafe (\<lambda>_. True) (x_parse X bs)" for bs
    using assms by (cases "x_parse X bs") (auto simp: x509_typed_def)
  have sig: "rsafe (\<lambda>_. True) (x_verify_signature X c k)" for c k
    using assms by (cases "x_verify_signature X c k") (auto simp: x509_typed_def)
  show ?thesis
  proof (cases v)
    case (Strict ca)
    have "rsafe (\<lambda>_. True) (case ca of
        Some ca_der \<Rightarrow> bind_result (map_err (\<lambda>e. Cert (''parse CA: '' @ e)) (x_parse X ca_der)) (\<lambda>(_, ca_cert).
          map_err (\<lambda>e. Cert (''certificate not signed by CA: '' @ e)) (x_verify_signature X cert (Some (x_public_key X ca_cert))))
      | None \<Rightarrow> map_err (\<lambda>e. Cert (''invalid self-signature: '' @ e)) (x_verify_signature X cert None))" for cert
      using parse sig by (cases ca) (auto intro!: rsafe_bind [where Q = "\<lambda>_. True"] split: prod.split)
    then show ?thesis
      unfolding sv_verify_def Strict server_verifier.case
      using parse by (auto intro!: rsafe_bind [where Q = "\<lambda>_. True"] split: prod.split)
  qed (simp add: sv_verify_def)
qed

lemma client_open_safe:
  fixes C :: "('dk, 'ek, 'sk, 'vk, 'sg, 'h) crates"
  assumes "crates_ok C" "kem_typed C" "io_typed io" "x509_typed X" "length src_ip = 16" "length early \<le> MAX_EARLY"
  shows "safe (\<lambda>s. rng_ok (cs_shared s))
    (\<lambda>out. conn_typed C Client (co_conn out) \<and> (\<forall>h. co_expect_ack out = Some h \<longrightarrow> length h = 64))
    (client_open io C X ccfg src_ip cached force verifier now early)"
    (is "safe ?I ?Q _")
proof -
  note frames = client_frames_safe [OF assms(1,2,5,6)] and written = written_safe [OF assms(3), where I = rng_ok]
  have established: "safe ?I ?Q (\<lambda>s. (Ok \<lparr>co_conn = \<lparr>oc_reader = cs_reader s, oc_writer = cs_writer s, oc_record = ce_record ce,
                 oc_role = Client\<rparr>, co_expect_ack = h, co_server_pk = spk\<rparr>, s))"
    if "client_typed C ce" "h = None \<or> h = Some (ce_expected_ek_hash ce)" for ce :: "'h client_established" and h spk
    using that by (auto simp: safe_def conn_typed_def client_typed_def)
  have zero: "safe ?I ?Q (client_open io C X ccfg src_ip (Some spk) False verifier now early)" for spk
    unfolding client_open_def prod.case option.case bool.case
    by (rule safe_bind [OF safe_on_shared [OF frames(1)]], clarify, rule safe_bind [OF written], rule established) simp_all
  have hello: "rsafe (\<lambda>_. True) (bind_result (map_err Proto (decode body)) (\<lambda>frame.
      case frame of ServerHello _ server_pk certificate _ \<Rightarrow> Ok (server_pk, certificate)
      | _ \<Rightarrow> Err (Unexpected ''expected ServerHello'')))" if "length body \<le> MAX_FRAME" for body
    using decode_safe [OF that] by (intro rsafe_bind [where Q = frame_ok]) (auto split: frame.split)
  have one: "safe ?I ?Q (client_open io C X ccfg src_ip cached force verifier now early)" if "cached = None \<or> force"
    using that unfolding client_open_def
    by (cases cached; cases force; simp only: prod.case option.case bool.case simp_thms option.distinct)
      (rule safe_bind [OF written], rule safe_bind [OF next_body_safe [OF assms(3)]], rule safe_bind [OF safe_lift [OF hello]], assumption,
       clarify, rule safe_bind [OF safe_lift [OF sv_verify_safe [OF assms(4)]]], rule safe_bind [OF safe_lift [where Q = "\<lambda>_. True"]],
       simp split: option.split, rule safe_bind [OF safe_on_shared [OF frames(2)]], clarify, rule safe_bind [OF written],
       rule established, simp_all)+
  show ?thesis
    using zero one by (cases cached; cases force) simp_all
qed


section \<open>Forwarding\<close>

definition fwd_typed :: "('dk, 'ek, 'sk, 'vk, 'sg, 'h) crates \<Rightarrow> ('r, 'w, 'h) fwd \<Rightarrow> bool" where
  "fwd_typed C s \<longleftrightarrow> rl_valid C (fw_record s) \<and> (\<forall>buf. fw_up s = UpSeal buf \<longrightarrow> length buf \<le> CHUNK) \<and>
     fw_up s \<noteq> UpDone Panic \<and> fw_down s \<noteq> DownDone Panic"

lemma io_typedD:
  assumes "io_typed io"
  shows "io_read io n r = (x, r') \<Longrightarrow> rsafe (\<lambda>bs. length bs \<le> n) x" "io_write_all io bs w = (y, w') \<Longrightarrow> y \<noteq> Panic"
    "io_shutdown io w = (y, w') \<Longrightarrow> y \<noteq> Panic"
  using assms unfolding io_typed_def by (blast dest: safeD rsafe_no_panic)+

lemma frame_typedD:
  assumes "io_typed io"
  shows "write_frame io bs w = (y, w') \<Longrightarrow> y \<noteq> Panic"
    "read_frame io r = (z, r') \<Longrightarrow> rsafe (\<lambda>b. \<forall>body. b = Some body \<longrightarrow> length body \<le> MAX_FRAME) z"
  using safeD [OF write_frame_safe [OF assms]] safeD [OF read_frame_safe [OF assms]] by (blast dest: rsafe_no_panic)+

lemma up_step_typed:
  assumes "io_typed io" "fwd_typed C s"
  shows "fwd_typed C (up_step io C (fw_up s) s)"
proof -
  let ?u = "fw_up (up_step io C (fw_up s) s)"
  have typed: "rl_valid C (fw_record s)" "fw_down s \<noteq> DownDone Panic" "fw_up s \<noteq> UpDone Panic"
      "\<And>buf. fw_up s = UpSeal buf \<Longrightarrow> length buf \<le> CHUNK"
    using assms(2) unfolding fwd_typed_def by blast+
  have "(\<forall>buf. ?u = UpSeal buf \<longrightarrow> length buf \<le> CHUNK) \<and> ?u \<noteq> UpDone Panic"
  proof (cases "fw_up s")
    case UpRead
    obtain x r where "io_read io CHUNK (fw_plain_r s) = (x, r)" by fastforce
    with io_typedD(1) [OF assms(1) this] UpRead show ?thesis by (cases x) simp_all
  next
    case (UpSeal buf)
    then have "rl_fits buf" using typed(4) [OF UpSeal] by (simp add: rl_fits_def CHUNK_def)
    with typed(1) obtain ct a where "rl_seal C (V1 C) (send_dir (fw_role s)) buf (fw_record s) = (Ok ct, a)"
      using rl.transfer [OF _ rl.same_refl] by blast
    with UpSeal show ?thesis by (simp add: Let_def)
  next
    case (UpWrite body)
    obtain x w where "write_frame io body (fw_tun_w s) = (x, w)" by fastforce
    with frame_typedD(1) [OF assms(1) this] UpWrite show ?thesis by (cases x) simp_all
  next
    case UpClose
    obtain x w where "write_frame io (encode Close) (fw_tun_w s) = (x, w)" by fastforce
    with frame_typedD(1) [OF assms(1) this] UpClose show ?thesis by (cases x) simp_all
  next
    case UpShutdown
    obtain x w where "io_shutdown io (fw_tun_w s) = (x, w)" by fastforce
    with io_typedD(3) [OF assms(1) this] UpShutdown show ?thesis by (cases x) (simp_all add: fw_shutdown_def)
  qed (use typed(3) in simp)
  moreover have "rl_valid C (fw_record (up_step io C (fw_up s) s))" by (rule up_step_channel(2) [OF typed(1)])
  ultimately show ?thesis unfolding fwd_typed_def up_step_frame using typed(2) by blast
qed

lemma down_step_typed:
  assumes "io_typed io" "fwd_typed C s"
  shows "fwd_typed C (down_step io C (fw_down s) s)"
proof -
  let ?d = "fw_down (down_step io C (fw_down s) s)"
  have typed: "rl_valid C (fw_record s)" "fw_down s \<noteq> DownDone Panic" "fw_up s \<noteq> UpDone Panic"
      "\<forall>buf. fw_up s = UpSeal buf \<longrightarrow> length buf \<le> CHUNK"
    using assms(2) unfolding fwd_typed_def by blast+
  obtain b r where b: "read_frame io (fw_tun_r s) = (b, r)" by fastforce
  have no_panic: "b \<noteq> Panic" and decoded: "\<And>body. b = Ok (Some body) \<Longrightarrow> decode body \<noteq> Panic"
    using frame_typedD(2) [OF assms(1) b] decode_safe by (auto dest: rsafe_no_panic)
  have "?d \<noteq> DownDone Panic"
  proof (cases "fw_down s")
    case (DownAck h)
    with b no_panic decoded show ?thesis by (auto split: result.split option.split frame.split)
  next
    case DownRead
    with b no_panic decoded show ?thesis by (auto split: result.split option.split frame.split)
  next
    case (DownOpen ct)
    with rl_open_safe [of C "recv_dir (fw_role s)" ct "fw_record s"] show ?thesis
      by (auto split: prod.split result.split)
  next
    case (DownWrite pt)
    obtain x w where "io_write_all io pt (fw_plain_w s) = (x, w)" by fastforce
    with io_typedD(2) [OF assms(1) this] DownWrite show ?thesis by (cases x) simp_all
  next
    case DownShutdown
    obtain x w where "io_shutdown io (fw_plain_w s) = (x, w)" by fastforce
    with io_typedD(3) [OF assms(1) this] DownShutdown show ?thesis by (cases x) simp_all
  qed (use typed(2) in simp)
  moreover have "rl_valid C (fw_record (down_step io C (fw_down s) s))" by (rule down_step_channel(2) [OF typed(1)])
  ultimately show ?thesis unfolding fwd_typed_def down_step_frame using typed(3,4) by blast
qed

lemma forward_result_Panic: "forward_result u d = Some Panic \<Longrightarrow> u = UpDone Panic \<or> d = DownDone Panic"
  by (induction u d rule: forward_result.induct) auto

lemma fwd_typed_run: "(fstep io C)\<^sup>*\<^sup>* s t \<Longrightarrow> io_typed io \<Longrightarrow> fwd_typed C s \<Longrightarrow> fwd_typed C t"
  by (induction rule: rtranclp_induct) (auto elim!: fstepE intro: up_step_typed down_step_typed)


section \<open>Properties\<close>

text \<open>
  C20. The handshake is well typed. Whatever the network delivers, and however the peer misbehaves,
  neither end of the handshake panics; and if it succeeds, the connection it hands over has the
  role of that end and a record layer whose keys have the size that the cipher takes, and the
  acknowledgement a client waits for has the size of the hash.
\<close>

theorem handshake_typed:
  assumes "crates_ok C" "kem_typed C" "io_typed io" "x509_typed X"
    and "length src_ip = 16" "length early \<le> MAX_EARLY" "rng_ok (cs_shared c)"
  shows "rsafe (\<lambda>out. rl_valid C (oc_record (so_conn out)) \<and> oc_role (so_conn out) = Server)
      (fst (server_accept io C peer scfg now1 others now2 s)) \<and>
    rsafe (\<lambda>out. rl_valid C (oc_record (co_conn out)) \<and> oc_role (co_conn out) = Client \<and>
        (\<forall>h. co_expect_ack out = Some h \<longrightarrow> length h = 64))
      (fst (client_open io C X ccfg src_ip cached force verifier now early c))"
  using server_accept_safe [OF assms(1-3), of peer scfg now1 others now2]
    client_open_safe [OF assms(1-6), of ccfg cached force verifier now] assms(7)
  unfolding safe_def conn_typed_def by (simp add: conj_assoc)

lemma sample_kem_typed: "kem_typed sample_crates"
  by (simp add: kem_typed_def sample_crates_def)

lemma sample_io_typed: "io_typed sample_io"
  by (auto simp: io_typed_def safe_def sample_io_def split: option.split)

lemma sample_x509_typed: "x509_typed sample_x509"
  by (auto simp: x509_typed_def sample_x509_def)

theorem handshake_typed_witness:
  "fst (server_accept sample_io sample_crates (replicate 16 1) sample_server 1000000 id 1000000
      \<lparr>cs_reader = ([0, 0, 0, 1, 0xFF], None), cs_writer = ([], True), cs_shared = sc_new 2000\<rparr>) \<noteq> Panic \<and>
   fst (client_open sample_io sample_crates sample_x509 sample_client (replicate 16 1) None False (Strict None) 7 []
      \<lparr>cs_reader = ([0xFF, 0xFF, 0xFF, 0xFF], None), cs_writer = ([], True), cs_shared = sample_rng\<rparr>) \<noteq> Panic"
proof -
  have "length (replicate 16 1 :: bytes) = 16" "length ([] :: bytes) \<le> MAX_EARLY"
    and "rng_ok (cs_shared \<lparr>cs_reader = ([0xFF, 0xFF, 0xFF, 0xFF] :: bytes, None :: io_error option),
      cs_writer = ([] :: bytes, True), cs_shared = sample_rng\<rparr>)"
    by (simp_all add: sample_rng_ok)
  from handshake_typed [OF sample_crates_ok sample_kem_typed sample_io_typed sample_x509_typed this] show ?thesis
    by (blast dest: rsafe_no_panic)
qed

text \<open>
  C21. Forwarding never panics. From any connection with a record layer of the right sizes, with
  any bytes from either socket and in any interleaving, neither task of the forwarder panics:
  sealing a chunk never fails, and a malformed or forged frame only ends the task with an error.
\<close>

theorem forwarding_never_panics:
  assumes "io_typed io" "rl_valid C (oc_record conn)"
    and "forward_start io pr pw conn wanted early = Ok s0" "(fstep io C)\<^sup>*\<^sup>* s0 s"
  shows "forward_result (fw_up s) (fw_down s) \<noteq> Some Panic"
proof -
  have "fwd_typed C s0"
    using assms(2) forward_start_fields [OF assms(3)] by (simp add: fwd_typed_def split: option.split)
  then have "fwd_typed C s" by (rule fwd_typed_run [OF assms(4,1)])
  then have "fw_up s \<noteq> UpDone Panic" "fw_down s \<noteq> DownDone Panic"
    unfolding fwd_typed_def by blast+
  then show ?thesis using forward_result_Panic by blast
qed

theorem forwarding_never_panics_witness:
  "\<exists>s0. forward_start sample_io ([1, 2], None) ([], True) (sample_conn Server [[0xFF], encode Close]) None [9] = Ok s0 \<and>
    (\<forall>s. (fstep sample_io sample_crates)\<^sup>*\<^sup>* s0 s \<longrightarrow> forward_result (fw_up s) (fw_down s) \<noteq> Some Panic)"
proof -
  let ?c = "sample_conn Server [[0xFF], encode Close]"
  obtain s0 where s0: "forward_start sample_io ([1, 2], None) ([], True) ?c None [9] = Ok s0"
    using forward_start_eq [OF sample_io_ok(2), of "([], True)"] by (metis snd_conv)
  have "rl_valid sample_crates (oc_record ?c)" by (simp add: sample_conn_def sample_layer_valid)
  from forwarding_never_panics [OF sample_io_typed this s0] s0 show ?thesis by blast
qed

end
