(* ===== verification/Spec2Isabelle.thy ===== *)
theory Spec2Isabelle
  imports Cli System Authentic Typing
begin

text \<open>
  ORT, a transparent TCP tunnel with a post-quantum handshake: a model of the Rust workspace
  under \<open>src/crates\<close> and the theorems that make it correct.

  \<^bold>\<open>The program.\<close> The client \<open>ortc\<close> accepts connections of local applications and tunnels each to
  the server \<open>ortd\<close>, which forwards the plaintext to a fixed target. \<open>ort-proto\<close> is the wire
  format; \<open>ort-core\<close> the protocol without input and output (cipher suite, key schedule, entropy
  pool, record layer, connection metadata, clocks, strike cache, handshake); \<open>ort-net\<close> the framed
  transport, the certificate policy, the drivers of the handshake, the forwarder and the accept
  loops; \<open>ort-cli\<close>, \<open>ortc\<close> and \<open>ortd\<close> the key files, the configuration and the programs. A
  connection of an application goes through all of them: \<open>run_client\<close> calls \<open>client_open\<close>, which
  writes the frames that the handshake builds; \<open>run_server\<close> calls \<open>server_accept\<close>, which checks
  them and records the payload in the strike cache shared by all connections; then \<open>forward\<close>
  runs on either side, sealing and opening records with the keys of the handshake.

  \<^bold>\<open>The theories.\<close> Each models the source files named; its definitions have the names of the Rust
  functions, with a prefix for the type where methods of several types share a name.
  \<^item> \<open>Ort_Prelude\<close>: results with errors and panics (\<open>result\<close>), state-passing computations (\<open>sm\<close>,
    \<open>sbind\<close> for the question mark), the collection \<open>outcome_iff\<close> for successful runs, words
    and byte lists, simulations.
  \<^item> \<open>Codec\<close> (\<open>ort-proto/src/codec.rs\<close>), \<open>Messages\<close> (\<open>messages.rs\<close>, \<open>frame.rs\<close>): writer, reader,
    frames, length prefix.
  \<^item> \<open>Suite\<close> (\<open>ort-core/src/suite\<close>, \<open>error.rs\<close>): the trait \<open>CipherSuite\<close> as a record of operations,
    \<open>V1\<close> as its instance over the record \<open>crates\<close> of the cryptographic crates; \<open>Sample_Crates\<close>:
    an instance of those for the witnesses.
  \<^item> \<open>Pool\<close> (\<open>pool.rs\<close>), \<open>Record_Layer\<close> (\<open>kdf.rs\<close>, \<open>record.rs\<close>), \<open>Connmeta\<close> (\<open>connmeta.rs\<close>),
    \<open>Replay\<close> (\<open>time.rs\<close>, \<open>replay.rs\<close>), \<open>Handshake\<close> (\<open>handshake/client.rs\<close>, \<open>handshake/server.rs\<close>).
  \<^item> \<open>Transport\<close>, \<open>Cert\<close>, \<open>Session\<close>, \<open>Forward\<close>, \<open>Run\<close> (the files of the same names in
    \<open>ort-net/src\<close>; \<open>error.rs\<close> is in \<open>Cert\<close>). The forwarder's tasks are program counters \<open>up_pc\<close> and
    \<open>down_pc\<close> with one step per await point or critical section, interleaved by \<open>fstep\<close> until
    \<open>try_join!\<close> returns (\<open>forward_result\<close>); \<open>client_task\<close> and \<open>server_task\<close> are the connection tasks,
    each run as a whole. Two specifications of the loops are here too: \<open>client_step\<close>, with tasks whose
    handshakes are single steps between two uses of the shared pin, and \<open>serve_uses\<close>, a sequence of
    uses of the shared strike cache; the loops themselves are in the next two theories.
  \<^item> \<open>Serving\<close> (\<open>run_server\<close> in \<open>run.rs\<close>, \<open>server_accept\<close> in \<open>session.rs\<close>): the server as a concurrent
    system. The relation \<open>serve_step\<close> accepts a connection, moves one task between two critical
    sections (\<open>task_local\<close>), runs one critical section on the strike cache (\<open>task_locked\<close>), or
    moves one forwarder.
  \<^item> \<open>Dialling\<close> (\<open>run_client\<close> in \<open>run.rs\<close>, \<open>client_open\<close> in \<open>session.rs\<close>): the client as a concurrent
    system. The relation \<open>dial_step\<close> accepts a connection of an application, moves one task from one
    await point to the next (\<open>dial_local\<close>), runs one critical section on the pin (\<open>dial_locked\<close>), or
    moves one forwarder.
  \<^item> \<open>Tunnel\<close>: a client task and a server task that talk to each other, after either mode of the
    handshake. \<open>System\<close>: any task of the concurrent client and any task of the concurrent server
    that talk to each other; flights that reach the running server; replayed streams.
  \<^item> \<open>Authentic\<close>: the forwarder on a network that delivers what it likes, with logs of what was
    sealed and opened (\<open>fruns\<close>). \<open>Typing\<close>: a calculus of operations that do not panic and keep
    their sizes (\<open>safe\<close>), applied to the handshake drivers and the forwarder.
  \<^item> \<open>Cli\<close> (\<open>ort-cli/src/lib.rs\<close>, \<open>ortc/src/main.rs\<close>, \<open>ortd/src/main.rs\<close>): key files, configurations, the
    three commands of the server, and both \<open>main\<close> functions up to their accept loops.

  \<^bold>\<open>Interfaces.\<close> \<open>field_get\<close>, \<open>field_codec\<close>, \<open>fixed_width\<close>, \<open>length_prefixed\<close>: what a field of the wire
  format promises, interpreted on every pair of writer and reader methods. \<open>suite_contract\<close>: what
  a cipher suite promises, interpreted on \<open>V1\<close> (\<open>v1\<close>). \<open>record_channel\<close>: two ends that agree and
  the records in flight between them, interpreted on the record layer (\<open>rl\<close>); forwarding rests on
  it. \<open>replay_guard\<close>: a cache that refuses what it accepted, interpreted on the strike cache.
  \<open>frame_source\<close> and \<open>frame_sink\<close>: framed streams, interpreted on \<open>read_frame\<close> and \<open>write_frame\<close>
  (\<open>source\<close>, \<open>sink\<close>); the session drivers and the forwarder rest on them. \<open>forward_simulation\<close>: a step
  relation that implements another up to stuttering, interpreted on the server's loop with the log
  of the uses of the strike cache as the specification (\<open>loop\<close>), and on the client's with \<open>client_step\<close> as the
  specification (\<open>dialling\<close>).

  \<^bold>\<open>What is shown.\<close>
  \<^item> Wire format: decoding is the exact inverse of a canonical encoding; it never panics; cut and
    padded buffers are rejected; frames cross a connection in order.
  \<^item> Types: the handshake and the forwarder never panic, whatever the network sends, and the keys,
    hashes and payloads that they make have their sizes.
  \<^item> Record layer: streams of records open to their plaintexts; no nonce input repeats in a session
    or across sessions; directions are independent; failures change nothing but one nonce.
  \<^item> Handshake: honest runs agree, in both modes, over the transforms and over the wire; the exact
    decision on every payload; what was checked before anything is accepted; when a payload is
    refused later, and when it is not: a payload ahead of the server's clock is accepted twice, and
    a payload that another client has signed anew is accepted with the session of the original.
  \<^item> Strike cache: a refinement of a history of accepted tags; bounded; the window is exact.
  \<^item> Trust: which keys a strict verifier accepts; for which key a client makes all that it sends, in
    every run; the pin under
    concurrent connections; certificates and keys made by \<open>ortd\<close> are the ones that are served and
    accepted; the client's identity persists.
  \<^item> Forwarding: transparent in every interleaving, terminating, never stuck; a truncated stream
    is a prefix, without an error. On a hostile network, while no ciphertext is forged, what is
    written is a prefix of what the other end read; the client writes nothing to the application
    before the server has confirmed the key.
  \<^item> The concurrent server: whatever the interleaving, the strike cache is the result of a sequence
    of uses, and a session comes from a use of its own; two come from one payload only if it was
    ahead of the clock or the clock went back. A task that forwards has computed what \<open>server_task\<close>
    computes on the shared cache, with the uses of the other tasks between its own.
    An honest flight that reaches the running server is accepted, unless a checked payload with the
    same tag came before it.
  \<^item> The concurrent client: whatever the interleaving, it implements \<open>client_step\<close>, and a task that
    forwards has computed what \<open>client_task\<close> computes, with a key that the policy has accepted; a pin
    once set is the key of all tasks that read it.
  \<^item> The whole system: whatever the interleavings at both ends, a tunnel between a task of the client
    and a task of the server is transparent both ways. A recorded 0-RTT stream can be replayed by
    whoever signs its payload anew, after the window of the strike cache.
  \<^item> The tunnel from end to end (this theory): all of the above composed, from the bytes of the
    application to those of the target and back; on first contact, from the two command lines.

  \<^bold>\<open>Parameters and assumptions.\<close> The cryptographic crates (record \<open>crates\<close>) with their documented laws
  (\<open>crates_ok\<close>: lengths, decapsulation inverts encapsulation, verification accepts signatures,
  decryption inverts encryption up to \<open>2 ^ 36\<close> bytes; \<open>kem_typed\<close>: sizes of the KEM's outputs on any
  input). No computational hardness is assumed: the safety theorems speak of inputs to hash
  functions and of checks that were passed, and where forgery matters, its absence is a condition
  on the run at hand (\<open>unforged\<close>: what one end opened, the other sealed). The operating system's random source (\<open>rng_ok\<close>). Sockets (record
  \<open>tokio_io\<close>): \<open>inc r\<close> is all that a reading half will still deliver, \<open>fin r\<close> how it ends, \<open>out w\<close>
  what a writing half has taken, \<open>up w\<close> whether it works; the laws (\<open>io_laws\<close>) say that reads
  return a nonempty prefix of any length up to the buffer, exact reads and writes all of it;
  \<open>io_typed\<close> only that they do not panic and return no more than was asked for. The crates
  x509-parser and rcgen (records \<open>x509\<close>, \<open>rcgen\<close>; \<open>rcgen_parses\<close>, \<open>x509_typed\<close>). The parsers that clap
  derives from the argument types, and the binding of a listener (\<open>os_net\<close>). The file system of
  \<open>Cli\<close> models the calls of the standard library; a write that fails leaves the file as it was. Clock readings are arguments. Integer arithmetic
  is that of a release build (wrapping, and without \<open>debug_assert!\<close>); 64-bit words are kept where the code has them.

  \<^bold>\<open>Bounds.\<close> Early data up to \<open>MAX_EARLY\<close> (\<open>2 ^ 20 - 6500\<close> bytes) keeps every handshake frame within
  \<open>MAX_FRAME\<close>; records carry at most \<open>CHUNK\<close> bytes. No model runs on fuel: loops are structural
  recursions or step relations, and the forwarder's runs are bounded by three steps per byte
  that the sockets deliver, and six more.

  \<^bold>\<open>Not modelled.\<close> Logging and \<open>init_tracing\<close>; zeroization and the \<open>Debug\<close> implementations, which
  have no effect on what is computed; \<open>set_nodelay\<close>, whose result is ignored; the choice of the
  sockets that are accepted and the outcome of connecting, which are inputs of the models; an
  error of \<open>accept\<close>, which ends an accept loop, so that a run has no further accepts; crate roots,
  which only re-export. Cancellation of a task at an await point after the other one has failed
  appears only as the end of the run; in \<open>Serving\<close> and \<open>Dialling\<close> a forwarder that has returned stays
  in the list of connections, without steps. All other code of the implementation files is covered.
\<close>

section \<open>The tunnel from end to end\<close>

text \<open>
  C2. The tunnel is transparent from end to end, over all the layers. A client task that knows
  the server's key sends its 0-RTT flight and starts forwarding. Let its up task have read an
  application's bytes to their end, in any interleaving with its down task; let a server task
  with the client's address as peer receive exactly what the client has written, at a time
  within the window and with the payload's tag not yet in the strike cache. Then the handshake
  succeeds, forwarding starts, and in every interleaving the target is written a prefix of the
  application's bytes, and all of them, without error, when the down task ends. Conversely, if
  the server's up task has read the target's bytes to their end and the client receives exactly
  what the server has written, then the application is written a prefix of the target's bytes,
  and all of them when the client's down task ends.
\<close>

theorem tunnel_end_to_end:
  assumes "crates_ok C" "rng_ok g" "good_client C ccfg" "ip_ok addr" "ip_to_bytes peer = ip_to_bytes addr"
    and "sc_ok strike" "in_window now ts (sv_window_ms scfg) (sv_skew_ms scfg)" "io_laws io inc fin out up"
    and "up wc" "out wc = []" "fin rc = None" "fin app_r = None" "up app_w"
  shows "\<exists>p a0 s.
    client_task io C X ccfg verifier False (Some addr) (Some (kem_public (V1 C) (sv_kem_secret scfg))) ts app_r app_w
      \<lparr>cs_reader = rc, cs_writer = wc, cs_shared = g\<rparr> = (Some (kem_public (V1 C) (sv_kem_secret scfg), Ok a0), s) \<and>
    out (fw_tun_w a0) = encode_framed (encode (ClientHelloZeroRtt 1 (cc_client_pk ccfg) p)) \<and>
    (\<forall>a xa rs ws tr tw. (fstep io C)\<^sup>*\<^sup>* a0 a \<longrightarrow> fw_up a = UpDone xa \<longrightarrow>
      inc rs = out (fw_tun_w a) \<longrightarrow> fin rs = None \<longrightarrow> up ws \<longrightarrow> out ws = [] \<longrightarrow> fin tr = None \<longrightarrow> up tw \<longrightarrow>
      tag_fresh strike now (payload_tag (V1 C) p) \<longrightarrow>
      (\<exists>b0 s'. server_task io C scfg peer now others now2 (Ok (tr, tw))
          \<lparr>cs_reader = rs, cs_writer = ws, cs_shared = strike\<rparr> = (Some (Ok b0), s') \<and>
        (\<forall>b. (fstep io C)\<^sup>*\<^sup>* b0 b \<longrightarrow> delivered out (out tw @ inc app_r) b) \<and>
        (\<forall>b xb. (fstep io C)\<^sup>*\<^sup>* b0 b \<longrightarrow> fw_up b = UpDone xb \<longrightarrow> inc rc = out (fw_tun_w b) \<longrightarrow>
          (\<forall>a'. (fstep io C)\<^sup>*\<^sup>* a0 a' \<longrightarrow> delivered out (out app_w @ inc tr) a'))))"
proof -
  let ?hello = "\<lambda>p. encode (ClientHelloZeroRtt 1 (cc_client_pk ccfg) p)"
  have wc: "sent io out up wc []" using io_lawsD(3) [OF assms(8)] assms(9,10) by (simp add: sent_def)
  obtain p ce ca a0 s where task:
      "client_task io C X ccfg verifier False (Some addr) (Some (kem_public (V1 C) (sv_kem_secret scfg))) ts app_r app_w
        \<lparr>cs_reader = rc, cs_writer = wc, cs_shared = g\<rparr> = (Some (kem_public (V1 C) (sv_kem_secret scfg), Ok a0), s)"
    and a0: "forward_start io app_r app_w ca (Some (ce_expected_ek_hash ce)) [] = Ok a0"
    and ca: "oc_role ca = Client" "oc_reader ca = rc" "oc_record ca = ce_record ce" "rl_valid C (ce_record ce)"
      "sent io out up (oc_writer ca) [?hello p]" "length (?hello p) \<le> MAX_FRAME"
    and served: "tag_fresh strike now (payload_tag (V1 C) p) \<Longrightarrow>
      flight_served io C scfg (ip_to_bytes peer) now strike out up (cc_client_pk ccfg) p [] ce"
    using client_task_starts [OF assms(1-4,6,7) wc assms(13), where X = X and verifier = verifier and rc = rc and app_r = app_r]
    unfolding assms(5) by metis
  have fin: "fin (oc_reader ca) = None" using ca(2) assms(11) by simp
  note both = served_both_ways [OF assms(1,8) a0 ca(1,3-6) fin assms(12,13) served, unfolded ca(2)]
  have "out (fw_tun_w a0) = encode_framed (?hello p)"
    using ca(5) by (simp add: forward_start_fields(3) [OF a0] sent_def)
  then show ?thesis using task both by blast
qed

theorem tunnel_end_to_end_witness:
  "\<exists>a0 s a b0 s'.
    client_task sample_io sample_crates sample_x509 sample_client TrustOnFirstUse False (Some (V6 (replicate 16 1)))
      (Some (kem_public (V1 sample_crates) (sv_kem_secret sample_server))) 1000900 ([1, 2, 3], None) ([], True)
      \<lparr>cs_reader = ([], None), cs_writer = ([], True), cs_shared = sample_rng\<rparr> =
      (Some (kem_public (V1 sample_crates) (sv_kem_secret sample_server), Ok a0), s) \<and>
    (fstep sample_io sample_crates)\<^sup>*\<^sup>* a0 a \<and> fw_up a = UpDone (Ok ()) \<and>
    server_task sample_io sample_crates sample_server (V6 (replicate 16 1)) 1000000 id 1000000 (Ok (([], None), ([], True)))
      \<lparr>cs_reader = (fst (fw_tun_w a), None), cs_writer = ([], True), cs_shared = sc_new 2000\<rparr> = (Some (Ok b0), s') \<and>
    (\<forall>b. (fstep sample_io sample_crates)\<^sup>*\<^sup>* b0 b \<longrightarrow> delivered fst [1, 2, 3] b)"
proof -
  let ?addr = "V6 (replicate 16 1)" and ?app = "([1, 2, 3] :: bytes, None :: io_error option)"
  have ip: "ip_ok ?addr" by simp
  have sock: "snd ([] :: bytes, True)" "fst ([] :: bytes, True) = []" "snd ([] :: bytes, None :: io_error option) = None"
      "snd ?app = None" by simp_all
  obtain a0 s a where a0:
      "client_task sample_io sample_crates sample_x509 sample_client TrustOnFirstUse False (Some ?addr)
        (Some (kem_public (V1 sample_crates) (sv_kem_secret sample_server))) 1000900 ?app ([], True)
        \<lparr>cs_reader = ([], None), cs_writer = ([], True), cs_shared = sample_rng\<rparr> =
        (Some (kem_public (V1 sample_crates) (sv_kem_secret sample_server), Ok a0), s)"
    and a: "(fstep sample_io sample_crates)\<^sup>*\<^sup>* a0 a" "fw_up a = UpDone (Ok ())"
    by (rule sample_client_up)
  obtain p a1 s1 where run:
      "client_task sample_io sample_crates sample_x509 sample_client TrustOnFirstUse False (Some ?addr)
        (Some (kem_public (V1 sample_crates) (sv_kem_secret sample_server))) 1000900 ?app ([], True)
        \<lparr>cs_reader = ([], None), cs_writer = ([], True), cs_shared = sample_rng\<rparr> =
        (Some (kem_public (V1 sample_crates) (sv_kem_secret sample_server), Ok a1), s1)"
    and served: "\<forall>a xa rs ws tr tw. (fstep sample_io sample_crates)\<^sup>*\<^sup>* a1 a \<longrightarrow> fw_up a = UpDone xa \<longrightarrow>
      fst rs = fst (fw_tun_w a) \<longrightarrow> snd rs = None \<longrightarrow> snd ws \<longrightarrow> fst ws = [] \<longrightarrow> snd tr = None \<longrightarrow> snd tw \<longrightarrow>
      tag_fresh (sc_new 2000) 1000000 (payload_tag (V1 sample_crates) p) \<longrightarrow>
      (\<exists>b0 s'. server_task sample_io sample_crates sample_server ?addr 1000000 id 1000000 (Ok (tr, tw))
          \<lparr>cs_reader = rs, cs_writer = ws, cs_shared = sc_new 2000\<rparr> = (Some (Ok b0), s') \<and>
        (\<forall>b. (fstep sample_io sample_crates)\<^sup>*\<^sup>* b0 b \<longrightarrow> delivered fst (fst tw @ fst ?app) b) \<and>
        (\<forall>b xb. (fstep sample_io sample_crates)\<^sup>*\<^sup>* b0 b \<longrightarrow> fw_up b = UpDone xb \<longrightarrow>
          fst ([], None :: io_error option) = fst (fw_tun_w b) \<longrightarrow>
          (\<forall>a'. (fstep sample_io sample_crates)\<^sup>*\<^sup>* a1 a' \<longrightarrow> delivered fst (fst ([], True) @ fst tr) a')))"
    using tunnel_end_to_end [OF sample_crates_ok sample_rng_ok sample_client_good ip refl sc_ok_new [of 2000] sample_window sample_laws
      sock(1,2,3,4,1), where X = sample_x509 and verifier = TrustOnFirstUse and others = id and ?now2.0 = 1000000]
    by (elim exE conjE)
  have "(fstep sample_io sample_crates)\<^sup>*\<^sup>* a1 a" using run a0 a(1) by simp
  note served [rule_format, OF this a(2), of "(fst (fw_tun_w a), None)" "([], True)" "([], None)" "([], True)"]
  then obtain b0 s' where
      "server_task sample_io sample_crates sample_server ?addr 1000000 id 1000000 (Ok (([], None), ([], True)))
        \<lparr>cs_reader = (fst (fw_tun_w a), None), cs_writer = ([], True), cs_shared = sc_new 2000\<rparr> = (Some (Ok b0), s')"
      "\<forall>b. (fstep sample_io sample_crates)\<^sup>*\<^sup>* b0 b \<longrightarrow> delivered fst [1, 2, 3] b"
    using tag_fresh_new by auto
  with a0 a show ?thesis by blast
qed


section \<open>First contact from the command line\<close>

text \<open>
  C3. First contact, from the command line to the bytes of the application. Let \<open>ortd gen-cert\<close>
  have succeeded on a directory, and \<open>ortd run\<close> been started on it; let \<open>ortc\<close> have been started
  in strict mode without a CA. Then the client verifies strictly, and a connection task without
  a cached key, answered with the hello of that server, completes the 1-RTT handshake with the
  server's key. A server task that receives what the client has written completes too, within
  the window given on its command line and whatever other connections do to the strike cache
  meanwhile; and from then on the tunnel is transparent in both directions, in every
  interleaving.
\<close>

theorem first_contact_end_to_end:
  assumes "crates_ok C" "rcgen_parses R X" "rng_ok (cli_rng d0)" "rng_ok g"
    and "ortd_main C R parse_from net argv d0 = (Ok Finished, d1)" "parse_from (ortd_argv argv) = Some (CmdGenCert \<lparr>gk_out = dir\<rparr>)"
    and "ortd_main C R parse_from net argv' d1 = (Ok (Serving target scfg), d2)"
      "parse_from (ortd_argv argv') = Some (CmdRun args)" "ra_cert args = Some dir"
    and "ortc_main C parse cnet cargv c0 = (Ok (Tunnelling remote ccfg verifier force), c1)" "parse cargv = Some cargs"
      "\<not> ca_no_strict_cert cargs" "ca_ca cargs = None"
    and "length (sv_certificate scfg) \<le> MAX_EARLY" "ip_ok addr" "ip_ok peer" "ip_to_bytes peer = ip_to_bytes addr"
    and "sc_ok (others strike)" "in_window now2 ts (ra_window_ms args) (ra_skew_ms args)" "io_laws io inc fin out up"
    and "up wc" "out wc = []" "fin app_r = None" "up app_w"
    and "pending io inc fin rc (encode (ServerHello 1 (sv_server_pk scfg) (sv_certificate scfg) now1) # answer)"
  shows "verifier = Strict None \<and> (\<exists>p a0 s. client_task io C X ccfg verifier force (Some addr) None ts app_r app_w
        \<lparr>cs_reader = rc, cs_writer = wc, cs_shared = g\<rparr> = (Some (sv_server_pk scfg, Ok a0), s) \<and>
    (\<forall>a xa rs ws tr tw. (fstep io C)\<^sup>*\<^sup>* a0 a \<longrightarrow> fw_up a = UpDone xa \<longrightarrow>
      inc rs = out (fw_tun_w a) \<longrightarrow> fin rs = None \<longrightarrow> up ws \<longrightarrow> out ws = [] \<longrightarrow> fin tr = None \<longrightarrow> up tw \<longrightarrow>
      tag_fresh (others strike) now2 (payload_tag (V1 C) p) \<longrightarrow>
      (\<exists>b0 s'. server_task io C scfg peer now1 others now2 (Ok (tr, tw))
          \<lparr>cs_reader = rs, cs_writer = ws, cs_shared = strike\<rparr> = (Some (Ok b0), s') \<and>
        (\<forall>b. (fstep io C)\<^sup>*\<^sup>* b0 b \<longrightarrow> delivered out (out tw @ inc app_r) b) \<and>
        (\<forall>b xb. (fstep io C)\<^sup>*\<^sup>* b0 b \<longrightarrow> fw_up b = UpDone xb \<longrightarrow> inc rc = out (fw_tun_w b) \<longrightarrow>
          (\<forall>a'. (fstep io C)\<^sup>*\<^sup>* a0 a' \<longrightarrow> delivered out (out app_w @ inc tr) a')))))"
proof -
  note srv = ortd_serves_certificate [OF assms(1,3,2,5-9)]
  have cl: "good_client C ccfg" "verifier = Strict None"
    using ortc_started [OF assms(10,11)] assms(12,13) by simp_all
  have wc: "sent io out up wc []" using io_lawsD(3) [OF assms(20)] assms(21,22) by (simp add: sent_def)
  have verify: "sv_verify X verifier (sv_server_pk scfg) (sv_certificate scfg) = Ok ()" using srv(2) cl(2) by simp
  have window: "in_window now2 ts (sv_window_ms scfg) (sv_skew_ms scfg)" using assms(19) srv(3,4) by simp
  show ?thesis
    using first_contact_both_ways [where others = others and strike = strike,
        OF assms(1,4) cl(1) assms(15-17) srv(1) assms(14) verify assms(18) window assms(20) wc assms(25,23,24)] cl(2)
    by blast
qed

text \<open>Sample programs for the witness: the server's two runs and a strict client.\<close>

definition sample_parse_ortd :: "string list \<Rightarrow> commands option" where
  "sample_parse_ortd argv =
     (if ''gen-cert'' \<in> set argv then Some (CmdGenCert \<lparr>gk_out = [''cert'']\<rparr>)
      else Some (CmdRun \<lparr>ra_listen = sample_addr, ra_target = sample_addr, ra_cert = Some [''cert''], ra_window_ms = 2000, ra_skew_ms = 1000\<rparr>))"

definition sample_net :: os_net where
  "sample_net = \<lparr>net_bind = (\<lambda>_. Ok ()), net_display = (\<lambda>_. [])\<rparr>"

definition sample_ortc :: ortc_cli where
  "sample_ortc = \<lparr>ca_listen = sample_addr, ca_target = sample_addr, ca_no_strict_cert = False, ca_client_key = None,
     ca_ca = None, ca_force_1rtt = False\<rparr>"

lemma sample_programs:
  obtains d1 scfg d2 ccfg c1 where
    "ortd_main sample_crates sample_rcgen sample_parse_ortd sample_net [''ortd'', ''gen-cert''] sample_process = (Ok Finished, d1)"
    "ortd_main sample_crates sample_rcgen sample_parse_ortd sample_net [''ortd'', ''--listen''] d1 = (Ok (Serving sample_addr scfg), d2)"
    "ortc_main sample_crates (\<lambda>_. Some sample_ortc) sample_net [] sample_process =
      (Ok (Tunnelling sample_addr ccfg (Strict None) False), c1)"
proof -
  let ?args = "\<lparr>ra_listen = sample_addr, ra_target = sample_addr, ra_cert = Some [''cert''], ra_window_ms = 2000, ra_skew_ms = 1000\<rparr>"
  have rng: "rng_ok (cli_rng sample_process)" by (simp add: sample_process_def sample_rng_ok)
  obtain d1 where made: "gen_cert sample_crates sample_rcgen [''cert''] sample_process = (Ok (), d1)"
    using sample_gen_cert by blast
  have cert: "ra_cert ?args = Some [''cert'']" by simp
  obtain scfg d2 where load: "load_server_config sample_crates ?args d1 = (Ok scfg, d2)"
    by (rule gen_cert_served [OF sample_crates_ok rng sample_rcgen_parses made cert])
  obtain sk g where "sig_generate (V1 sample_crates) (cli_rng sample_process) = (Ok sk, g)"
    by (simp add: V1_def v1_sig_generate_def fill_random_def sample_process_def sample_rng_def sbind_def)
  then have "\<exists>ccfg c1. ortc_main sample_crates (\<lambda>_. Some sample_ortc) sample_net [] sample_process =
      (Ok (Tunnelling sample_addr ccfg (Strict None) False), c1)"
    by (simp add: ortc_main_def ortc_setup_def client_verifier_def load_client_config_def sample_ortc_def bind_listener_def sample_net_def
        with_context_def on_rng_def sbind_def Let_def)
  moreover have "ortd_main sample_crates sample_rcgen sample_parse_ortd sample_net [''ortd'', ''gen-cert''] sample_process = (Ok Finished, d1)"
    using made by (simp add: ortd_main_def ortd_argv_def sample_parse_ortd_def sbind_def)
  moreover have "ortd_main sample_crates sample_rcgen sample_parse_ortd sample_net [''ortd'', ''--listen''] d1 =
      (Ok (Serving sample_addr scfg), d2)"
    using load by (simp add: ortd_main_def ortd_run_def ortd_argv_def sample_parse_ortd_def bind_listener_def sample_net_def
        with_context_def sbind_def)
  ultimately show thesis using that by blast
qed

theorem first_contact_end_to_end_witness:
  "\<exists>d1 scfg d2 ccfg c1 a0 s.
    ortd_main sample_crates sample_rcgen sample_parse_ortd sample_net [''ortd'', ''gen-cert''] sample_process = (Ok Finished, d1) \<and>
    ortd_main sample_crates sample_rcgen sample_parse_ortd sample_net [''ortd'', ''--listen''] d1 = (Ok (Serving sample_addr scfg), d2) \<and>
    ortc_main sample_crates (\<lambda>_. Some sample_ortc) sample_net [] sample_process =
      (Ok (Tunnelling sample_addr ccfg (Strict None) False), c1) \<and>
    client_task sample_io sample_crates sample_x509 ccfg (Strict None) False (Some (V6 (replicate 16 1))) None 1000900
      ([1, 2, 3], None) ([], True)
      \<lparr>cs_reader = (encode_framed (encode (ServerHello 1 (sv_server_pk scfg) (sv_certificate scfg) 1000000)), None),
       cs_writer = ([], True), cs_shared = sample_rng\<rparr> = (Some (sv_server_pk scfg, Ok a0), s)"
proof -
  let ?argv = "[''ortd'', ''gen-cert'']" and ?argv' = "[''ortd'', ''--listen'']" and ?addr = "V6 (replicate 16 1)"
  let ?args = "\<lparr>ra_listen = sample_addr, ra_target = sample_addr, ra_cert = Some [''cert''], ra_window_ms = 2000, ra_skew_ms = 1000\<rparr>"
  obtain d1 scfg d2 ccfg c1 where
      made: "ortd_main sample_crates sample_rcgen sample_parse_ortd sample_net ?argv sample_process = (Ok Finished, d1)"
    and run: "ortd_main sample_crates sample_rcgen sample_parse_ortd sample_net ?argv' d1 = (Ok (Serving sample_addr scfg), d2)"
    and client: "ortc_main sample_crates (\<lambda>_. Some sample_ortc) sample_net [] sample_process =
        (Ok (Tunnelling sample_addr ccfg (Strict None) False), c1)"
    by (rule sample_programs)
  have rng: "rng_ok (cli_rng sample_process)" by (simp add: sample_process_def sample_rng_ok)
  have parse: "sample_parse_ortd (ortd_argv ?argv) = Some (CmdGenCert \<lparr>gk_out = [''cert'']\<rparr>)"
      "sample_parse_ortd (ortd_argv ?argv') = Some (CmdRun ?args)" "ra_cert ?args = Some [''cert'']"
    by (simp_all add: ortd_argv_def sample_parse_ortd_def)
  have strict: "\<not> ca_no_strict_cert sample_ortc" "ca_ca sample_ortc = None" by (simp_all add: sample_ortc_def)
  note srv = ortd_serves_certificate [OF sample_crates_ok rng sample_rcgen_parses made parse(1) run parse(2,3)]
  have len: "length (sv_server_pk scfg) = 1184" "sv_certificate scfg = sv_server_pk scfg"
    using srv(1,5) v1.kem_public_length [OF sample_crates_ok]
    by (auto simp: V1_def ML_KEM_768_EK_def sample_rcgen_def split: if_splits)
  then have cert: "length (sv_certificate scfg) \<le> MAX_EARLY" by (simp add: MAX_EARLY_def)
  have ip: "ip_ok ?addr" by simp
  have window: "in_window 1000000 1000900 (ra_window_ms ?args) (ra_skew_ms ?args)" by (simp add: in_window_def)
  have sock: "snd ([] :: bytes, True)" "fst ([] :: bytes, True) = []" "snd ([1, 2, 3] :: bytes, None :: io_error option) = None" by simp_all
  let ?hello = "encode (ServerHello 1 (sv_server_pk scfg) (sv_certificate scfg) 1000000)"
  have net: "pending sample_io fst snd (encode_framed ?hello, None) [?hello]"
    using sample_pending [of "[?hello]"] len by (simp add: encode_eq MAX_FRAME_def)
  have strike: "sc_ok (id (sc_new 2000))" using sc_ok_new by simp
  from first_contact_end_to_end [where others = id and strike = "sc_new 2000", OF sample_crates_ok sample_rcgen_parses rng sample_rng_ok made
      parse(1) run parse(2,3) client refl strict cert ip ip refl strike window sample_laws sock(1-3,1) net] made run client
  show ?thesis by blast
qed

end
